(* ===== verification/Prelude.thy ===== *)
theory Prelude
  imports Complex_Main "HOL-Library.Word" "HOL-Library.AList"
begin

text \<open>
  Shared vocabulary of the development: the names of the C++ scalar types, the memory that
  pointers address, the functions of the C++ standard library the sources use on scalars, and
  the generic lemmas on words, lists and association lists that the components share.

  Conventions.  \<open>uint32_t\<close>, \<open>uint64_t\<close> and \<open>size_t\<close> values that the code stores are words of
  their width, so every addition and subtraction wraps as in C++.  \<open>double\<close> and \<open>float\<close> are
  real numbers: rounding, infinities and NaN are outside the model.  A pointer is a 64-bit
  word, the null pointer is 0, and memory is a function from addresses to bytes.
  \<open>std::unordered_map\<close> is an association list with distinct keys: the order of the list stands
  for the iteration order of the container, which C++ leaves open.
\<close>

section \<open>Scalar types\<close>

type_synonym u8 = "8 word"
type_synonym u32 = "32 word"
type_synonym u64 = "64 word"
type_synonym ptr = "64 word"
type_synonym memory = "ptr \<Rightarrow> u8"

text \<open>\<open>UINT32_MAX\<close>, the "not found" vertex, and \<open>std::numeric_limits<double>::max()\<close>.\<close>

definition UINT32_MAX :: u32 where
  "UINT32_MAX = 4294967295"

definition DBL_MAX :: real where
  "DBL_MAX = (2 - 1 / 2 ^ 52) * 2 ^ 1023"

text \<open>\<open>std::clamp(x, lo, hi)\<close> for \<open>lo \<le> hi\<close>.\<close>

definition clamp :: "real \<Rightarrow> real \<Rightarrow> real \<Rightarrow> real" where
  "clamp x lo hi = (if x < lo then lo else if hi < x then hi else x)"

text \<open>
  The conversion of a double to \<open>uint64_t\<close> truncates.  C++ defines it for values whose
  truncation fits in 64 bits; outside that range the model reduces modulo \<open>2^64\<close>.
\<close>

definition u64_of_real :: "real \<Rightarrow> u64" where
  "u64_of_real x = word_of_int \<lfloor>x\<rfloor>"

section \<open>Collections of facts\<close>

named_theorems wf_intros \<open>preservation of the well-formedness invariants\<close>
named_theorems frame_simps \<open>fields an operation leaves alone\<close>
named_theorems range_intros \<open>values that stay within their range\<close>

section \<open>Real arithmetic\<close>

lemma clamp_bounds [range_intros]:
  "lo \<le> hi \<Longrightarrow> lo \<le> clamp x lo hi" "lo \<le> hi \<Longrightarrow> clamp x lo hi \<le> hi"
  by (auto simp: clamp_def)

lemma clamp_id [simp]: "lo \<le> x \<Longrightarrow> x \<le> hi \<Longrightarrow> clamp x lo hi = x"
  by (auto simp: clamp_def)

lemma clamp_clamp [simp]: "lo \<le> hi \<Longrightarrow> clamp (clamp x lo hi) lo hi = clamp x lo hi"
  by (auto simp: clamp_def)

lemma clamp_mono: "lo \<le> hi \<Longrightarrow> x \<le> y \<Longrightarrow> clamp x lo hi \<le> clamp y lo hi"
  by (auto simp: clamp_def)

lemma DBL_MAX_pos: "0 < DBL_MAX"
  by (simp add: DBL_MAX_def)

lemma DBL_MAX_ge_pow: "2 ^ 1023 \<le> DBL_MAX"
proof -
  have "1 * 2 ^ 1023 \<le> (2 - 1 / 2 ^ 52) * (2 ^ 1023 :: real)"
    by (rule mult_right_mono) (auto simp: field_simps)
  then show ?thesis by (simp add: DBL_MAX_def)
qed

lemma u64_of_real_exact:
  assumes "0 \<le> x" and "x < 2 ^ 64"
  shows "unat (u64_of_real x) = nat \<lfloor>x\<rfloor>"
proof -
  have "\<lfloor>x\<rfloor> < 2 ^ 64"
    using assms(2) by (simp add: floor_less_iff)
  then show ?thesis
    using assms(1) by (simp add: u64_of_real_def unsigned_of_int take_bit_int_eq_self)
qed

section \<open>Words\<close>

lemma unsigned_real_nonneg [simp, intro!]: "0 \<le> (unsigned (w :: 'a::len word) :: real)"
  by (metis of_nat_0_le_iff of_nat_unat)

lemma unat_u64_less: "unat (w :: u64) < 2 ^ 64"
proof -
  have "unat w < 2 ^ LENGTH(64)" by (rule unsigned_less)
  then show ?thesis by simp
qed

lemma unat_add_le: "unat (a + b :: 'a::len word) \<le> unat a + unat b"
  by (simp add: unat_word_ariths)

lemma unat_minus_le: "b \<le> a \<Longrightarrow> unat (a - b :: 'a::len word) = unat a - unat b"
  by (simp add: unat_sub word_le_nat_alt)

lemma unat_add_exact:
  "unat a + unat b < 2 ^ LENGTH('a) \<Longrightarrow> unat (a + b :: 'a::len word) = unat a + unat b"
  by (simp add: unat_word_ariths)

lemma unat_plus_of_nat:
  "unat a + n < 2 ^ LENGTH('a) \<Longrightarrow> unat (a + of_nat n :: 'a::len word) = unat a + n"
  by (simp add: unat_word_ariths unsigned_of_nat take_bit_eq_mod mod_add_right_eq)

lemma unat_of_nat_small: "n < 2 ^ LENGTH('a) \<Longrightarrow> unat (of_nat n :: 'a::len word) = n"
  by (simp add: unsigned_of_nat take_bit_nat_eq_self)

text \<open>A sum of words is exact as long as the sum of their values fits.\<close>

lemma unat_sum_list:
  "(\<Sum>w \<leftarrow> ws. unat w) < 2 ^ LENGTH('a) \<Longrightarrow>
   unat (sum_list (ws :: 'a::len word list)) = (\<Sum>w \<leftarrow> ws. unat w)"
proof (induction ws)
  case Nil
  then show ?case by simp
next
  case (Cons w ws)
  then have "unat (sum_list ws) = (\<Sum>w \<leftarrow> ws. unat w)" by simp
  with Cons.prems show ?case by (simp add: unat_add_exact)
qed

section \<open>Lists and association lists\<close>

lemma sum_list_le_pointwise:
  "(\<And>x. x \<in> set xs \<Longrightarrow> f x \<le> (g x :: nat)) \<Longrightarrow> (\<Sum>x \<leftarrow> xs. f x) \<le> (\<Sum>x \<leftarrow> xs. g x)"
  by (induction xs) (auto intro: add_mono)

lemma sum_list_eq_pointwise:
  assumes "\<And>x. x \<in> set xs \<Longrightarrow> f x \<le> (g x :: nat)"
    and "(\<Sum>x \<leftarrow> xs. g x) \<le> (\<Sum>x \<leftarrow> xs. f x)" and "x \<in> set xs"
  shows "f x = g x"
  using assms
proof (induction xs)
  case Nil
  then show ?case by simp
next
  case (Cons y ys)
  have le: "(\<Sum>x \<leftarrow> ys. f x) \<le> (\<Sum>x \<leftarrow> ys. g x)"
    using Cons.prems(1) by (intro sum_list_le_pointwise) simp
  have "f y \<le> g y" using Cons.prems(1) by simp
  with le Cons.prems(2) have eqs: "f y = g y" "(\<Sum>x \<leftarrow> ys. g x) \<le> (\<Sum>x \<leftarrow> ys. f x)"
    by simp_all
  show ?case
  proof (cases "x = y")
    case True
    with eqs show ?thesis by simp
  next
    case False
    with Cons.prems eqs(2) show ?thesis
      by (intro Cons.IH) auto
  qed
qed

text \<open>\<open>std::find(busy.begin(), busy.end(), e) != busy.end()\<close> is membership in a list.\<close>

lemma map_of_map_values:
  "map_of (map (\<lambda>(k, v). (k, f v)) al) k = map_option f (map_of al k)"
  by (induction al) auto

lemma distinct_keys_update:
  "distinct (map fst al) \<Longrightarrow> distinct (map fst (AList.update k v al))"
  by (rule distinct_update)

lemma map_of_update [simp]:
  "map_of (AList.update k v al) k' = (if k' = k then Some v else map_of al k')"
  by (simp add: update_conv')

lemma map_of_delete [simp]:
  "map_of (AList.delete k al) k' = (if k' = k then None else map_of al k')"
  by (simp add: delete_conv')

lemma set_update_subset: "set (AList.update k v al) \<subseteq> insert (k, v) (set al)"
  by (induction al) auto

section \<open>Memory\<close>

text \<open>
  \<open>std::memcpy(dst, src, n)\<close> copies \<open>n\<close> bytes.  It is used on ranges that do not overlap,
  where reading all of the source before writing is what C++ guarantees.
\<close>

definition memcpy :: "ptr \<Rightarrow> ptr \<Rightarrow> nat \<Rightarrow> memory \<Rightarrow> memory" where
  "memcpy dst src n m = (\<lambda>a. if unat (a - dst) < n then m (src + (a - dst)) else m a)"

text \<open>The address range of \<open>n\<close> bytes from \<open>p\<close> and two ranges that do not meet.\<close>

definition in_range :: "ptr \<Rightarrow> ptr \<Rightarrow> nat \<Rightarrow> bool" where
  "in_range a p n \<longleftrightarrow> unat (a - p) < n"

definition ranges_disjoint :: "ptr \<Rightarrow> nat \<Rightarrow> ptr \<Rightarrow> nat \<Rightarrow> bool" where
  "ranges_disjoint p n q k \<longleftrightarrow> (\<forall>a. \<not> (in_range a p n \<and> in_range a q k))"

lemma memcpy_outside: "\<not> in_range a dst n \<Longrightarrow> memcpy dst src n m a = m a"
  by (simp add: memcpy_def in_range_def)

lemma memcpy_inside:
  "i < n \<Longrightarrow> i < 2 ^ 64 \<Longrightarrow> memcpy dst src n m (dst + of_nat i) = m (src + of_nat i)"
  by (simp add: memcpy_def unat_of_nat_small)

lemma in_range_offset:
  assumes "in_range a (p + of_nat off) n" and "off + n \<le> k" and "k \<le> 2 ^ 64"
  shows "in_range a p k"
proof -
  define d where "d = unat (a - (p + of_nat off))"
  have d: "d < n" using assms(1) by (simp add: in_range_def d_def)
  have "of_nat d = a - (p + of_nat off)" by (simp add: d_def)
  then have "a - p = of_nat (off + d)" by (simp add: algebra_simps)
  moreover have "off + d < 2 ^ 64" using d assms(2,3) by linarith
  ultimately have "unat (a - p) = off + d" by (simp add: unat_of_nat_small del: of_nat_add)
  then show ?thesis using d assms(2) by (simp add: in_range_def)
qed

lemma in_range_of_nat: "i < n \<Longrightarrow> n \<le> 2 ^ 64 \<Longrightarrow> in_range (p + of_nat i) p n"
  by (simp add: in_range_def unat_of_nat_small)

text \<open>A range that does not wrap round is an interval of addresses.\<close>

lemma in_range_interval:
  assumes "unat p + n \<le> 2 ^ 64"
  shows "in_range a p n \<longleftrightarrow> unat p \<le> unat a \<and> unat a < unat p + n"
  using assms unat_sub_if_size [of a p] unat_u64_less [of a]
  by (auto simp: in_range_def word_size)

lemma ranges_disjoint_below:
  assumes "unat p + n \<le> unat q" and "unat q + k \<le> 2 ^ 64"
  shows "ranges_disjoint p n q k"
  using assms by (auto simp: ranges_disjoint_def in_range_interval)

lemma ranges_disjoint_sym: "ranges_disjoint p n q k \<longleftrightarrow> ranges_disjoint q k p n"
  by (auto simp: ranges_disjoint_def)

end
