(* ===== verification/Model.thy ===== *)
theory Model
  imports Prelude
begin

text \<open>
  The shared domain model, \<open>model/model.hpp\<close>: fabrics, traffic classes, endpoints, the
  attributes of an edge with the per-fabric defaults, transfer requests and path costs.
\<close>

section \<open>Enumerations\<close>

datatype fabric_type = NVLink | PCIe | CXL | InfiniBand

datatype traffic_class = TensorParallel | PipelineParallel | KVMigration

datatype endpoint_type = GPU | CPU | CXLController | IBPort

text \<open>The underlying \<open>uint8_t\<close> values the enumerators are declared with.\<close>

primrec endpoint_code :: "endpoint_type \<Rightarrow> u64" where
  "endpoint_code GPU = 0"
| "endpoint_code CPU = 1"
| "endpoint_code CXLController = 2"
| "endpoint_code IBPort = 3"

instantiation fabric_type :: enum
begin

definition enum_fabric_type :: "fabric_type list" where
  "enum_fabric_type = [NVLink, PCIe, CXL, InfiniBand]"

definition enum_all_fabric_type :: "(fabric_type \<Rightarrow> bool) \<Rightarrow> bool" where
  "enum_all_fabric_type P \<longleftrightarrow> P NVLink \<and> P PCIe \<and> P CXL \<and> P InfiniBand"

definition enum_ex_fabric_type :: "(fabric_type \<Rightarrow> bool) \<Rightarrow> bool" where
  "enum_ex_fabric_type P \<longleftrightarrow> P NVLink \<or> P PCIe \<or> P CXL \<or> P InfiniBand"

instance
proof
  show "(UNIV :: fabric_type set) = set enum_class.enum"
    by (auto simp: enum_fabric_type_def intro: fabric_type.exhaust)
  show "distinct (enum_class.enum :: fabric_type list)"
    by (simp add: enum_fabric_type_def)
  fix P :: "fabric_type \<Rightarrow> bool"
  show "enum_class.enum_all P = (\<forall>f \<in> UNIV. P f)"
    unfolding enum_all_fabric_type_def ball_UNIV by (metis fabric_type.exhaust)
  show "enum_class.enum_ex P = (\<exists>f \<in> UNIV. P f)"
    unfolding enum_ex_fabric_type_def bex_UNIV by (metis fabric_type.exhaust)
qed

end

section \<open>Endpoints, edges, requests\<close>

record endpoint_id =
  node_id :: u32
  local_id :: u32
  ep_type :: endpoint_type

text \<open>\<open>EndpointIdHash\<close>: the hash packs the three fields with shifts of 16 and 8 bits.\<close>

unbundle bit_operations_syntax

definition endpoint_hash :: "endpoint_id \<Rightarrow> u64" where
  "endpoint_hash e =
     push_bit 16 (ucast (node_id e)) OR push_bit 8 (ucast (local_id e)) OR
     endpoint_code (ep_type e)"

record edge_attributes =
  fabric :: fabric_type
  bandwidth_gbps :: real
  latency_us :: real
  contention_alpha :: real
  rail_id :: int

definition kKvChunkBytes :: u64 where
  "kKvChunkBytes = 256 * 1024 * 1024"

definition kIbRailCount :: nat where
  "kIbRailCount = 2"

record transfer_request =
  rq_source :: endpoint_id
  rq_dest :: endpoint_id
  size_bytes :: u64
  traffic :: traffic_class
  deadline_us :: real

record path_cost =
  edge_indices :: "u32 list"
  pc_latency_us :: real

definition no_path :: path_cost where
  "no_path = \<lparr>edge_indices = [], pc_latency_us = DBL_MAX\<rparr>"

fun contention_exponent :: "fabric_type \<Rightarrow> real" where
  "contention_exponent NVLink = 1.4"
| "contention_exponent InfiniBand = 1.8"
| "contention_exponent PCIe = 2.1"
| "contention_exponent CXL = 2.1"

text \<open>Only InfiniBand edges keep the rail they are given; every other fabric has rail \<open>-1\<close>.\<close>

fun default_fabric_attrs :: "fabric_type \<Rightarrow> int \<Rightarrow> edge_attributes" where
  "default_fabric_attrs NVLink r =
     \<lparr>fabric = NVLink, bandwidth_gbps = 900, latency_us = 1, contention_alpha = 1.4, rail_id = -1\<rparr>"
| "default_fabric_attrs PCIe r =
     \<lparr>fabric = PCIe, bandwidth_gbps = 64, latency_us = 3, contention_alpha = 2.1, rail_id = -1\<rparr>"
| "default_fabric_attrs CXL r =
     \<lparr>fabric = CXL, bandwidth_gbps = 50, latency_us = 5, contention_alpha = 2.1, rail_id = -1\<rparr>"
| "default_fabric_attrs InfiniBand r =
     \<lparr>fabric = InfiniBand, bandwidth_gbps = 50, latency_us = 5, contention_alpha = 1.8, rail_id = r\<rparr>"

section \<open>Facts about the defaults\<close>

lemma kKvChunkBytes_unat [simp]: "unat kKvChunkBytes = 268435456"
  by (simp add: kKvChunkBytes_def)

lemma kKvChunkBytes_nonzero [simp]: "kKvChunkBytes \<noteq> 0"
  by (simp add: kKvChunkBytes_def)

definition attrs_ok :: "edge_attributes \<Rightarrow> bool" where
  "attrs_ok a \<longleftrightarrow> 0 < bandwidth_gbps a \<and> 0 \<le> latency_us a \<and> 0 \<le> contention_alpha a"

lemma default_fabric_attrs_ok [simp, intro]: "attrs_ok (default_fabric_attrs f r)"
  by (cases f) (simp_all add: attrs_ok_def)

lemma default_fabric_attrs_fabric [simp]: "fabric (default_fabric_attrs f r) = f"
  by (cases f) simp_all

lemma default_fabric_attrs_exponent:
  "contention_alpha (default_fabric_attrs f r) = contention_exponent f"
  by (cases f) simp_all

lemma default_fabric_attrs_rail:
  "rail_id (default_fabric_attrs f r) = (if f = InfiniBand then r else -1)"
  by (cases f) simp_all

declare default_fabric_attrs.simps [simp del]

end
