(* ===== verification/Topology.thy ===== *)
theory Topology
  imports Model "HOL-Library.Multiset" "HOL-Library.Sublist"
begin

text \<open>
  The latency-weighted topology graph, \<open>topology/topology.hpp\<close> and \<open>topology/topology.cpp\<close>:
  the latency model, the graph with its lazily filled path cache, and the best-first
  enumeration of the \<open>k\<close> cheapest paths behind it.  The builders of the default clusters are in
  \<open>Cluster\<close>; the search is verified in \<open>Search\<close>.
\<close>

section \<open>Data\<close>

record graph_edge =
  src_vertex :: u32
  dst_vertex :: u32
  attrs :: edge_attributes

type_synonym edge_path = "u32 list"

text \<open>
  \<open>path_cache_\<close> is a \<open>mutable\<close> member that the \<open>const\<close> method \<open>paths\<close> fills, so \<open>paths\<close>
  returns the changed graph along with its result.
\<close>

record topology_graph =
  vertices :: "endpoint_id list"
  edges :: "graph_edge list"
  path_cache :: "u64 \<Rightarrow> edge_path list option"
  default_k :: u32
  default_max_hops :: u32

definition empty_graph :: topology_graph where
  "empty_graph = \<lparr>vertices = [], edges = [], path_cache = Map.empty,
                  default_k = 6, default_max_hops = 5\<rparr>"

section \<open>The latency model\<close>

definition edge_latency_us :: "edge_attributes \<Rightarrow> u64 \<Rightarrow> real \<Rightarrow> real" where
  "edge_latency_us a sz utilization =
     (let u = clamp utilization 0 0.99;
          residual = 1 - u;
          transfer_s = real (unat sz) / 10 ^ 9 /
                       (bandwidth_gbps a * residual powr contention_alpha a)
      in latency_us a + transfer_s * 10 ^ 6)"

section \<open>Building and looking up\<close>

definition add_vertex :: "endpoint_id \<Rightarrow> topology_graph \<Rightarrow> u32 \<times> topology_graph" where
  "add_vertex ep g =
     (let vs = vertices g @ [ep]
      in (of_nat (length vs - 1), g\<lparr>vertices := vs\<rparr>))"

definition add_edge ::
  "u32 \<Rightarrow> u32 \<Rightarrow> edge_attributes \<Rightarrow> topology_graph \<Rightarrow> u32 \<times> topology_graph" where
  "add_edge s d a g =
     (let es = edges g @ [\<lparr>src_vertex = s, dst_vertex = d, attrs = a\<rparr>]
      in (of_nat (length es - 1), g\<lparr>edges := es\<rparr>))"

fun scan_vertices :: "nat \<Rightarrow> endpoint_id list \<Rightarrow> endpoint_id \<Rightarrow> u32" where
  "scan_vertices i [] ep = UINT32_MAX"
| "scan_vertices i (v # vs) ep = (if v = ep then of_nat i else scan_vertices (Suc i) vs ep)"

definition vertex_of :: "topology_graph \<Rightarrow> endpoint_id \<Rightarrow> u32" where
  "vertex_of g ep = scan_vertices 0 (vertices g) ep"

definition precompute_paths :: "u32 \<Rightarrow> u32 \<Rightarrow> topology_graph \<Rightarrow> topology_graph" where
  "precompute_paths k max_hops g = g\<lparr>default_k := k, default_max_hops := max_hops\<rparr>"

section \<open>Best-first path enumeration\<close>

record search_state =
  ss_vertex :: u32
  ss_path :: edge_path
  ss_cost :: real

text \<open>
  \<open>std::priority_queue<State, ..., std::greater>\<close>: \<open>top\<close> is a state of least cost.  Which of
  several cheapest states is on top is left open by the standard; here it is the one pushed first.
\<close>

fun pq_top :: "search_state list \<Rightarrow> search_state" where
  "pq_top [] = \<lparr>ss_vertex = 0, ss_path = [], ss_cost = 0\<rparr>"
| "pq_top [s] = s"
| "pq_top (s # t # q) = (let m = pq_top (t # q) in if ss_cost s \<le> ss_cost m then s else m)"

definition pq_pop :: "search_state list \<Rightarrow> search_state list" where
  "pq_pop q = remove1 (pq_top q) q"

definition edge_cost :: "graph_edge \<Rightarrow> real" where
  "edge_cost e = latency_us (attrs e) + 10 ^ 6 / bandwidth_gbps (attrs e)"

text \<open>The cycle test: some edge of the path already enters the vertex.\<close>

definition enters :: "graph_edge list \<Rightarrow> edge_path \<Rightarrow> u32 \<Rightarrow> bool" where
  "enters es p v \<longleftrightarrow> list_ex (\<lambda>e. dst_vertex (es ! unat e) = v) p"

definition follows :: "graph_edge list \<Rightarrow> search_state \<Rightarrow> nat \<times> graph_edge \<Rightarrow> bool" where
  "follows es s ie \<longleftrightarrow>
     src_vertex (snd ie) = ss_vertex s \<and> \<not> enters es (ss_path s) (dst_vertex (snd ie))"

definition extend :: "search_state \<Rightarrow> nat \<times> graph_edge \<Rightarrow> search_state" where
  "extend s ie =
     \<lparr>ss_vertex = dst_vertex (snd ie), ss_path = ss_path s @ [of_nat (fst ie)],
      ss_cost = ss_cost s + edge_cost (snd ie)\<rparr>"

definition successors :: "graph_edge list \<Rightarrow> search_state \<Rightarrow> search_state list" where
  "successors es s = map (extend s) (filter (follows es s) (enumerate 0 es))"

lemma length_remove1_top: "q \<noteq> [] \<Longrightarrow> pq_top q \<in> set q"
  by (induction q rule: pq_top.induct) (auto simp: Let_def)

text \<open>
  The measure of the loop: a state at depth \<open>d\<close> stands for at most \<open>(|E| + 1) ^ (max_hops - d)\<close>
  pops, itself included.
\<close>

definition pq_weight :: "nat \<Rightarrow> nat \<Rightarrow> search_state list \<Rightarrow> nat" where
  "pq_weight n max_hops q = (\<Sum>s \<leftarrow> q. (n + 1) ^ (max_hops - length (ss_path s)))"

lemma pq_weight_pop:
  assumes "q \<noteq> []"
  shows "pq_weight n h q = (n + 1) ^ (h - length (ss_path (pq_top q))) + pq_weight n h (pq_pop q)"
  using sum_list_map_remove1 [OF length_remove1_top [OF assms]]
  by (simp add: pq_weight_def pq_pop_def)

lemma length_successors: "length (successors es s) \<le> length es"
  using length_filter_le [of "follows es s" "enumerate 0 es"] by (simp add: successors_def)

lemma successors_path_length:
  "t \<in> set (successors es s) \<Longrightarrow> length (ss_path t) = Suc (length (ss_path s))"
  by (auto simp: successors_def extend_def)

lemma pq_weight_successors:
  assumes "length (ss_path s) < h"
  shows "pq_weight (length es) h (successors es s) < (length es + 1) ^ (h - length (ss_path s))"
proof -
  let ?n = "length es" and ?d = "h - Suc (length (ss_path s))"
  have eq: "pq_weight ?n h (successors es s) = (\<Sum>t \<leftarrow> successors es s. (?n + 1) ^ ?d)"
    unfolding pq_weight_def
    by (rule arg_cong [where f = sum_list], rule map_cong [OF refl])
      (simp add: successors_path_length)
  also have "\<dots> = length (successors es s) * (?n + 1) ^ ?d"
    by (simp add: sum_list_triv)
  also have "\<dots> \<le> ?n * (?n + 1) ^ ?d"
    by (rule mult_right_mono [OF length_successors]) simp
  also have "\<dots> < (?n + 1) * (?n + 1) ^ ?d" by simp
  also have "\<dots> = (?n + 1) ^ (h - length (ss_path s))"
    using assms by (metis Suc_diff_Suc power_Suc)
  finally show ?thesis .
qed

function yen_search ::
  "graph_edge list \<Rightarrow> u32 \<Rightarrow> nat \<Rightarrow> nat \<Rightarrow> search_state list \<Rightarrow> edge_path list \<Rightarrow> edge_path list"
where
  "yen_search es dst k max_hops q result =
     (if q = [] \<or> k \<le> length result then result
      else let s = pq_top q; q' = pq_pop q
           in if ss_vertex s = dst then yen_search es dst k max_hops q' (result @ [ss_path s])
              else if max_hops \<le> length (ss_path s) then yen_search es dst k max_hops q' result
              else yen_search es dst k max_hops (q' @ successors es s) result)"
  by pat_completeness auto
termination
proof (relation "measure (\<lambda>(es, dst, k, h, q, result). pq_weight (length es) h q)", goal_cases)
  case 1
  show ?case by simp
next
  case (2 es dst k h q result s q')
  then show ?case using pq_weight_pop [of q "length es" h] by simp
next
  case (3 es dst k h q result s q')
  then show ?case using pq_weight_pop [of q "length es" h] by simp
next
  case (4 es dst k h q result s q')
  then show ?case
    using pq_weight_pop [of q "length es" h] pq_weight_successors [of s h es]
    by (simp add: pq_weight_def)
qed

declare yen_search.simps [simp del]

definition yen_k_shortest :: "graph_edge list \<Rightarrow> u32 \<Rightarrow> u32 \<Rightarrow> u32 \<Rightarrow> u32 \<Rightarrow> edge_path list" where
  "yen_k_shortest es src dst k max_hops =
     yen_search es dst (unat k) (unat max_hops) [\<lparr>ss_vertex = src, ss_path = [], ss_cost = 0\<rparr>] []"

section \<open>The path cache\<close>

definition path_key :: "u32 \<Rightarrow> u32 \<Rightarrow> u64" where
  "path_key src dst = push_bit 32 (ucast src) OR ucast dst"

definition paths :: "topology_graph \<Rightarrow> u32 \<Rightarrow> u32 \<Rightarrow> edge_path list \<times> topology_graph" where
  "paths g src dst =
     (case path_cache g (path_key src dst) of
        Some ps \<Rightarrow> (ps, g)
      | None \<Rightarrow>
          let ps = yen_k_shortest (edges g) src dst (default_k g) (default_max_hops g)
          in (ps, g\<lparr>path_cache := (path_cache g)(path_key src dst \<mapsto> ps)\<rparr>))"

section \<open>Facts about the latency model\<close>

lemma residual_bounds: "1 / 100 \<le> 1 - clamp u 0 (99 / 100)" "1 - clamp u 0 (99 / 100) \<le> 1"
  using clamp_bounds [of 0 "99 / 100" u] by auto

lemma edge_latency_mono:
  assumes "attrs_ok a" and "u \<le> v"
  shows "edge_latency_us a sz u \<le> edge_latency_us a sz v"
proof -
  let ?r = "\<lambda>u. 1 - clamp u 0 (99 / 100)"
  have le: "?r v \<le> ?r u" using clamp_mono [of 0 "99 / 100" u v] assms(2) by simp
  have pos: "0 < ?r v" using residual_bounds(1) [of v] by simp
  have "?r v powr contention_alpha a \<le> ?r u powr contention_alpha a"
    using assms(1) le pos by (intro powr_mono2) (auto simp: attrs_ok_def)
  then have "bandwidth_gbps a * ?r v powr contention_alpha a
      \<le> bandwidth_gbps a * ?r u powr contention_alpha a"
    using assms(1) by (simp add: attrs_ok_def)
  then have "real (unat sz) / 10 ^ 9 / (bandwidth_gbps a * ?r u powr contention_alpha a)
      \<le> real (unat sz) / 10 ^ 9 / (bandwidth_gbps a * ?r v powr contention_alpha a)"
    using assms(1) pos le by (intro divide_left_mono mult_pos_pos) (auto simp: attrs_ok_def)
  then show ?thesis by (simp add: edge_latency_us_def Let_def)
qed

lemma edge_latency_ge_base: "attrs_ok a \<Longrightarrow> latency_us a \<le> edge_latency_us a sz u"
  by (auto simp: edge_latency_us_def Let_def attrs_ok_def
      intro!: divide_nonneg_nonneg mult_nonneg_nonneg)

lemma edge_latency_nonneg: "attrs_ok a \<Longrightarrow> 0 \<le> edge_latency_us a sz u"
  using edge_latency_ge_base [of a sz u] by (simp add: attrs_ok_def)

lemma edge_latency_saturates:
  "edge_latency_us a sz u = edge_latency_us a sz (clamp u 0 (99 / 100))"
  by (simp add: edge_latency_us_def Let_def clamp_bounds)

lemma edge_latency_idle:
  "edge_latency_us a sz 0 = latency_us a + real (unat sz) / 10 ^ 3 / bandwidth_gbps a"
  by (simp add: edge_latency_us_def Let_def)

section \<open>Facts about vertices and the cache\<close>

lemma scan_vertices_found:
  "ep \<in> set vs \<Longrightarrow> i + length vs \<le> 2 ^ 32 - 1 \<Longrightarrow>
   \<exists>j < length vs. scan_vertices i vs ep = of_nat (i + j) \<and> vs ! j = ep"
proof (induction vs arbitrary: i)
  case Nil
  then show ?case by simp
next
  case (Cons v vs)
  show ?case
  proof (cases "v = ep")
    case True
    then show ?thesis by (intro exI [of _ 0]) simp
  next
    case False
    with Cons.prems have "ep \<in> set vs" "Suc i + length vs \<le> 2 ^ 32 - 1" by auto
    from Cons.IH [OF this] obtain j
      where "j < length vs" "scan_vertices (Suc i) vs ep = of_nat (Suc i + j)" "vs ! j = ep"
      by blast
    with False show ?thesis by (intro exI [of _ "Suc j"]) simp
  qed
qed

lemma scan_vertices_missing: "ep \<notin> set vs \<Longrightarrow> scan_vertices i vs ep = UINT32_MAX"
  by (induction vs arbitrary: i) auto

lemma path_key_inj: "path_key s d = path_key s' d' \<Longrightarrow> s = s' \<and> d = d'"
proof -
  assume eq: "path_key s d = path_key s' d'"
  have low: "bit s n = bit (path_key s d) (n + 32)" "bit d n = bit (path_key s d) n"
    if "n < 32" for s d :: u32 and n
    using that by (auto simp: path_key_def bit_or_iff bit_push_bit_iff bit_ucast_iff
        dest: bit_imp_le_length)
  show ?thesis
  proof
    show "s = s'"
      by (rule bit_word_eqI) (use low(1) [of _ s d] low(1) [of _ s' d'] eq in auto)
    show "d = d'"
      by (rule bit_word_eqI) (use low(2) [of _ d s] low(2) [of _ d' s'] eq in auto)
  qed
qed

text \<open>A cache is coherent when each entry is what a fresh search would return.\<close>

definition cache_ok :: "topology_graph \<Rightarrow> bool" where
  "cache_ok g \<longleftrightarrow>
     (\<forall>s d ps. path_cache g (path_key s d) = Some ps \<longrightarrow>
        ps = yen_k_shortest (edges g) s d (default_k g) (default_max_hops g))"

lemma paths_graph [simp]:
  "edges (snd (paths g s d)) = edges g" "vertices (snd (paths g s d)) = vertices g"
  "default_k (snd (paths g s d)) = default_k g"
  "default_max_hops (snd (paths g s d)) = default_max_hops g"
  by (auto simp: paths_def Let_def split: option.split)

lemma paths_result:
  "cache_ok g \<Longrightarrow> fst (paths g s d) = yen_k_shortest (edges g) s d (default_k g) (default_max_hops g)"
  by (auto simp: paths_def cache_ok_def Let_def split: option.split)

lemma paths_cache_ok: "cache_ok g \<Longrightarrow> cache_ok (snd (paths g s d))"
  by (auto simp: paths_def cache_ok_def Let_def dest!: path_key_inj split: option.split)

section \<open>Properties\<close>

text \<open>
  The latency of an edge never falls when its utilization rises, is at least the unloaded
  latency, and above 99% utilization stays at its value for 99%: the residual bandwidth the model
  divides by never reaches 0.
\<close>

theorem edge_latency_monotone:
  assumes "attrs_ok a" and "u \<le> v"
  shows "latency_us a \<le> edge_latency_us a sz u \<and>
         edge_latency_us a sz u \<le> edge_latency_us a sz v \<and>
         edge_latency_us a sz v \<le> edge_latency_us a sz (99 / 100)"
proof -
  have "edge_latency_us a sz (clamp v 0 (99 / 100)) \<le> edge_latency_us a sz (99 / 100)"
    by (rule edge_latency_mono [OF assms(1)]) (rule clamp_bounds, simp)
  then show ?thesis
    using edge_latency_ge_base [OF assms(1)] edge_latency_mono [OF assms]
      edge_latency_saturates [of a sz v] by metis
qed

theorem edge_latency_monotone_witness:
  "edge_latency_us (default_fabric_attrs NVLink 0) 1000 (1 / 2)
   \<le> edge_latency_us (default_fabric_attrs NVLink 0) 1000 (3 / 4)"
  using edge_latency_monotone [OF default_fabric_attrs_ok, of "1 / 2" "3 / 4" NVLink 0 1000] by simp

text \<open>
  Looking up an endpoint gives the index of a vertex equal to it when there is one, and
  \<open>UINT32_MAX\<close> exactly when there is none, for graphs of fewer than \<open>2^32 - 1\<close> vertices.
\<close>

theorem vertex_of_correct:
  assumes "length (vertices g) < 2 ^ 32 - 1"
  shows "(ep \<in> set (vertices g) \<longrightarrow>
            unat (vertex_of g ep) < length (vertices g) \<and>
            vertices g ! unat (vertex_of g ep) = ep \<and> vertex_of g ep \<noteq> UINT32_MAX) \<and>
         (ep \<notin> set (vertices g) \<longrightarrow> vertex_of g ep = UINT32_MAX)"
proof (intro conjI impI)
  assume "ep \<in> set (vertices g)"
  then obtain j where j: "j < length (vertices g)" "vertex_of g ep = of_nat j" "vertices g ! j = ep"
    using scan_vertices_found [of ep "vertices g" 0] assms by (auto simp: vertex_of_def)
  then have u: "unat (vertex_of g ep) = j"
    using assms by (simp add: unat_of_nat_small)
  with j show "unat (vertex_of g ep) < length (vertices g)" "vertices g ! unat (vertex_of g ep) = ep"
    by simp_all
  show "vertex_of g ep \<noteq> UINT32_MAX"
    using u j(1) assms by (auto simp: UINT32_MAX_def)
qed (simp add: vertex_of_def scan_vertices_missing)

theorem vertex_of_correct_witness:
  "vertex_of (empty_graph\<lparr>vertices := [\<lparr>node_id = 1, local_id = 0, ep_type = GPU\<rparr>]\<rparr>)
     \<lparr>node_id = 1, local_id = 0, ep_type = CPU\<rparr> = UINT32_MAX"
  using vertex_of_correct [of "empty_graph\<lparr>vertices := [\<lparr>node_id = 1, local_id = 0, ep_type = GPU\<rparr>]\<rparr>"
      "\<lparr>node_id = 1, local_id = 0, ep_type = CPU\<rparr>"] by simp

text \<open>
  The path cache is transparent: on a coherent cache \<open>paths\<close> returns what a fresh search
  returns, leaves the graph alone and keeps the cache coherent, whatever pairs were asked before
  (the cache keys of different pairs differ).
\<close>

theorem paths_transparent:
  assumes "cache_ok g"
  shows "fst (paths g s d) = yen_k_shortest (edges g) s d (default_k g) (default_max_hops g) \<and>
         cache_ok (snd (paths g s d)) \<and> edges (snd (paths g s d)) = edges g \<and>
         vertices (snd (paths g s d)) = vertices g"
  using assms by (simp add: paths_result paths_cache_ok)

theorem paths_transparent_witness: "cache_ok (snd (paths empty_graph 0 0))"
proof -
  have "cache_ok empty_graph" by (simp add: cache_ok_def empty_graph_def)
  then show ?thesis using paths_transparent [of empty_graph 0 0] by simp
qed

text \<open>
  Once a pair has been asked for, its paths never change: adding an edge or calling
  \<open>precompute_paths\<close> with other limits does not drop the cached answer.
\<close>

theorem paths_cached_forever:
  "fst (paths (snd (add_edge u v a (snd (paths g s d)))) s d) = fst (paths g s d) \<and>
   fst (paths (precompute_paths k h (snd (paths g s d))) s d) = fst (paths g s d)"
  by (auto simp: paths_def add_edge_def precompute_paths_def Let_def split: option.split)

end
