(* ===== verification/Search.thy ===== *)
theory Search
  imports Topology
begin

text \<open>
  Correctness of \<open>yen_k_shortest\<close> (\<open>topology/topology.cpp\<close>).  A path is admissible when it is a
  walk of at most \<open>max_hops\<close> edges from the source that first meets the destination at its end
  and enters no vertex twice.  The search returns admissible paths only, without repetition, in
  order of weight, and leaves one out only when it already holds \<open>k\<close> paths of no larger weight.
\<close>

section \<open>The queue contract\<close>

text \<open>What the search relies on: a queue that hands out an item of least cost.\<close>

locale cheapest_first =
  fixes top :: "'q \<Rightarrow> 'a"
    and pop :: "'q \<Rightarrow> 'q"
    and items :: "'q \<Rightarrow> 'a multiset"
    and cost :: "'a \<Rightarrow> real"
  assumes top_in: "items q \<noteq> {#} \<Longrightarrow> top q \<in># items q"
    and top_least: "x \<in># items q \<Longrightarrow> cost (top q) \<le> cost x"
    and items_pop: "items q \<noteq> {#} \<Longrightarrow> items (pop q) = items q - {#top q#}"
begin

lemma items_split: "items q \<noteq> {#} \<Longrightarrow> items q = add_mset (top q) (items (pop q))"
  using top_in items_pop by simp

lemma in_items_iff: "items q \<noteq> {#} \<Longrightarrow> x \<in># items q \<longleftrightarrow> x = top q \<or> x \<in># items (pop q)"
  using items_split by (metis insert_iff set_mset_add_mset_insert)

lemma pop_not_cheaper: "items q \<noteq> {#} \<Longrightarrow> x \<in># items (pop q) \<Longrightarrow> cost (top q) \<le> cost x"
  using in_items_iff top_least by blast

end

lemma pq_top_least: "s \<in> set q \<Longrightarrow> ss_cost (pq_top q) \<le> ss_cost s"
  by (induction q rule: pq_top.induct) (auto simp: Let_def)

interpretation pq: cheapest_first pq_top pq_pop mset ss_cost
  by unfold_locales (auto simp: pq_pop_def length_remove1_top pq_top_least)

lemma set_pq_split: "q \<noteq> [] \<Longrightarrow> set q = insert (pq_top q) (set (pq_pop q))"
  using pq.in_items_iff [of q] by auto

section \<open>Walks and admissible paths\<close>

fun walk :: "graph_edge list \<Rightarrow> u32 \<Rightarrow> edge_path \<Rightarrow> u32 \<Rightarrow> bool" where
  "walk es u [] v = (u = v)"
| "walk es u (e # p) v =
     (unat e < length es \<and> src_vertex (es ! unat e) = u \<and> walk es (dst_vertex (es ! unat e)) p v)"

definition entered :: "graph_edge list \<Rightarrow> edge_path \<Rightarrow> u32 list" where
  "entered es p = map (\<lambda>e. dst_vertex (es ! unat e)) p"

text \<open>The weight of a path: latencies plus a million over each bandwidth.\<close>

definition path_weight :: "graph_edge list \<Rightarrow> edge_path \<Rightarrow> real" where
  "path_weight es p =
     (\<Sum>e \<leftarrow> p. latency_us (attrs (es ! unat e)) + 10 ^ 6 / bandwidth_gbps (attrs (es ! unat e)))"

definition partial_path :: "graph_edge list \<Rightarrow> nat \<Rightarrow> u32 \<Rightarrow> u32 \<Rightarrow> edge_path \<Rightarrow> u32 \<Rightarrow> bool" where
  "partial_path es h src dst p v \<longleftrightarrow>
     walk es src p v \<and> length p \<le> h \<and> distinct (entered es p) \<and>
     dst \<notin> set (butlast (src # entered es p))"

abbreviation admissible :: "graph_edge list \<Rightarrow> nat \<Rightarrow> u32 \<Rightarrow> u32 \<Rightarrow> edge_path \<Rightarrow> bool" where
  "admissible es h src dst p \<equiv> partial_path es h src dst p dst"

definition costs_ok :: "graph_edge list \<Rightarrow> bool" where
  "costs_ok es \<longleftrightarrow> (\<forall>e \<in> set es. attrs_ok (attrs e))"

lemma costs_ok_nonneg: "costs_ok es \<Longrightarrow> e \<in> set es \<Longrightarrow> 0 \<le> edge_cost e"
  by (auto simp: costs_ok_def attrs_ok_def edge_cost_def)

lemma entered_snoc [simp]:
  "entered es [] = []" "entered es (p @ q) = entered es p @ entered es q"
  "entered es (e # p) = dst_vertex (es ! unat e) # entered es p"
  by (simp_all add: entered_def)

lemma path_weight_append [simp]:
  "path_weight es [] = 0" "path_weight es (p @ q) = path_weight es p + path_weight es q"
  "path_weight es (e # p) = edge_cost (es ! unat e) + path_weight es p"
  by (simp_all add: path_weight_def edge_cost_def)

lemma enters_iff: "enters es p v \<longleftrightarrow> v \<in> set (entered es p)"
  by (auto simp: enters_def entered_def list_ex_iff)

lemma walk_append: "walk es u (p @ q) v \<longleftrightarrow> (\<exists>w. walk es u p w \<and> walk es w q v)"
  by (induction p arbitrary: u) auto

lemma walk_unique: "walk es u p v \<Longrightarrow> walk es u p w \<Longrightarrow> v = w"
  by (induction p arbitrary: u) auto

lemma walk_last: "walk es u p v \<Longrightarrow> last (u # entered es p) = v"
  by (induction p arbitrary: u) auto

lemma walk_indices: "walk es u p v \<Longrightarrow> e \<in> set p \<Longrightarrow> unat e < length es"
  by (induction p arbitrary: u) auto

lemma walk_weight_nonneg: "costs_ok es \<Longrightarrow> walk es u p v \<Longrightarrow> 0 \<le> path_weight es p"
proof (induction p arbitrary: u)
  case Nil
  then show ?case by simp
next
  case (Cons e p)
  then show ?case by (auto intro!: add_nonneg_nonneg costs_ok_nonneg)
qed

section \<open>One step of the search\<close>

lemma in_successors_iff:
  "t \<in> set (successors es s) \<longleftrightarrow>
   (\<exists>i < length es. src_vertex (es ! i) = ss_vertex s \<and>
      dst_vertex (es ! i) \<notin> set (entered es (ss_path s)) \<and> t = extend s (i, es ! i))"
  by (fastforce simp: successors_def follows_def enters_iff in_set_enumerate_eq)

lemma successor_extends:
  assumes "length es \<le> 2 ^ 32" and "t \<in> set (successors es s)"
  obtains e where "unat e < length es" and "src_vertex (es ! unat e) = ss_vertex s"
    and "dst_vertex (es ! unat e) \<notin> set (entered es (ss_path s))"
    and "ss_path t = ss_path s @ [e]" and "ss_vertex t = dst_vertex (es ! unat e)"
    and "ss_cost t = ss_cost s + edge_cost (es ! unat e)"
proof -
  obtain i where i: "i < length es" "src_vertex (es ! i) = ss_vertex s"
      "dst_vertex (es ! i) \<notin> set (entered es (ss_path s))" "t = extend s (i, es ! i)"
    using assms(2) by (auto simp: in_successors_iff)
  then have "unat (of_nat i :: u32) = i"
    using assms(1) by (intro unat_of_nat_small) simp
  with i show thesis
    by (intro that [of "of_nat i"]) (simp_all add: extend_def)
qed

lemma distinct_successor_paths:
  assumes "length es \<le> 2 ^ 32"
  shows "distinct (map ss_path (successors es s))"
proof -
  have "inj_on (ss_path \<circ> extend s) (set (enumerate 0 es))"
  proof (rule inj_onI)
    fix x y
    assume "x \<in> set (enumerate 0 es)" "y \<in> set (enumerate 0 es)"
      and eq: "(ss_path \<circ> extend s) x = (ss_path \<circ> extend s) y"
    then have xy: "fst x < length es" "snd x = es ! fst x" "fst y < length es" "snd y = es ! fst y"
      by (auto simp: in_set_enumerate_eq)
    from eq have "(of_nat (fst x) :: u32) = of_nat (fst y)" by (simp add: extend_def)
    then have "unat (of_nat (fst x) :: u32) = unat (of_nat (fst y) :: u32)" by simp
    then have "fst x = fst y"
      using xy assms by (simp add: unat_of_nat_small del: unsigned_of_nat)
    with xy show "x = y" by (simp add: prod_eq_iff)
  qed
  then show ?thesis
    by (simp add: successors_def distinct_map inj_on_subset comp_inj_on_iff inj_on_def)
qed

definition state_ok :: "graph_edge list \<Rightarrow> nat \<Rightarrow> u32 \<Rightarrow> u32 \<Rightarrow> search_state \<Rightarrow> bool" where
  "state_ok es h src dst s \<longleftrightarrow>
     partial_path es h src dst (ss_path s) (ss_vertex s) \<and> ss_cost s = path_weight es (ss_path s)"

lemma butlast_entered:
  "walk es src p v \<Longrightarrow> v \<noteq> dst \<Longrightarrow> dst \<notin> set (butlast (src # entered es p)) \<Longrightarrow>
   dst \<notin> set (src # entered es p)"
  using walk_last [of es src p v] append_butlast_last_id [of "src # entered es p"]
  by (metis Un_iff empty_iff empty_set insert_iff list.distinct(1) list.simps(15) set_append)

lemma successor_ok:
  assumes "length es \<le> 2 ^ 32" and "state_ok es h src dst s" and "ss_vertex s \<noteq> dst"
    and "length (ss_path s) < h" and "t \<in> set (successors es s)"
  shows "state_ok es h src dst t"
  using assms(1,5)
proof (rule successor_extends)
  fix e
  assume e: "unat e < length es" "src_vertex (es ! unat e) = ss_vertex s"
    "dst_vertex (es ! unat e) \<notin> set (entered es (ss_path s))"
    "ss_path t = ss_path s @ [e]" "ss_vertex t = dst_vertex (es ! unat e)"
    "ss_cost t = ss_cost s + edge_cost (es ! unat e)"
  have "dst \<notin> set (src # entered es (ss_path s))"
    using assms(2,3) by (auto simp: state_ok_def partial_path_def dest!: butlast_entered)
  with e assms(2,4) show ?thesis
    by (simp add: state_ok_def partial_path_def walk_append butlast_append)
qed

lemma successor_complete:
  assumes "length es \<le> 2 ^ 32" and "state_ok es h src dst s"
    and p: "admissible es h src dst p" and "prefix (ss_path s) p" and "ss_path s \<noteq> p"
  shows "\<exists>t \<in> set (successors es s). prefix (ss_path t) p"
proof -
  obtain e r where p_eq: "p = ss_path s @ e # r"
    using assms(4,5) by (metis append_Nil2 neq_Nil_conv prefixE)
  obtain w where w: "walk es src (ss_path s) w" "unat e < length es" "src_vertex (es ! unat e) = w"
    using p by (auto simp: p_eq partial_path_def walk_append)
  have "w = ss_vertex s"
    using w(1) assms(2) by (auto simp: state_ok_def partial_path_def intro: walk_unique)
  moreover have "dst_vertex (es ! unat e) \<notin> set (entered es (ss_path s))"
    using p by (auto simp: p_eq partial_path_def)
  ultimately have "extend s (unat e, es ! unat e) \<in> set (successors es s)"
    using w by (auto simp: in_successors_iff)
  moreover have "prefix (ss_path (extend s (unat e, es ! unat e))) p"
    by (simp add: extend_def p_eq)
  ultimately show ?thesis by blast
qed

lemma dst_state_maximal:
  assumes "state_ok es h src dst s" and "ss_vertex s = dst"
    and p: "admissible es h src dst p" and "prefix (ss_path s) p"
  shows "p = ss_path s"
proof (rule ccontr)
  assume "p \<noteq> ss_path s"
  with assms(4) obtain e r where p_eq: "p = ss_path s @ e # r"
    by (metis append_Nil2 neq_Nil_conv prefixE)
  have "last (src # entered es (ss_path s)) = dst"
    using assms(1,2) by (auto simp: state_ok_def partial_path_def dest: walk_last)
  then have "dst \<in> set (src # entered es (ss_path s))"
    by (metis last_in_set list.distinct(1))
  moreover have "dst \<notin> set (src # entered es (ss_path s))"
    using p by (auto simp: p_eq partial_path_def butlast_append)
  ultimately show False by blast
qed

lemma full_state_dead:
  assumes "state_ok es h src dst s" and "ss_vertex s \<noteq> dst" and "h \<le> length (ss_path s)"
    and p: "admissible es h src dst p"
  shows "\<not> prefix (ss_path s) p"
proof
  assume "prefix (ss_path s) p"
  moreover have "length p \<le> length (ss_path s)"
    using p assms(3) by (simp add: partial_path_def)
  ultimately have "p = ss_path s"
    by (metis prefix_length_prefix prefix_order.eq_iff)
  with p assms(1,2) show False
    by (auto simp: state_ok_def partial_path_def dest: walk_unique)
qed

section \<open>The invariant\<close>

definition antichain :: "edge_path list \<Rightarrow> bool" where
  "antichain ps \<longleftrightarrow> distinct ps \<and> (\<forall>x \<in> set ps. \<forall>y \<in> set ps. prefix x y \<longrightarrow> x = y)"

definition search_inv ::
  "graph_edge list \<Rightarrow> nat \<Rightarrow> u32 \<Rightarrow> u32 \<Rightarrow> search_state list \<Rightarrow> edge_path list \<Rightarrow> bool" where
  "search_inv es h src dst q res \<longleftrightarrow>
     (\<forall>s \<in> set q. state_ok es h src dst s) \<and>
     (\<forall>p \<in> set res. admissible es h src dst p) \<and>
     sorted (map (path_weight es) res) \<and>
     (\<forall>p \<in> set res. \<forall>s \<in> set q. path_weight es p \<le> ss_cost s) \<and>
     (\<forall>p. admissible es h src dst p \<longrightarrow>
        p \<in> set res \<or> (\<exists>s \<in> set q. prefix (ss_path s) p)) \<and>
     antichain (res @ map ss_path q)"

lemma antichain_perm: "mset xs = mset ys \<Longrightarrow> antichain xs \<Longrightarrow> antichain ys"
  unfolding antichain_def using mset_eq_imp_distinct_iff mset_eq_setD by blast

lemma antichain_pop:
  assumes "q \<noteq> []" and "antichain (res @ map ss_path q)"
  shows "antichain ((res @ [ss_path (pq_top q)]) @ map ss_path (pq_pop q))"
proof (rule antichain_perm [OF _ assms(2)])
  have "image_mset ss_path (mset q) =
      image_mset ss_path (add_mset (pq_top q) (mset (pq_pop q)))"
    using pq.items_split [of q] assms(1) by simp
  then show "mset (res @ map ss_path q) =
      mset ((res @ [ss_path (pq_top q)]) @ map ss_path (pq_pop q))"
    by simp
qed

lemma antichain_drop: "antichain (xs @ y # ys) \<Longrightarrow> antichain (xs @ ys)"
  by (auto simp: antichain_def)

lemma antichain_replace:
  assumes "antichain (xs @ y # ys)" and "distinct zs"
    and ext: "\<And>z. z \<in> set zs \<Longrightarrow> \<exists>e. z = y @ [e]"
  shows "antichain (xs @ ys @ zs)"
proof -
  let ?L = "set xs \<union> set ys"
  have base: "distinct (xs @ ys)" "\<And>a b. a \<in> ?L \<Longrightarrow> b \<in> ?L \<Longrightarrow> prefix a b \<Longrightarrow> a = b"
    and y: "y \<notin> ?L" "\<And>a. a \<in> ?L \<Longrightarrow> \<not> prefix y a" "\<And>a. a \<in> ?L \<Longrightarrow> \<not> prefix a y"
    using assms(1) by (auto simp: antichain_def)
  have above: "\<not> prefix z a" if "z \<in> set zs" "a \<in> ?L" for z a
    using ext [OF that(1)] y(2) [OF that(2)] by (auto simp: prefix_def)
  have below: "\<not> prefix a z" if z: "z \<in> set zs" and a: "a \<in> ?L" for z a
  proof
    assume "prefix a z"
    then have "prefix a y \<or> a = z" using ext [OF z] by (auto simp: prefix_snoc)
    then show False using y(3) [OF a] above [OF z a] by auto
  qed
  have among: "z = z'" if "z \<in> set zs" "z' \<in> set zs" "prefix z z'" for z z'
    using ext [OF that(1)] ext [OF that(2)] that(3) by (auto simp: prefix_def)
  have disj: "set zs \<inter> ?L = {}" using above by fastforce
  show ?thesis
    unfolding antichain_def
  proof (intro conjI ballI impI)
    show "distinct (xs @ ys @ zs)" using base(1) disj assms(2) by auto
  next
    fix a b assume "a \<in> set (xs @ ys @ zs)" "b \<in> set (xs @ ys @ zs)" "prefix a b"
    then show "a = b" using base(2) [of a b] above [of a b] below [of b a] among [of a b] by auto
  qed
qed

lemma search_inv_start:
  "search_inv es h src dst [\<lparr>ss_vertex = src, ss_path = [], ss_cost = 0\<rparr>] []"
  by (simp add: search_inv_def state_ok_def partial_path_def antichain_def)

lemma search_inv_emit:
  assumes inv: "search_inv es h src dst q res" and "q \<noteq> []" and "ss_vertex (pq_top q) = dst"
  shows "search_inv es h src dst (pq_pop q) (res @ [ss_path (pq_top q)])"
proof -
  let ?s = "pq_top q"
  have ok: "state_ok es h src dst ?s"
    using inv by (auto simp: search_inv_def set_pq_split [OF assms(2)])
  have least: "path_weight es (ss_path ?s) \<le> ss_cost t" if "t \<in> set (pq_pop q)" for t
    using ok that pq.pop_not_cheaper [of q t] assms(2) by (simp add: state_ok_def)
  show ?thesis
    unfolding search_inv_def
  proof (intro conjI)
    show "\<forall>p. admissible es h src dst p \<longrightarrow>
        p \<in> set (res @ [ss_path ?s]) \<or> (\<exists>s \<in> set (pq_pop q). prefix (ss_path s) p)"
      using inv dst_state_maximal [OF ok assms(3)]
      by (auto simp: search_inv_def set_pq_split [OF assms(2)])
    show "antichain ((res @ [ss_path ?s]) @ map ss_path (pq_pop q))"
      using inv by (intro antichain_pop [OF assms(2)]) (simp add: search_inv_def)
  qed (use inv ok least assms(3) in
      \<open>auto simp: search_inv_def set_pq_split [OF assms(2)] sorted_append state_ok_def\<close>)
qed

lemma search_inv_drop:
  assumes inv: "search_inv es h src dst q res" and "q \<noteq> []" and "ss_vertex (pq_top q) \<noteq> dst"
    and "h \<le> length (ss_path (pq_top q))"
  shows "search_inv es h src dst (pq_pop q) res"
proof -
  have ok: "state_ok es h src dst (pq_top q)"
    using inv by (auto simp: search_inv_def set_pq_split [OF assms(2)])
  have "antichain (res @ map ss_path (pq_pop q))"
    using antichain_pop [OF assms(2), of res] inv antichain_drop [of res]
    by (simp add: search_inv_def)
  then show ?thesis
    using inv full_state_dead [OF ok assms(3,4)]
    by (auto simp: search_inv_def set_pq_split [OF assms(2)])
qed

lemma search_inv_expand:
  assumes len: "length es \<le> 2 ^ 32" and costs: "costs_ok es"
    and inv: "search_inv es h src dst q res" and "q \<noteq> []" and "ss_vertex (pq_top q) \<noteq> dst"
    and "length (ss_path (pq_top q)) < h"
  shows "search_inv es h src dst (pq_pop q @ successors es (pq_top q)) res"
proof -
  let ?s = "pq_top q"
  note split = set_pq_split [OF assms(4)]
  have ok: "state_ok es h src dst ?s" using inv by (auto simp: search_inv_def split)
  have dearer: "ss_cost ?s \<le> ss_cost t" if t: "t \<in> set (successors es ?s)" for t
    by (rule successor_extends [OF len t]) (simp add: costs_ok_nonneg [OF costs])
  have new: "state_ok es h src dst t" if "t \<in> set (successors es ?s)" for t
    using len ok assms(5,6) that by (rule successor_ok)
  have "antichain (res @ map ss_path (pq_pop q) @ map ss_path (successors es ?s))"
  proof (rule antichain_replace [where y = "ss_path ?s"])
    show "antichain (res @ ss_path ?s # map ss_path (pq_pop q))"
      using antichain_pop [OF assms(4), of res] inv by (simp add: search_inv_def)
  qed (auto simp: distinct_successor_paths [OF len] elim: successor_extends [OF len])
  moreover have "p \<in> set res \<or>
      (\<exists>s \<in> set (pq_pop q @ successors es ?s). prefix (ss_path s) p)"
    if p: "admissible es h src dst p" for p
  proof -
    have "ss_path ?s \<noteq> p"
      using ok p assms(5) by (auto simp: state_ok_def partial_path_def dest: walk_unique)
    with p inv successor_complete [OF len ok p] show ?thesis
      by (auto simp: search_inv_def split)
  qed
  moreover have "path_weight es p \<le> ss_cost t"
    if "p \<in> set res" "t \<in> set (pq_pop q @ successors es ?s)" for p t
    using that inv dearer [of t] by (force simp: search_inv_def split)
  ultimately show ?thesis
    using inv new by (auto simp: search_inv_def split)
qed

section \<open>The whole search\<close>

lemma yen_search_inv:
  assumes "length es \<le> 2 ^ 32" and "costs_ok es" and "search_inv es h src dst q res"
  shows "\<exists>q'. search_inv es h src dst q' (yen_search es dst k h q res) \<and>
              (q' = [] \<or> k \<le> length (yen_search es dst k h q res))"
  using assms
proof (induction es dst k h q res rule: yen_search.induct)
  case (1 es dst k h q res)
  note unf = yen_search.simps [of es dst k h q res]
  show ?case
  proof (cases "q = [] \<or> k \<le> length res")
    case True
    then show ?thesis using "1.prems"(3) unf by auto
  next
    case False
    then have q: "q \<noteq> []" by simp
    note IH = "1.IH" [OF False refl refl]
    consider "ss_vertex (pq_top q) = dst"
      | "ss_vertex (pq_top q) \<noteq> dst" "h \<le> length (ss_path (pq_top q))"
      | "ss_vertex (pq_top q) \<noteq> dst" "length (ss_path (pq_top q)) < h"
      by linarith
    then show ?thesis
    proof cases
      case 1
      then show ?thesis
        using IH(1) "1.prems" False unf search_inv_emit [OF _ q] by (simp add: Let_def)
    next
      case 2
      then show ?thesis
        using IH(2) "1.prems" False unf search_inv_drop [OF _ q] by (simp add: Let_def)
    next
      case 3
      then show ?thesis
        using IH(3) "1.prems" False unf search_inv_expand [OF _ _ _ q] by (simp add: Let_def not_le)
    qed
  qed
qed

lemma yen_search_length:
  "length res \<le> k \<Longrightarrow> length (yen_search es dst k h q res) \<le> k"
proof (induction es dst k h q res rule: yen_search.induct)
  case (1 es dst k h q res)
  show ?case
  proof (cases "q = [] \<or> k \<le> length res")
    case True
    then show ?thesis
      using "1.prems" by (simp add: yen_search.simps [of es dst k h q res])
  next
    case False
    then show ?thesis
      using "1.IH" [OF False refl refl] "1.prems"
      by (simp add: yen_search.simps [of es dst k h q res] Let_def)
  qed
qed

lemma yen_k_shortest_inv:
  assumes "length es \<le> 2 ^ 32" and "costs_ok es"
  obtains q where "search_inv es (unat h) src dst q (yen_k_shortest es src dst k h)"
    and "q = [] \<or> unat k \<le> length (yen_k_shortest es src dst k h)"
  using yen_search_inv [OF assms search_inv_start] unfolding yen_k_shortest_def by blast

lemma yen_length: "length (yen_k_shortest es src dst k h) \<le> unat k"
  by (simp add: yen_k_shortest_def yen_search_length)

text \<open>Any admissible path that is not returned is at least as heavy as all that are.\<close>

lemma search_inv_dominates:
  assumes "costs_ok es" and inv: "search_inv es h src dst q res"
    and p: "admissible es h src dst p" and "p \<notin> set res" and "r \<in> set res"
  shows "path_weight es r \<le> path_weight es p"
proof -
  obtain s x where s: "s \<in> set q" "p = ss_path s @ x"
    using inv p assms(4) by (auto simp: search_inv_def prefix_def)
  have "\<exists>w. walk es w x dst" using p by (auto simp: s(2) partial_path_def walk_append)
  then have "0 \<le> path_weight es x" using assms(1) walk_weight_nonneg by blast
  moreover have "path_weight es r \<le> path_weight es (ss_path s)"
    using inv s(1) assms(5) by (fastforce simp: search_inv_def state_ok_def)
  ultimately show ?thesis by (simp add: s(2))
qed

section \<open>Properties\<close>

lemma yen_admissible:
  assumes "length es \<le> 2 ^ 32" and "costs_ok es" and "p \<in> set (yen_k_shortest es src dst k h)"
  shows "admissible es (unat h) src dst p"
proof -
  obtain q where "search_inv es (unat h) src dst q (yen_k_shortest es src dst k h)"
    using yen_k_shortest_inv [OF assms(1,2)] by blast
  with assms(3) show ?thesis by (simp add: search_inv_def)
qed

text \<open>
  Every path the search returns is a walk over existing edges from the source to the
  destination, of at most \<open>max_hops\<close> edges, that enters no vertex twice and meets the destination
  only at its end.
\<close>

theorem yen_paths_admissible:
  assumes "length es \<le> 2 ^ 32" and "costs_ok es"
    and "p \<in> set (yen_k_shortest es src dst k h)"
  shows "walk es src p dst \<and> length p \<le> unat h \<and> distinct (entered es p) \<and>
         (\<forall>e \<in> set p. unat e < length es) \<and> dst \<notin> set (butlast (src # entered es p))"
  using yen_admissible [OF assms] by (auto simp: partial_path_def dest: walk_indices)

definition nv_edge :: "u32 \<Rightarrow> u32 \<Rightarrow> graph_edge" where
  "nv_edge s d = \<lparr>src_vertex = s, dst_vertex = d, attrs = default_fabric_attrs NVLink (-1)\<rparr>"

lemma nv_edges_ok: "costs_ok [nv_edge 0 1, nv_edge 1 0, nv_edge 0 2]"
  by (simp add: costs_ok_def nv_edge_def)

theorem yen_paths_admissible_witness:
  "walk [nv_edge 0 1, nv_edge 1 0, nv_edge 0 2] 0 [2] 2"
proof -
  have "[2] \<in> set (yen_k_shortest [nv_edge 0 1, nv_edge 1 0, nv_edge 0 2] 0 2 6 5)"
    by code_simp
  from yen_paths_admissible [OF _ nv_edges_ok this] show ?thesis by simp
qed

text \<open>
  C12. The search returns the \<open>k\<close> cheapest admissible paths.  Every path it returns is a walk over
  existing edges from the source to the destination, of at most \<open>max_hops\<close> edges, that enters no
  vertex twice and meets the destination only at its end.  It returns at most \<open>k\<close>, none twice, in
  order of weight; a path with these properties that it does not return is no cheaper than any it
  returns, and is left out only when \<open>k\<close> paths are returned.
\<close>

theorem yen_k_cheapest:
  assumes "length es \<le> 2 ^ 32" and "costs_ok es" and R_def: "R = yen_k_shortest es src dst k h"
  shows "(\<forall>p \<in> set R. walk es src p dst \<and> length p \<le> unat h \<and> distinct (entered es p) \<and>
           dst \<notin> set (butlast (src # entered es p))) \<and>
         length R \<le> unat k \<and> distinct R \<and> sorted (map (path_weight es) R) \<and>
         (\<forall>p. admissible es (unat h) src dst p \<and> p \<notin> set R \<longrightarrow>
            length R = unat k \<and> (\<forall>r \<in> set R. path_weight es r \<le> path_weight es p))"
proof -
  obtain q where inv: "search_inv es (unat h) src dst q R" and stop: "q = [] \<or> unat k \<le> length R"
    using yen_k_shortest_inv [OF assms(1,2)] unfolding R_def by blast
  have "length R \<le> unat k" unfolding R_def by (rule yen_length)
  moreover have "distinct R" "sorted (map (path_weight es) R)"
    using inv by (auto simp: search_inv_def antichain_def)
  moreover have "length R = unat k"
    if "admissible es (unat h) src dst p" "p \<notin> set R" for p
    using that inv stop \<open>length R \<le> unat k\<close> by (auto simp: search_inv_def)
  moreover have "walk es src p dst \<and> length p \<le> unat h \<and> distinct (entered es p) \<and>
      dst \<notin> set (butlast (src # entered es p))" if "p \<in> set R" for p
    using yen_admissible [OF assms(1,2) that [unfolded R_def]] by (simp add: partial_path_def)
  ultimately show ?thesis
    using search_inv_dominates [OF assms(2) inv] by blast
qed

theorem yen_k_cheapest_witness:
  "sorted (map (path_weight [nv_edge 0 1, nv_edge 1 0, nv_edge 0 2])
               (yen_k_shortest [nv_edge 0 1, nv_edge 1 0, nv_edge 0 2] 0 2 6 5)) \<and>
   walk [nv_edge 0 1, nv_edge 1 0, nv_edge 0 2] 0 [2] 2"
proof -
  let ?es = "[nv_edge 0 1, nv_edge 1 0, nv_edge 0 2]"
  have "[2] \<in> set (yen_k_shortest ?es 0 2 6 5)" by code_simp
  moreover have "length ?es \<le> 2 ^ 32" by simp
  note yen_k_cheapest [OF this nv_edges_ok refl, of 0 2 6 5]
  ultimately show ?thesis by blast
qed

text \<open>
  The cycle test looks only at the vertices the path has entered, not at its source: the search
  returns a path that leaves vertex 0, comes back to it and leaves it again.
\<close>

theorem yen_returns_source_loop:
  "yen_k_shortest [nv_edge 0 1, nv_edge 1 0, nv_edge 0 2] 0 2 6 5 = [[2], [0, 1, 2]]"
  by code_simp

end
