(* ===== verification/Cluster.thy ===== *)
theory Cluster
  imports Topology
begin

text \<open>
  The default topologies of \<open>topology/topology.cpp\<close>: one node (\<open>build_h100_node\<close>: GPUs, a CPU,
  a CXL controller and two InfiniBand ports) and a cluster of such nodes
  (\<open>build_cluster\<close>), whose nodes are joined port by port, rail 0 to rail 0 and rail 1 to rail 1.
  The lemmas give both graphs in closed form: their vertices, edges and counts.
\<close>

section \<open>Loops that add vertices and edges\<close>

fun add_vertices :: "endpoint_id list \<Rightarrow> topology_graph \<Rightarrow> u32 list \<times> topology_graph" where
  "add_vertices [] g = ([], g)"
| "add_vertices (ep # eps) g =
     (let (v, g1) = add_vertex ep g; (vs, g2) = add_vertices eps g1 in (v # vs, g2))"

fun connect_all :: "(u32 \<times> u32 \<times> edge_attributes) list \<Rightarrow> topology_graph \<Rightarrow> topology_graph" where
  "connect_all [] g = g"
| "connect_all ((s, d, a) # cs) g = connect_all cs (snd (add_edge s d a g))"

section \<open>One node\<close>

text \<open>NVLink all-to-all between the GPUs, in the order of the two nested loops.\<close>

definition nvlink_mesh :: "u32 list \<Rightarrow> (u32 \<times> u32 \<times> edge_attributes) list" where
  "nvlink_mesh gpu_verts =
     [(gpu_verts ! i, gpu_verts ! j, default_fabric_attrs NVLink (-1)).
      i \<leftarrow> [0..<length gpu_verts], j \<leftarrow> [0..<length gpu_verts], i \<noteq> j]"

text \<open>PCIe to the CPU, CXL, and both InfiniBand rails, each in both directions.\<close>

definition gpu_links ::
  "u32 \<Rightarrow> u32 \<Rightarrow> u32 \<Rightarrow> u32 \<Rightarrow> u32 \<Rightarrow> (u32 \<times> u32 \<times> edge_attributes) list"
where
  "gpu_links cpu cxl ib0 ib1 gv =
     (let pcie = default_fabric_attrs PCIe (-1); cxl_attrs = default_fabric_attrs CXL (-1);
          ib_r0 = default_fabric_attrs InfiniBand 0; ib_r1 = default_fabric_attrs InfiniBand 1
      in [(gv, cpu, pcie), (cpu, gv, pcie), (gv, cxl, cxl_attrs), (cxl, gv, cxl_attrs),
          (gv, ib0, ib_r0), (ib0, gv, ib_r0), (gv, ib1, ib_r1), (ib1, gv, ib_r1)])"

definition cpu_links :: "u32 \<Rightarrow> u32 \<Rightarrow> u32 \<Rightarrow> (u32 \<times> u32 \<times> edge_attributes) list" where
  "cpu_links cpu ib0 ib1 =
     (let pcie = default_fabric_attrs PCIe (-1)
      in [(cpu, ib0, pcie), (ib0, cpu, pcie), (cpu, ib1, pcie), (ib1, cpu, pcie)])"

definition build_h100_node :: "u32 \<Rightarrow> u32 \<Rightarrow> topology_graph" where
  "build_h100_node nid num_gpus =
     (let (gpu_verts, g1) = add_vertices
             (map (\<lambda>i. \<lparr>node_id = nid, local_id = of_nat i, ep_type = GPU\<rparr>) [0..<unat num_gpus])
             empty_graph;
          (cpu, g2) = add_vertex \<lparr>node_id = nid, local_id = 0, ep_type = CPU\<rparr> g1;
          (cxl, g3) = add_vertex \<lparr>node_id = nid, local_id = 0, ep_type = CXLController\<rparr> g2;
          (ib0, g4) = add_vertex \<lparr>node_id = nid, local_id = 0, ep_type = IBPort\<rparr> g3;
          (ib1, g5) = add_vertex \<lparr>node_id = nid, local_id = 1, ep_type = IBPort\<rparr> g4;
          g6 = connect_all (nvlink_mesh gpu_verts) g5;
          g7 = connect_all (concat (map (gpu_links cpu cxl ib0 ib1) gpu_verts)) g6
      in connect_all (cpu_links cpu ib0 ib1) g7)"

section \<open>A cluster\<close>

text \<open>
  One round of the node loop of \<open>build_cluster\<close>: copy the node's vertices and its edges, shifted
  by \<open>base\<close>, and remember the cluster indices of its two InfiniBand ports.
\<close>

definition add_node ::
  "u32 \<Rightarrow> nat \<Rightarrow> topology_graph \<times> u32 list \<times> u32 list \<Rightarrow> topology_graph \<times> u32 list \<times> u32 list"
where
  "add_node gpus_per_node n = (\<lambda>(cluster, node_ib0, node_ib1).
     (let node = build_h100_node (of_nat n) gpus_per_node;
          base = of_nat (length (vertices cluster));
          c1 = snd (add_vertices (vertices node) cluster);
          c2 = connect_all
             (map (\<lambda>e. (src_vertex e + base, dst_vertex e + base, attrs e)) (edges node)) c1
      in (c2, node_ib0 @ [base + gpus_per_node + 2], node_ib1 @ [base + gpus_per_node + 3])))"

text \<open>Rail-isolated links between the ports of every pair of nodes.\<close>

definition rail_links :: "u32 list \<Rightarrow> u32 list \<Rightarrow> nat \<times> nat \<Rightarrow> (u32 \<times> u32 \<times> edge_attributes) list" where
  "rail_links ib0 ib1 = (\<lambda>(i, j).
     (let ib_r0 = default_fabric_attrs InfiniBand 0; ib_r1 = default_fabric_attrs InfiniBand 1
      in [(ib0 ! i, ib0 ! j, ib_r0), (ib0 ! j, ib0 ! i, ib_r0),
          (ib1 ! i, ib1 ! j, ib_r1), (ib1 ! j, ib1 ! i, ib_r1)]))"

definition build_cluster :: "u32 \<Rightarrow> u32 \<Rightarrow> topology_graph" where
  "build_cluster num_nodes gpus_per_node =
     (let N = unat num_nodes;
          (cluster, node_ib0, node_ib1) = fold (add_node gpus_per_node) [0..<N] (empty_graph, [], [])
      in connect_all
           (concat (map (rail_links node_ib0 node_ib1) [(i, j). i \<leftarrow> [0..<N], j \<leftarrow> [Suc i..<N]]))
           cluster)"

section \<open>Closed forms\<close>

abbreviation mk_edge :: "u32 \<times> u32 \<times> edge_attributes \<Rightarrow> graph_edge" where
  "mk_edge c \<equiv> \<lparr>src_vertex = fst c, dst_vertex = fst (snd c), attrs = snd (snd c)\<rparr>"

lemma add_vertex_simps [simp]:
  "fst (add_vertex ep g) = of_nat (length (vertices g))"
  "vertices (snd (add_vertex ep g)) = vertices g @ [ep]"
  "edges (snd (add_vertex ep g)) = edges g"
  by (simp_all add: add_vertex_def Let_def)

lemma add_vertices_simps [simp]:
  "fst (add_vertices eps g) = map of_nat [length (vertices g)..<length (vertices g) + length eps]"
  "vertices (snd (add_vertices eps g)) = vertices g @ eps"
  "edges (snd (add_vertices eps g)) = edges g"
  by (induction eps arbitrary: g) (auto simp: case_prod_unfold Let_def upt_rec)

lemma connect_all_simps [simp]:
  "edges (connect_all cs g) = edges g @ map mk_edge cs"
  "vertices (connect_all cs g) = vertices g"
  by (induction cs arbitrary: g) (auto simp: add_edge_def Let_def)

lemma untouched_cache [simp]:
  "path_cache (snd (add_vertex ep g)) = path_cache g" "path_cache (snd (add_vertices eps g)) = path_cache g"
  "path_cache (connect_all cs g) = path_cache g"
proof -
  show 1: "path_cache (snd (add_vertex ep g)) = path_cache g" for ep g
    by (simp add: add_vertex_def Let_def)
  show "path_cache (snd (add_vertices eps g)) = path_cache g"
    by (induction eps arbitrary: g) (simp_all add: 1 case_prod_unfold Let_def)
  show "path_cache (connect_all cs g) = path_cache g"
    by (induction cs arbitrary: g) (auto simp: add_edge_def Let_def)
qed

declare connect_all.simps [simp del] add_vertices.simps [simp del]

lemma build_cluster_cache [simp]: "path_cache (build_cluster N G) = Map.empty"
proof -
  have "path_cache (fst (fold (add_node G) ns acc)) = path_cache (fst acc)" for ns acc
    by (induction ns arbitrary: acc) (simp_all add: add_node_def case_prod_unfold Let_def)
  then show ?thesis
    by (simp add: build_cluster_def case_prod_unfold Let_def empty_graph_def)
qed

definition node_vertices :: "u32 \<Rightarrow> nat \<Rightarrow> endpoint_id list" where
  "node_vertices nid n =
     map (\<lambda>i. \<lparr>node_id = nid, local_id = of_nat i, ep_type = GPU\<rparr>) [0..<n] @
     [\<lparr>node_id = nid, local_id = 0, ep_type = CPU\<rparr>,
      \<lparr>node_id = nid, local_id = 0, ep_type = CXLController\<rparr>,
      \<lparr>node_id = nid, local_id = 0, ep_type = IBPort\<rparr>,
      \<lparr>node_id = nid, local_id = 1, ep_type = IBPort\<rparr>]"

definition node_links :: "nat \<Rightarrow> (u32 \<times> u32 \<times> edge_attributes) list" where
  "node_links n =
     nvlink_mesh (map of_nat [0..<n]) @
     concat (map (gpu_links (of_nat n) (of_nat (n + 1)) (of_nat (n + 2)) (of_nat (n + 3)))
                 (map of_nat [0..<n])) @
     cpu_links (of_nat n) (of_nat (n + 2)) (of_nat (n + 3))"

lemma build_h100_node_vertices: "vertices (build_h100_node nid ng) = node_vertices nid (unat ng)"
  by (simp add: build_h100_node_def node_vertices_def Let_def case_prod_unfold empty_graph_def)

lemma build_h100_node_edges:
  "edges (build_h100_node nid ng) = map mk_edge (node_links (unat ng))"
  by (simp add: build_h100_node_def node_links_def Let_def case_prod_unfold empty_graph_def
      comp_def add.commute)

lemma length_node_vertices [simp]: "length (node_vertices nid n) = n + 4"
  by (simp add: node_vertices_def)

lemma sum_offdiagonal:
  "i < n \<Longrightarrow> (\<Sum>j \<leftarrow> [0..<n]. length (if i \<noteq> j then [f j] else [])) = n - 1"
proof -
  assume i: "i < n"
  have "(\<Sum>j \<leftarrow> [0..<m]. length (if i \<noteq> j then [f j] else [])) = (if i < m then m - 1 else m)" for m
    by (induction m) auto
  with i show ?thesis by simp
qed

lemma length_nvlink_mesh [simp]: "length (nvlink_mesh vs) = length vs * (length vs - 1)"
proof -
  have "length (nvlink_mesh vs) = (\<Sum>i \<leftarrow> [0..<length vs]. length vs - 1)"
    unfolding nvlink_mesh_def length_concat map_map comp_def
    by (intro arg_cong [where f = sum_list] map_cong refl sum_offdiagonal) simp
  then show ?thesis by (simp add: sum_list_triv)
qed

lemma length_node_links [simp]: "length (node_links n) = n * (n - 1) + 8 * n + 4"
  by (simp add: node_links_def length_concat comp_def gpu_links_def cpu_links_def Let_def
      sum_list_triv)

abbreviation shift_edge :: "u32 \<Rightarrow> graph_edge \<Rightarrow> graph_edge" where
  "shift_edge base e \<equiv>
     \<lparr>src_vertex = src_vertex e + base, dst_vertex = dst_vertex e + base, attrs = attrs e\<rparr>"

lemma nodes_loop:
  fixes G :: u32
  defines "n \<equiv> unat G" and "loop \<equiv> \<lambda>N. fold (add_node G) [0..<N] (empty_graph, [], [])"
  shows "vertices (fst (loop N)) = concat (map (\<lambda>k. node_vertices (of_nat k) n) [0..<N])"
    and "edges (fst (loop N)) =
         concat (map (\<lambda>k. map (shift_edge (of_nat (k * (n + 4))) \<circ> mk_edge) (node_links n)) [0..<N])"
    and "fst (snd (loop N)) = map (\<lambda>k. of_nat (k * (n + 4) + n + 2)) [0..<N]"
    and "snd (snd (loop N)) = map (\<lambda>k. of_nat (k * (n + 4) + n + 3)) [0..<N]"
proof -
  have len: "length (concat (map (\<lambda>k. node_vertices (of_nat k) n) [0..<N])) = N * (n + 4)" for N
    by (simp add: length_concat comp_def sum_list_triv)
  have "vertices (fst (loop N)) = concat (map (\<lambda>k. node_vertices (of_nat k) n) [0..<N]) \<and>
    edges (fst (loop N)) =
      concat (map (\<lambda>k. map (shift_edge (of_nat (k * (n + 4))) \<circ> mk_edge) (node_links n)) [0..<N]) \<and>
    fst (snd (loop N)) = map (\<lambda>k. of_nat (k * (n + 4) + n + 2)) [0..<N] \<and>
    snd (snd (loop N)) = map (\<lambda>k. of_nat (k * (n + 4) + n + 3)) [0..<N]"
  proof (induction N)
    case 0
    show ?case by (simp add: loop_def empty_graph_def)
  next
    case (Suc N)
    obtain c i0 i1 where eq: "loop N = (c, i0, i1)" by (cases "loop N") auto
    have step: "loop (Suc N) = add_node G N (c, i0, i1)"
      using eq by (simp add: loop_def)
    have vs: "length (vertices c) = N * (n + 4)"
      using Suc.IH eq len by simp
    show ?case
      using Suc.IH
      by (simp add: step eq add_node_def Let_def build_h100_node_vertices build_h100_node_edges
          vs n_def [symmetric] comp_def)
        (simp add: n_def len [unfolded n_def])
  qed
  then show "vertices (fst (loop N)) = concat (map (\<lambda>k. node_vertices (of_nat k) n) [0..<N])"
    and "edges (fst (loop N)) =
         concat (map (\<lambda>k. map (shift_edge (of_nat (k * (n + 4))) \<circ> mk_edge) (node_links n)) [0..<N])"
    and "fst (snd (loop N)) = map (\<lambda>k. of_nat (k * (n + 4) + n + 2)) [0..<N]"
    and "snd (snd (loop N)) = map (\<lambda>k. of_nat (k * (n + 4) + n + 3)) [0..<N]"
    by simp_all
qed

section \<open>The cluster in closed form\<close>

lemma build_cluster_vertices:
  "vertices (build_cluster N G) =
   concat (map (\<lambda>k. node_vertices (of_nat k) (unat G)) [0..<unat N])"
  using nodes_loop(1) [of G "unat N"] by (simp add: build_cluster_def Let_def case_prod_unfold)

definition node_pairs :: "nat \<Rightarrow> (nat \<times> nat) list" where
  "node_pairs N = [(i, j). i \<leftarrow> [0..<N], j \<leftarrow> [Suc i..<N]]"

lemma build_cluster_edges:
  "edges (build_cluster N G) =
   concat (map (\<lambda>k. map (shift_edge (of_nat (k * (unat G + 4))) \<circ> mk_edge) (node_links (unat G)))
               [0..<unat N]) @
   map mk_edge (concat (map
     (rail_links (map (\<lambda>k. of_nat (k * (unat G + 4) + unat G + 2)) [0..<unat N])
                 (map (\<lambda>k. of_nat (k * (unat G + 4) + unat G + 3)) [0..<unat N]))
     (node_pairs (unat N))))"
  unfolding build_cluster_def Let_def case_prod_unfold connect_all_simps nodes_loop node_pairs_def ..

lemma in_node_pairs: "(i, j) \<in> set (node_pairs N) \<longleftrightarrow> i < j \<and> j < N"
  by (auto simp: node_pairs_def image_iff intro!: bexI [of _ i])

lemma length_node_pairs: "2 * length (node_pairs N) = N * (N - 1)"
proof -
  have "length (node_pairs N) = (\<Sum>i \<leftarrow> [0..<N]. N - Suc i)"
    by (simp add: node_pairs_def length_concat comp_def)
  also have "\<dots> = (\<Sum>i < N. N - Suc i)"
    by (simp add: interv_sum_list_conv_sum_set_nat atLeast0LessThan)
  also have "\<dots> = (\<Sum>i < N. i)"
    by (rule sum.nat_diff_reindex)
  finally have "length (node_pairs N) = (\<Sum>i < N. i)" .
  moreover have "2 * (\<Sum>i < m. i) = m * (m - 1)" for m :: nat
    by (induction m) (auto simp: algebra_simps)
  ultimately show ?thesis by simp
qed

lemma length_rail_links [simp]: "length (rail_links a b ij) = 4"
  by (cases ij) (simp add: rail_links_def Let_def)

lemma cluster_edge_count_nat:
  "length (edges (build_cluster N G)) =
   unat N * (unat G * (unat G - 1) + 8 * unat G + 4) + 2 * (unat N * (unat N - 1))"
proof -
  have "length (concat (map (rail_links a b) (node_pairs m))) = 2 * (m * (m - 1))" for a b m
    using length_node_pairs [of m] by (simp add: length_concat comp_def sum_list_triv)
  then show ?thesis
    by (simp add: build_cluster_edges length_concat comp_def sum_list_triv)
qed

text \<open>Every link of a node joins two different vertices of the node.\<close>

definition link_within :: "nat \<Rightarrow> u32 \<times> u32 \<times> edge_attributes \<Rightarrow> bool" where
  "link_within m c \<longleftrightarrow>
     (\<exists>a b. a < m \<and> b < m \<and> a \<noteq> b \<and> fst c = of_nat a \<and> fst (snd c) = of_nat b \<and> attrs_ok (snd (snd c)))"

lemma link_withinI:
  "a < m \<Longrightarrow> b < m \<Longrightarrow> a \<noteq> b \<Longrightarrow> attrs_ok ea \<Longrightarrow> link_within m (of_nat a, of_nat b, ea)"
  unfolding link_within_def by auto

lemma gpu_links_within:
  assumes "i < m" "c < m" "x < m" "p < m" "q < m" and "i \<noteq> c" "i \<noteq> x" "i \<noteq> p" "i \<noteq> q"
    and "l \<in> set (gpu_links (of_nat c) (of_nat x) (of_nat p) (of_nat q) (of_nat i))"
  shows "link_within m l"
  using assms by (auto simp: gpu_links_def Let_def intro!: link_withinI)

lemma cpu_links_within:
  assumes "c < m" "p < m" "q < m" and "c \<noteq> p" "c \<noteq> q"
    and "l \<in> set (cpu_links (of_nat c) (of_nat p) (of_nat q))"
  shows "link_within m l"
  using assms by (auto simp: cpu_links_def Let_def intro!: link_withinI)

lemma node_links_within:
  assumes "c \<in> set (node_links n)"
  shows "link_within (n + 4) c"
proof -
  consider "c \<in> set (nvlink_mesh (map of_nat [0..<n]))"
    | i where "i < n"
        "c \<in> set (gpu_links (of_nat n) (of_nat (n + 1)) (of_nat (n + 2)) (of_nat (n + 3)) (of_nat i))"
    | "c \<in> set (cpu_links (of_nat n) (of_nat (n + 2)) (of_nat (n + 3)))"
    using assms by (auto simp: node_links_def simp del: of_nat_add of_nat_Suc)
  then show ?thesis
  proof cases
    case 1
    then show ?thesis by (auto simp: nvlink_mesh_def intro!: link_withinI)
  next
    case 2
    then show ?thesis by (intro gpu_links_within [OF _ _ _ _ _ _ _ _ _ 2(2)]) simp_all
  next
    case 3
    then show ?thesis by (intro cpu_links_within [OF _ _ _ _ _ 3]) simp_all
  qed
qed

lemma nth_concat_uniform:
  assumes "\<And>k. length (f k) = m" and "k < N" and "a < m"
  shows "concat (map f [0..<N]) ! (k * m + a) = f k ! a"
  using assms(2)
proof (induction N)
  case 0
  then show ?case by simp
next
  case (Suc N)
  have len: "length (concat (map f [0..<N])) = N * m"
    by (simp add: length_concat comp_def assms(1) sum_list_triv)
  show ?case
  proof (cases "k = N")
    case True
    then show ?thesis by (simp add: nth_append len)
  next
    case False
    with Suc.prems have k: "k < N" by simp
    then have "Suc k * m \<le> N * m" by (intro mult_le_mono1) simp
    with assms(3) have "k * m + a < N * m" by simp
    then show ?thesis using Suc.IH [OF k] by (simp add: nth_append len)
  qed
qed

lemma cluster_vertex:
  "k < unat N \<Longrightarrow> a < unat G + 4 \<Longrightarrow>
   vertices (build_cluster N G) ! (k * (unat G + 4) + a) = node_vertices (of_nat k) (unat G) ! a"
  unfolding build_cluster_vertices by (rule nth_concat_uniform) simp_all

lemma length_cluster_vertices [simp]:
  "length (vertices (build_cluster N G)) = unat N * (unat G + 4)"
  by (simp add: build_cluster_vertices length_concat comp_def sum_list_triv)

lemma node_vertices_node_id: "a < n + 4 \<Longrightarrow> node_id (node_vertices nid n ! a) = nid"
proof -
  assume "a < n + 4"
  moreover have "\<forall>v \<in> set (node_vertices nid n). node_id v = nid"
    by (auto simp: node_vertices_def)
  ultimately show ?thesis by simp
qed

lemma node_vertices_ports:
  "node_vertices nid n ! (n + 2) = \<lparr>node_id = nid, local_id = 0, ep_type = IBPort\<rparr>"
  "node_vertices nid n ! (n + 3) = \<lparr>node_id = nid, local_id = 1, ep_type = IBPort\<rparr>"
  by (simp_all add: node_vertices_def nth_append numeral_2_eq_2 numeral_3_eq_3)

text \<open>The two kinds of edges of a cluster: inside a node, and between two ports of one rail.\<close>

definition local_edge :: "nat \<Rightarrow> nat \<Rightarrow> graph_edge \<Rightarrow> bool" where
  "local_edge N n e \<longleftrightarrow>
     (\<exists>k a b. k < N \<and> a < n + 4 \<and> b < n + 4 \<and> a \<noteq> b \<and> attrs_ok (attrs e) \<and>
        src_vertex e = of_nat (k * (n + 4) + a) \<and> dst_vertex e = of_nat (k * (n + 4) + b))"

definition rail_edge :: "nat \<Rightarrow> nat \<Rightarrow> graph_edge \<Rightarrow> bool" where
  "rail_edge N n e \<longleftrightarrow>
     (\<exists>i j r. i < N \<and> j < N \<and> i \<noteq> j \<and> r < 2 \<and> attrs e = default_fabric_attrs InfiniBand (int r) \<and>
        src_vertex e = of_nat (i * (n + 4) + (n + 2 + r)) \<and>
        dst_vertex e = of_nat (j * (n + 4) + (n + 2 + r)))"

lemma rail_edgeI:
  "i < N \<Longrightarrow> j < N \<Longrightarrow> i \<noteq> j \<Longrightarrow> r < 2 \<Longrightarrow>
   rail_edge N n \<lparr>src_vertex = of_nat (i * (n + 4) + (n + 2 + r)),
                  dst_vertex = of_nat (j * (n + 4) + (n + 2 + r)),
                  attrs = default_fabric_attrs InfiniBand (int r)\<rparr>"
  unfolding rail_edge_def by auto

lemma rail_links_are_rail_edges:
  assumes "i < N" and "j < N" and "i \<noteq> j"
    and "c \<in> set (rail_links (map (\<lambda>k. of_nat (k * (n + 4) + n + 2)) [0..<N])
                           (map (\<lambda>k. of_nat (k * (n + 4) + n + 3)) [0..<N]) (i, j))"
  shows "rail_edge N n (mk_edge c)"
  using assms rail_edgeI [of i N j 0 n] rail_edgeI [of j N i 0 n]
    rail_edgeI [of i N j 1 n] rail_edgeI [of j N i 1 n]
  by (auto simp: rail_links_def Let_def algebra_simps)

lemma cluster_edge_cases:
  assumes "e \<in> set (edges (build_cluster N G))"
  shows "local_edge (unat N) (unat G) e \<or> rail_edge (unat N) (unat G) e"
proof -
  let ?n = "unat G"
  consider k c where "k < unat N" "c \<in> set (node_links ?n)"
      "e = shift_edge (of_nat (k * (?n + 4))) (mk_edge c)"
    | i j c where "(i, j) \<in> set (node_pairs (unat N))" "e = mk_edge c"
        "c \<in> set (rail_links (map (\<lambda>k. of_nat (k * (?n + 4) + ?n + 2)) [0..<unat N])
                           (map (\<lambda>k. of_nat (k * (?n + 4) + ?n + 3)) [0..<unat N]) (i, j))"
    using assms by (auto simp: build_cluster_edges simp del: of_nat_add of_nat_mult of_nat_unat)
  then show ?thesis
  proof cases
    case 1
    then obtain a b where "a < ?n + 4" "b < ?n + 4" "a \<noteq> b" "attrs_ok (attrs e)"
        "src_vertex e = of_nat a + of_nat (k * (?n + 4))"
        "dst_vertex e = of_nat b + of_nat (k * (?n + 4))"
      using node_links_within [of c ?n] by (auto simp: link_within_def)
    with 1(1) have "local_edge (unat N) ?n e"
      unfolding local_edge_def
      by (intro exI [of _ k] exI [of _ a] exI [of _ b]) (simp add: add.commute)
    then show ?thesis ..
  next
    case 2
    from 2(1) have "i < unat N" "j < unat N" "i \<noteq> j" by (auto simp: in_node_pairs)
    then have "rail_edge (unat N) ?n e"
      unfolding 2(2) using 2(3) by (rule rail_links_are_rail_edges)
    then show ?thesis ..
  qed
qed

lemma slot_bound: "k < N \<Longrightarrow> a < m \<Longrightarrow> k * m + a < N * (m :: nat)"
proof -
  assume "k < N" "a < m"
  then have "Suc k * m \<le> N * m" by (intro mult_le_mono1) simp
  with \<open>a < m\<close> show ?thesis by simp
qed

definition wf_graph :: "topology_graph \<Rightarrow> bool" where
  "wf_graph g \<longleftrightarrow>
     (\<forall>e \<in> set (edges g). unat (src_vertex e) < length (vertices g) \<and>
        unat (dst_vertex e) < length (vertices g) \<and> src_vertex e \<noteq> dst_vertex e \<and>
        attrs_ok (attrs e))"

lemma cluster_edge_ends:
  assumes "unat N * (unat G + 4) < 2 ^ 32" and "e \<in> set (edges (build_cluster N G))"
  obtains (local) k a b where "k < unat N" "a < unat G + 4" "b < unat G + 4" "a \<noteq> b"
      "attrs_ok (attrs e)"
      "unat (src_vertex e) = k * (unat G + 4) + a" "unat (dst_vertex e) = k * (unat G + 4) + b"
  | (rail) i j r where "i < unat N" "j < unat N" "i \<noteq> j" "r < 2"
      "attrs e = default_fabric_attrs InfiniBand (int r)"
      "unat (src_vertex e) = i * (unat G + 4) + (unat G + 2 + r)"
      "unat (dst_vertex e) = j * (unat G + 4) + (unat G + 2 + r)"
proof -
  let ?m = "unat G + 4"
  have idx: "unat (of_nat (k * ?m + a) :: u32) = k * ?m + a" if "k < unat N" "a < ?m" for k a
    using slot_bound [OF that] assms(1) by (intro unat_of_nat_small) simp
  from cluster_edge_cases [OF assms(2)] show thesis
  proof
    assume "local_edge (unat N) (unat G) e"
    then show thesis
      unfolding local_edge_def using idx by (metis local)
  next
    assume "rail_edge (unat N) (unat G) e"
    then obtain i j r where e: "i < unat N" "j < unat N" "i \<noteq> j" "r < 2"
        "attrs e = default_fabric_attrs InfiniBand (int r)"
        "src_vertex e = of_nat (i * ?m + (unat G + 2 + r))"
        "dst_vertex e = of_nat (j * ?m + (unat G + 2 + r))"
      unfolding rail_edge_def by blast
    from e(4) have lt: "unat G + 2 + r < ?m" by simp
    show thesis
      by (rule rail [OF e(1-5)]) (simp_all only: e(6,7) idx [OF e(1) lt] idx [OF e(2) lt])
  qed
qed

lemma cluster_wf:
  assumes "unat N * (unat G + 4) < 2 ^ 32"
  shows "wf_graph (build_cluster N G)"
  unfolding wf_graph_def
proof
  fix e
  assume e: "e \<in> set (edges (build_cluster N G))"
  let ?m = "unat G + 4"
  show "unat (src_vertex e) < length (vertices (build_cluster N G)) \<and>
      unat (dst_vertex e) < length (vertices (build_cluster N G)) \<and>
      src_vertex e \<noteq> dst_vertex e \<and> attrs_ok (attrs e)"
  proof (rule cluster_edge_ends [OF assms e])
    fix k a b
    assume "k < unat N" "a < ?m" "b < ?m" "a \<noteq> b" "attrs_ok (attrs e)"
      "unat (src_vertex e) = k * ?m + a" "unat (dst_vertex e) = k * ?m + b"
    then show ?thesis
      using slot_bound [of k "unat N" a ?m] slot_bound [of k "unat N" b ?m] by auto
  next
    fix i j r
    assume h: "i < unat N" "j < unat N" "i \<noteq> j" "r < 2"
      "attrs e = default_fabric_attrs InfiniBand (int r)"
      "unat (src_vertex e) = i * ?m + (unat G + 2 + r)"
      "unat (dst_vertex e) = j * ?m + (unat G + 2 + r)"
    then have "i * ?m \<noteq> j * ?m" by simp
    with h show ?thesis
      using slot_bound [of i "unat N" "unat G + 2 + r" ?m]
        slot_bound [of j "unat N" "unat G + 2 + r" ?m] by auto
  qed
qed

section \<open>Properties\<close>

text \<open>
  C39. Every edge of a default cluster joins two different existing vertices and has a positive
  bandwidth and a non-negative latency and exponent, as long as the vertices can be numbered by
  \<open>uint32_t\<close>.
\<close>

theorem cluster_well_formed:
  assumes "unat N * (unat G + 4) < 2 ^ 32"
  shows "wf_graph (build_cluster N G)"
  using assms by (rule cluster_wf)

theorem cluster_well_formed_witness: "wf_graph (build_cluster 8 8)"
  by (rule cluster_well_formed) simp

text \<open>
  An edge of a cluster that leaves a node is an InfiniBand edge of rail 0 or 1 that joins the
  port of that rail in one node to the port of the same rail in the other: the inter-node fabric is
  rail-isolated.
\<close>

theorem cluster_rail_isolated:
  assumes "unat N * (unat G + 4) < 2 ^ 32"
    and "e \<in> set (edges (build_cluster N G))"
    and "src = vertices (build_cluster N G) ! unat (src_vertex e)"
    and "dst = vertices (build_cluster N G) ! unat (dst_vertex e)"
    and "node_id src \<noteq> node_id dst"
  shows "fabric (attrs e) = InfiniBand \<and> rail_id (attrs e) \<in> {0, 1} \<and>
         ep_type src = IBPort \<and> ep_type dst = IBPort \<and>
         int (unat (local_id src)) = rail_id (attrs e) \<and>
         int (unat (local_id dst)) = rail_id (attrs e)"
proof (rule cluster_edge_ends [OF assms(1,2)])
  fix k a b
  assume "k < unat N" "a < unat G + 4" "b < unat G + 4"
    "unat (src_vertex e) = k * (unat G + 4) + a" "unat (dst_vertex e) = k * (unat G + 4) + b"
  then have "node_id src = node_id dst"
    by (simp add: assms(3,4) cluster_vertex node_vertices_node_id)
  with assms(5) show ?thesis ..
next
  fix i j r
  assume h: "i < unat N" "j < unat N" "r < 2"
    "attrs e = default_fabric_attrs InfiniBand (int r)"
    "unat (src_vertex e) = i * (unat G + 4) + (unat G + 2 + r)"
    "unat (dst_vertex e) = j * (unat G + 4) + (unat G + 2 + r)"
  have "src = node_vertices (of_nat i) (unat G) ! (unat G + 2 + r)"
    and "dst = node_vertices (of_nat j) (unat G) ! (unat G + 2 + r)"
    unfolding assms(3,4) h(5,6)
    using cluster_vertex [OF h(1), of "unat G + 2 + r" G]
      cluster_vertex [OF h(2), of "unat G + 2 + r" G] h(3)
    by (simp_all only: add_less_cancel_left add.assoc)
  moreover have "r = 0 \<or> r = 1" using h(3) by linarith
  ultimately show ?thesis
    using h(4) node_vertices_ports [of _ "unat G"]
    by (auto simp: default_fabric_attrs_rail eval_nat_numeral)
qed

lemma cluster_2_0_rail_edge:
  "\<lparr>src_vertex = 3, dst_vertex = 7, attrs = default_fabric_attrs InfiniBand 1\<rparr>
   \<in> set (edges (build_cluster 2 0))" (is "?e \<in> _")
proof -
  have "(0, 1) \<in> set (node_pairs 2)" by (simp add: in_node_pairs)
  moreover have "(3, 7, default_fabric_attrs InfiniBand 1)
      \<in> set (rail_links (map (\<lambda>k. of_nat (k * 4 + 2)) [0..<2]) (map (\<lambda>k. of_nat (k * 4 + 3)) [0..<2]) (0, 1))"
    by (simp add: rail_links_def Let_def)
  ultimately show ?thesis
    by (force simp: build_cluster_edges)
qed

theorem cluster_rail_isolated_witness:
  "int (unat (local_id (vertices (build_cluster 2 0) ! 7))) = 1"
proof -
  let ?e = "\<lparr>src_vertex = 3, dst_vertex = 7, attrs = default_fabric_attrs InfiniBand 1\<rparr>"
  have "node_id (vertices (build_cluster 2 0) ! 3) = 0" "node_id (vertices (build_cluster 2 0) ! 7) = 1"
    using cluster_vertex [of 0 2 3 0] cluster_vertex [of 1 2 3 0]
    by (simp_all add: node_vertices_node_id)
  then show ?thesis
    using cluster_rail_isolated [of 2 0 ?e, OF _ cluster_2_0_rail_edge refl refl]
    by (simp add: default_fabric_attrs_rail)
qed

text \<open>
  The size of a default cluster: \<open>N\<close> nodes of \<open>G\<close> GPUs have \<open>N (G + 4)\<close> vertices and
  \<open>N (G (G - 1) + 8 G + 4) + 2 N (N - 1)\<close> edges.
\<close>

theorem cluster_size:
  "length (vertices (build_cluster N G)) = unat N * (unat G + 4) \<and>
   length (edges (build_cluster N G)) =
     unat N * (unat G * (unat G - 1) + 8 * unat G + 4) + 2 * (unat N * (unat N - 1))"
  by (simp add: cluster_edge_count_nat)

end
