(* ===== verification/Ibverbs.thy ===== *)
theory Ibverbs
  imports Model "HOL-Library.List_Lexorder" "HOL-Library.Char_ord"
begin

text \<open>
  The dual-rail ibverbs transport, \<open>shim/ibverbs_transport.hpp\<close> and
  \<open>shim/ibverbs_transport.cpp\<close>: device discovery, memory regions, posted writes, completion
  polling and the synchronous \<open>transfer_chunk\<close> the transfer executor calls.

  The host (the \<open>/sys/class/infiniband\<close> directory and the presence of \<open>libibverbs\<close>) is an
  argument of the operations that look at it.
\<close>

section \<open>Data\<close>

record ib_device_info =
  dev_name :: string
  dev_port :: int
  dev_rail_id :: int
  dev_guid :: u64

record ib_mr_handle =
  mr_id :: u64
  mr_addr :: ptr
  mr_length :: u64
  mr_lkey :: u32
  mr_rkey :: u32
  mr_rail_id :: int
  mr_registered :: bool

record ib_work_request =
  wr_id :: u64
  wr_rail_id :: int
  wr_local_addr :: ptr
  wr_remote_addr :: ptr
  wr_length :: u64
  wr_completed :: bool
  wr_success :: bool

record ibverbs =
  ib_ready :: bool
  ib_hardware :: bool
  ib_devices :: "ib_device_info list"
  ib_next_wr :: u64
  ib_next_mr :: u64
  ib_pending :: "ib_work_request list"
  ib_library :: bool

text \<open>
  What the operations see of the host: the entries of \<open>/sys/class/infiniband\<close> (\<open>None\<close> when
  \<open>opendir\<close> fails), whether a device path is a directory, and whether \<open>dlopen\<close> finds libibverbs.
\<close>

record ib_host =
  sysfs_entries :: "string list option"
  is_device_dir :: "string \<Rightarrow> bool"
  libibverbs_present :: bool

definition ibverbs_fresh :: ibverbs where
  "ibverbs_fresh = \<lparr>ib_ready = False, ib_hardware = False, ib_devices = [], ib_next_wr = 1,
                    ib_next_mr = 1, ib_pending = [], ib_library = False\<rparr>"

section \<open>Discovery and life cycle\<close>

fun is_hidden :: "string \<Rightarrow> bool" where
  "is_hidden [] = False"
| "is_hidden (c # cs) = (c = CHR ''.'')"

text \<open>
  A directory that cannot be opened returns the empty list early; the placeholder names are used
  when it opens and has no visible entry.
\<close>

definition discover_ib_device_names :: "ib_host \<Rightarrow> string list" where
  "discover_ib_device_names h =
     (case sysfs_entries h of
        None \<Rightarrow> []
      | Some entries \<Rightarrow>
          let names = sort (filter (\<lambda>n. \<not> is_hidden n) entries)
          in if names = [] then [''mlx5_0'', ''mlx5_1''] else names)"

definition discover_sysfs :: "ib_host \<Rightarrow> int \<Rightarrow> ibverbs \<Rightarrow> bool \<times> ibverbs" where
  "discover_sysfs h preferred_rails ib =
     (let names = discover_ib_device_names h;
          n = nat (min preferred_rails (int (length names)));
          devs = map (\<lambda>i. \<lparr>dev_name = names ! i, dev_port = 1, dev_rail_id = int i,
                            dev_guid = 0x4849435300000000 OR of_nat i\<rparr>) [0..<n];
          hw = list_ex (\<lambda>d. is_device_dir h (dev_name d)) devs
      in (devs \<noteq> [], ib\<lparr>ib_devices := devs, ib_hardware := ib_hardware ib \<or> hw\<rparr>))"

definition load_ibverbs :: "ib_host \<Rightarrow> ibverbs \<Rightarrow> bool \<times> ibverbs" where
  "load_ibverbs h ib =
     (if ib_library ib then (True, ib)
      else (libibverbs_present h, ib\<lparr>ib_library := libibverbs_present h\<rparr>))"

definition ib_init :: "ib_host \<Rightarrow> int \<Rightarrow> ibverbs \<Rightarrow> bool \<times> ibverbs" where
  "ib_init h preferred_rails ib =
     (if ib_ready ib then (True, ib)
      else
        let (found, ib1) = discover_sysfs h preferred_rails (ib\<lparr>ib_hardware := False\<rparr>)
        in if \<not> found then (False, ib1)
           else
             let (loaded, ib2) = load_ibverbs h ib1
             in if loaded \<and> ib_hardware ib2 then (True, ib2\<lparr>ib_ready := True\<rparr>)
                else (True, ib2\<lparr>ib_ready := True, ib_hardware := False\<rparr>))"

definition ib_shutdown :: "ibverbs \<Rightarrow> ibverbs" where
  "ib_shutdown ib =
     ib\<lparr>ib_pending := [], ib_devices := [], ib_ready := False, ib_library := False\<rparr>"

fun rail_index :: "nat \<Rightarrow> ib_device_info list \<Rightarrow> int \<Rightarrow> nat option" where
  "rail_index i [] r = None"
| "rail_index i (d # ds) r = (if dev_rail_id d = r then Some i else rail_index (Suc i) ds r)"

definition device_for_rail :: "ibverbs \<Rightarrow> int \<Rightarrow> int" where
  "device_for_rail ib r =
     (if r < 0 then 0
      else case rail_index 0 (ib_devices ib) r of
        Some i \<Rightarrow> int i
      | None \<Rightarrow> r mod max 1 (int (length (ib_devices ib))))"

section \<open>Memory regions\<close>

definition ib_reg_mr ::
  "int \<Rightarrow> ptr \<Rightarrow> u64 \<Rightarrow> ib_mr_handle \<Rightarrow> ibverbs \<Rightarrow> bool \<times> ib_mr_handle \<times> ibverbs"
where
  "ib_reg_mr rail addr len out ib =
     (if \<not> ib_ready ib \<or> addr = 0 \<or> len = 0 then (False, out, ib)
      else
        let i = ib_next_mr ib
        in (True,
            out\<lparr>mr_id := i, mr_addr := addr, mr_length := len, mr_rail_id := rail,
                mr_lkey := ucast i, mr_rkey := ucast (i XOR 0xA5A5A5A5), mr_registered := True\<rparr>,
            ib\<lparr>ib_next_mr := i + 1\<rparr>))"

definition ib_dereg_mr :: "ib_mr_handle \<Rightarrow> bool \<times> ib_mr_handle" where
  "ib_dereg_mr mr = (True, mr\<lparr>mr_registered := False, mr_addr := 0, mr_length := 0\<rparr>)"

section \<open>Moving bytes\<close>

definition memcpy_transfer :: "ptr \<Rightarrow> ptr \<Rightarrow> u64 \<Rightarrow> memory \<Rightarrow> bool \<times> memory" where
  "memcpy_transfer src dst len m =
     (if src = 0 \<or> dst = 0 \<or> len = 0 then (False, m)
      else if src = dst then (True, m)
      else (True, memcpy dst src (unat len) m))"

text \<open>The state a posted write touches: the transport and the memory of the process.\<close>

type_synonym wire = "ibverbs \<times> memory"

definition ib_post_write ::
  "int \<Rightarrow> ptr \<Rightarrow> ptr \<Rightarrow> u64 \<Rightarrow> ib_work_request \<Rightarrow> wire \<Rightarrow> int \<times> ib_work_request \<times> wire"
where
  "ib_post_write rail local_addr remote len wr w =
     (let (ib, m) = w
      in if \<not> ib_ready ib then (-1, wr, w)
         else
           let (ok, m') = (if local_addr \<noteq> 0 \<and> remote \<noteq> 0
                           then memcpy_transfer local_addr remote len m else (True, m));
               wr' = wr\<lparr>wr_id := ib_next_wr ib, wr_rail_id := rail, wr_local_addr := local_addr,
                        wr_remote_addr := remote, wr_length := len, wr_completed := True,
                        wr_success := ok\<rparr>;
               ib' = ib\<lparr>ib_next_wr := ib_next_wr ib + 1, ib_pending := ib_pending ib @ [wr']\<rparr>
           in (if ok then 0 else -1, wr', (ib', m')))"

fun poll_scan :: "int \<Rightarrow> nat \<Rightarrow> ib_work_request list \<Rightarrow> ib_work_request list \<times> nat" where
  "poll_scan max_cqe n [] = ([], n)"
| "poll_scan max_cqe n (w # ws) =
     (if int n < max_cqe
      then (if wr_completed w then poll_scan max_cqe (Suc n) ws
            else let (rest, k) = poll_scan max_cqe n ws in (w # rest, k))
      else (w # ws, n))"

definition ib_poll :: "int \<Rightarrow> ibverbs \<Rightarrow> nat \<times> ibverbs" where
  "ib_poll max_cqe ib =
     (let (rest, n) = poll_scan max_cqe 0 (ib_pending ib) in (n, ib\<lparr>ib_pending := rest\<rparr>))"

definition wr_default :: ib_work_request where
  "wr_default = \<lparr>wr_id = 0, wr_rail_id = 0, wr_local_addr = 0, wr_remote_addr = 0,
                 wr_length = 0, wr_completed = False, wr_success = False\<rparr>"

definition ib_transfer_chunk :: "int \<Rightarrow> ptr \<Rightarrow> ptr \<Rightarrow> u64 \<Rightarrow> wire \<Rightarrow> bool \<times> wire" where
  "ib_transfer_chunk rail src dst len w =
     (let (rc, wr, (ib, m)) = ib_post_write rail src dst len wr_default w
      in if rc \<noteq> 0 then (False, (ib, m))
         else (wr_success wr, (snd (ib_poll 8 ib), m)))"

section \<open>The interface the executor uses\<close>

text \<open>
  A mover of bytes: while it is usable, moving between two real buffers copies the bytes; when it is
  not usable, or an end is missing, nothing changes.
\<close>

locale byte_mover =
  fixes move :: "int \<Rightarrow> ptr \<Rightarrow> ptr \<Rightarrow> u64 \<Rightarrow> 's \<Rightarrow> bool \<times> 's"
    and mem :: "'s \<Rightarrow> memory"
    and usable :: "'s \<Rightarrow> bool"
  assumes moves: "usable s \<Longrightarrow> src \<noteq> 0 \<Longrightarrow> dst \<noteq> 0 \<Longrightarrow> n \<noteq> 0 \<Longrightarrow>
      mem (snd (move r src dst n s)) = memcpy dst src (unat n) (mem s)"
    and refuses: "\<not> usable s \<or> src = 0 \<or> dst = 0 \<or> n = 0 \<Longrightarrow> mem (snd (move r src dst n s)) = mem s"
    and usable_move: "usable (snd (move r src dst n s)) = usable s"
begin

lemma move_copies:
  "usable s \<Longrightarrow> src \<noteq> 0 \<Longrightarrow> dst \<noteq> 0 \<Longrightarrow> i < unat n \<Longrightarrow>
   mem (snd (move r src dst n s)) (dst + of_nat i) = mem s (src + of_nat i)"
proof -
  assume a: "usable s" "src \<noteq> 0" "dst \<noteq> 0" "i < unat n"
  from a(4) unat_u64_less [of n] have "n \<noteq> 0" "i < 2 ^ 64" by auto
  with a show ?thesis by (simp add: moves memcpy_inside)
qed

lemma move_frame:
  assumes "\<not> in_range a dst (unat n)"
  shows "mem (snd (move r src dst n s)) a = mem s a"
  using assms
  by (cases "usable s \<and> src \<noteq> 0 \<and> dst \<noteq> 0 \<and> n \<noteq> 0")
    (simp_all add: moves memcpy_outside, auto simp: refuses)

end

lemma memcpy_self: "memcpy p p n m = m"
  by (rule ext) (simp add: memcpy_def)

lemma ib_post_write_not_ready: "\<not> ib_ready (fst w) \<Longrightarrow> ib_post_write r s d n wr w = (-1, wr, w)"
  by (simp add: ib_post_write_def case_prod_unfold Let_def)

lemma ib_transfer_chunk_not_ready: "\<not> ib_ready (fst w) \<Longrightarrow> ib_transfer_chunk r s d n w = (False, w)"
  by (simp add: ib_transfer_chunk_def ib_post_write_not_ready case_prod_unfold)

lemma ib_transfer_chunk_ready [simp]:
  "ib_ready (fst (snd (ib_transfer_chunk r s d n w))) = ib_ready (fst w)"
  by (auto simp: ib_transfer_chunk_def ib_post_write_def ib_poll_def Let_def case_prod_unfold
      split: if_splits)

lemma ib_transfer_chunk_copies:
  "ib_ready (fst w) \<Longrightarrow> s \<noteq> 0 \<Longrightarrow> d \<noteq> 0 \<Longrightarrow> n \<noteq> 0 \<Longrightarrow>
   fst (ib_transfer_chunk r s d n w) \<and>
   snd (snd (ib_transfer_chunk r s d n w)) = memcpy d s (unat n) (snd w)"
  by (auto simp: ib_transfer_chunk_def ib_post_write_def memcpy_transfer_def Let_def
      case_prod_unfold memcpy_self)

lemma ib_transfer_chunk_refuses:
  "\<not> ib_ready (fst w) \<or> s = 0 \<or> d = 0 \<or> n = 0 \<Longrightarrow>
   snd (snd (ib_transfer_chunk r s d n w)) = snd w"
  by (auto simp: ib_transfer_chunk_def ib_post_write_def memcpy_transfer_def Let_def case_prod_unfold)

interpretation ib: byte_mover ib_transfer_chunk snd "\<lambda>w. ib_ready (fst w)"
  by unfold_locales (simp_all add: ib_transfer_chunk_copies ib_transfer_chunk_refuses)

section \<open>Completion polling\<close>

lemma poll_scan_completed:
  "list_all wr_completed ws \<Longrightarrow>
   poll_scan c n ws = (drop (nat (c - int n)) ws, n + min (nat (c - int n)) (length ws))"
proof (induction c n ws rule: poll_scan.induct)
  case (1 c n)
  then show ?case by simp
next
  case (2 c n w ws)
  show ?case
  proof (cases "int n < c")
    case True
    then have "nat (c - int n) = Suc (nat (c - int (Suc n)))" by linarith
    with 2 True show ?thesis by simp
  next
    case False
    then show ?thesis by simp
  qed
qed

definition all_completed :: "ibverbs \<Rightarrow> bool" where
  "all_completed ib \<longleftrightarrow> list_all wr_completed (ib_pending ib)"

lemma all_completed_poll: "all_completed ib \<Longrightarrow> all_completed (snd (ib_poll c ib))"
  by (auto simp: all_completed_def ib_poll_def poll_scan_completed case_prod_unfold Let_def
      list_all_iff dest: in_set_dropD)

lemma all_completed_post:
  "all_completed (fst w) \<Longrightarrow> all_completed (fst (snd (snd (ib_post_write r s d n wr w))))"
  by (auto simp: all_completed_def ib_post_write_def case_prod_unfold Let_def)

section \<open>Properties\<close>

text \<open>
  C40. On a ready transport a chunk transfer between two separate real buffers succeeds, leaves every address
  outside the destination as it was, puts at each destination byte the source byte it had before,
  and keeps no work request behind: a queue of at most seven finished requests is empty afterwards.
\<close>
theorem transfer_chunk_moves_bytes:
  assumes "ib_ready (fst w)" and "s \<noteq> 0" and "d \<noteq> 0" and "n \<noteq> 0"
    and "ranges_disjoint s (unat n) d (unat n)"
    and "all_completed (fst w)" and "length (ib_pending (fst w)) \<le> 7"
    and run: "ib_transfer_chunk r s d n w = (ok, ib', m')"
  shows "ok \<and> ib_ready ib' \<and> ib_pending ib' = [] \<and> ib_next_wr ib' = ib_next_wr (fst w) + 1 \<and>
    (\<forall>i < unat n. m' (d + of_nat i) = snd w (s + of_nat i)) \<and>
    (\<forall>a. \<not> in_range a d (unat n) \<longrightarrow> m' a = snd w a)"
proof -
  have m': "m' = snd (snd (ib_transfer_chunk r s d n w))" using run by simp
  have "ok" using ib_transfer_chunk_copies [OF assms(1-4), of r] run by simp
  moreover have "ib_ready ib' \<and> ib_pending ib' = [] \<and> ib_next_wr ib' = ib_next_wr (fst w) + 1"
  proof -
    have fin: "list_all wr_completed (ib_pending (fst w) @ [x])" if "wr_completed x" for x
      using assms(6) that by (simp add: all_completed_def)
    show ?thesis
      using run assms(1-4,7) poll_scan_completed [OF fin]
      by (auto simp: ib_transfer_chunk_def ib_post_write_def memcpy_transfer_def ib_poll_def
          Let_def case_prod_unfold split: if_splits)
  qed
  moreover have "m' (d + of_nat i) = snd w (s + of_nat i)" if "i < unat n" for i
    unfolding m' using ib.move_copies [OF assms(1-3) that] .
  moreover have "m' a = snd w a" if "\<not> in_range a d (unat n)" for a
    unfolding m' using ib.move_frame [OF that] .
  ultimately show ?thesis by blast
qed

theorem transfer_chunk_moves_bytes_witness:
  "\<exists>ok ib' m'. ib_transfer_chunk 1 16 32 2 (ibverbs_fresh\<lparr>ib_ready := True\<rparr>, (\<lambda>a. 0)(17 := 5)) =
      (ok, ib', m') \<and> ok \<and> m' 33 = 5"
proof -
  let ?w = "(ibverbs_fresh\<lparr>ib_ready := True\<rparr>, (\<lambda>a. 0)(17 := 5)) :: wire"
  obtain ok ib' m' where run: "ib_transfer_chunk 1 16 32 2 ?w = (ok, ib', m')" by (rule prod_cases3)
  have "ranges_disjoint 16 (unat (2 :: u64)) 32 (unat (2 :: u64))" by (rule ranges_disjoint_below) simp_all
  from transfer_chunk_moves_bytes [OF _ _ _ _ this _ _ run]
  have "ok \<and> (\<forall>i < unat (2 :: u64). m' (32 + of_nat i) = snd ?w (16 + of_nat i))"
    by (simp add: ibverbs_fresh_def all_completed_def)
  then have "ok" and bytes: "\<forall>i < 2. m' (32 + of_nat i) = snd ?w (16 + of_nat i)" by simp_all
  from bytes [rule_format, of 1] have "m' 33 = 5" by simp
  with \<open>ok\<close> run show ?thesis by auto
qed

text \<open>
  On a host whose \<open>/sys/class/infiniband\<close> cannot be opened a fresh transport does not start, with
  or without libibverbs, and every later transfer is refused and moves nothing: the memory-copy
  fallback is reached only when the directory exists.
\<close>
theorem no_sysfs_no_transport:
  assumes "sysfs_entries h = None"
  shows "fst (ib_init h rails ibverbs_fresh) = False \<and>
    ib_transfer_chunk r s d n (snd (ib_init h rails ibverbs_fresh), m) =
      (False, snd (ib_init h rails ibverbs_fresh), m)"
proof -
  have "fst (ib_init h rails ibverbs_fresh) = False \<and> \<not> ib_ready (snd (ib_init h rails ibverbs_fresh))"
    using assms by (simp add: ib_init_def discover_sysfs_def discover_ib_device_names_def
        ibverbs_fresh_def Let_def)
  then show ?thesis by (simp add: ib_transfer_chunk_not_ready)
qed

theorem no_sysfs_no_transport_witness:
  "ib_transfer_chunk 0 16 32 8 (snd (ib_init \<lparr>sysfs_entries = None, is_device_dir = \<lambda>n. False,
      libibverbs_present = True\<rparr> 2 ibverbs_fresh), \<lambda>a. 0) =
   (False, snd (ib_init \<lparr>sysfs_entries = None, is_device_dir = \<lambda>n. False,
      libibverbs_present = True\<rparr> 2 ibverbs_fresh), \<lambda>a. 0)"
  using no_sysfs_no_transport [of "\<lparr>sysfs_entries = None, is_device_dir = \<lambda>n. False,
      libibverbs_present = True\<rparr>"] by simp

lemma rail_index_discovered:
  assumes "map dev_rail_id ds = map int [k..<k + length ds]"
  shows "rail_index k ds r = (if int k \<le> r \<and> r < int (k + length ds) then Some (nat r) else None)"
  using assms
proof (induction ds arbitrary: k)
  case (Cons d ds)
  have "[k..<k + length (d # ds)] = k # [Suc k..<Suc k + length ds]"
    using upt_conv_Cons [of k "k + length (d # ds)"] by simp
  with Cons.prems have "dev_rail_id d = int k" "map dev_rail_id ds = map int [Suc k..<Suc k + length ds]"
    by (simp_all only: list.map list.inject)
  with Cons.IH [of "Suc k"] show ?case by auto
qed simp

text \<open>
  Starting a fresh transport on a host whose device directory opens always succeeds, with at least
  one and at most the preferred number of devices, numbered by rail from 0; every rail then maps to
  one of them, and a rail that has a device maps to that device.
\<close>
theorem init_maps_rails:
  assumes "sysfs_entries h = Some entries" and "1 \<le> rails"
  shows "\<exists>ib. ib_init h rails ibverbs_fresh = (True, ib) \<and> ib_ready ib \<and>
    1 \<le> length (ib_devices ib) \<and> int (length (ib_devices ib)) \<le> rails \<and>
    (\<forall>r. 0 \<le> device_for_rail ib r \<and> device_for_rail ib r < int (length (ib_devices ib))) \<and>
    (\<forall>r. 0 \<le> r \<longrightarrow> r < int (length (ib_devices ib)) \<longrightarrow> device_for_rail ib r = r)"
proof -
  let ?names = "discover_ib_device_names h"
  let ?ib = "snd (ib_init h rails ibverbs_fresh)"
  have names: "?names \<noteq> []" using assms(1) by (simp add: discover_ib_device_names_def Let_def)
  define n where "n = nat (min rails (int (length ?names)))"
  have n: "1 \<le> n" "int n \<le> rails" using assms(2) names by (auto simp: n_def Suc_le_eq)
  have devs: "map dev_rail_id (ib_devices ?ib) = map int [0..<n]" "length (ib_devices ?ib) = n"
    and ok: "fst (ib_init h rails ibverbs_fresh)" "ib_ready ?ib"
    using n names by (auto simp: ib_init_def discover_sysfs_def load_ibverbs_def ibverbs_fresh_def
        n_def [symmetric] comp_def Let_def)
  have idx: "rail_index 0 (ib_devices ?ib) r = (if 0 \<le> r \<and> r < int n then Some (nat r) else None)" for r
    using rail_index_discovered [of "ib_devices ?ib" 0] devs by simp
  have "0 \<le> device_for_rail ?ib r \<and> device_for_rail ?ib r < int n" for r
    using n by (auto simp: device_for_rail_def idx devs)
  moreover have "0 \<le> r \<longrightarrow> r < int n \<longrightarrow> device_for_rail ?ib r = r" for r
    by (simp add: device_for_rail_def idx)
  ultimately show ?thesis
    using n ok devs(2) by (intro exI [of _ ?ib]) (simp add: prod_eq_iff)
qed

theorem init_maps_rails_witness:
  "\<exists>ib. ib_init \<lparr>sysfs_entries = Some [''mlx5_0''], is_device_dir = \<lambda>n. False,
       libibverbs_present = False\<rparr> 2 ibverbs_fresh = (True, ib) \<and> device_for_rail ib 7 < int (length (ib_devices ib))"
  using init_maps_rails [of "\<lparr>sysfs_entries = Some [''mlx5_0''], is_device_dir = \<lambda>n. False,
       libibverbs_present = False\<rparr>" _ 2] by auto

end
