(* ===== verification/Executor.thy ===== *)
theory Executor
  imports Topology Ibverbs
begin

text \<open>
  The transfer executor, \<open>transfer/transfer_executor.hpp\<close> and \<open>transfer/transfer_executor.cpp\<close>:
  its data, and every operation that changes its state.  The invariants are in
  \<open>Executor_Inv\<close>, the movement of bytes in \<open>Executor_Data\<close>, progress in \<open>Executor_Live\<close>.

  The mutex makes each operation atomic.  What an operation reads from outside is an argument:
  the edges of the graph the executor points to (\<open>None\<close> for the null pointer), the clock, the
  transport that moves bytes (a \<open>byte_mover\<close>, the ibverbs singleton in the program) and the
  completion callback with the state it works on.
\<close>

section \<open>Data\<close>

datatype transfer_state =
  Pending | InFlight | Paused | Rerouting | Completed | Cancelled | SuspendPending

type_synonym transfer_id = u64

record chunk_path =
  ck_seq :: u32
  ck_edges :: edge_path
  ck_size :: u64
  ck_offset :: u64
  ck_rail :: int

record chunk_progress =
  ch_seq :: u32
  ch_edges :: edge_path
  ch_offset :: u64
  ch_size :: u64
  ch_sent :: u64
  ch_rail :: int
  ch_state :: transfer_state

record transfer_progress =
  tp_id :: transfer_id
  tp_state :: transfer_state
  tp_request :: transfer_request
  tp_path_edges :: edge_path
  tp_bytes_total :: u64
  tp_bytes_sent :: u64
  tp_bytes_remaining :: u64
  tp_slack_us :: real
  tp_started_ns :: real
  tp_reroute_count :: u32
  tp_preemptible :: bool
  tp_src_buf :: ptr
  tp_dst_buf :: ptr
  tp_chunk_quantum :: u64
  tp_chunks :: "chunk_progress list"
  tp_active_chunk :: u32
  tp_suspend_at_boundary :: bool

record submit_options =
  so_src_buf :: ptr
  so_dst_buf :: ptr

record executor =
  ex_transfers :: "(transfer_id \<times> transfer_progress) list"
  ex_next_id :: u64
  ex_completed_count :: u64
  ex_preempt_count :: u64
  ex_reroute_count :: u64
  ex_bytes_transferred :: u64
  ex_boundary_suspends :: u64

definition executor_fresh :: executor where
  "executor_fresh = \<lparr>ex_transfers = [], ex_next_id = 1, ex_completed_count = 0,
     ex_preempt_count = 0, ex_reroute_count = 0, ex_bytes_transferred = 0,
     ex_boundary_suspends = 0\<rparr>"

text \<open>\<open>TransferProgress{}\<close>, what \<open>get\<close> returns for an unknown id.\<close>

definition default_request :: transfer_request where
  "default_request =
     \<lparr>rq_source = \<lparr>node_id = 0, local_id = 0, ep_type = GPU\<rparr>,
      rq_dest = \<lparr>node_id = 0, local_id = 0, ep_type = GPU\<rparr>,
      size_bytes = 0, traffic = TensorParallel, deadline_us = 0\<rparr>"

definition default_progress :: transfer_progress where
  "default_progress =
     \<lparr>tp_id = 0, tp_state = Pending, tp_request = default_request, tp_path_edges = [],
      tp_bytes_total = 0, tp_bytes_sent = 0, tp_bytes_remaining = 0, tp_slack_us = 0,
      tp_started_ns = 0, tp_reroute_count = 0, tp_preemptible = True, tp_src_buf = 0,
      tp_dst_buf = 0, tp_chunk_quantum = kKvChunkBytes, tp_chunks = [], tp_active_chunk = 0,
      tp_suspend_at_boundary = False\<rparr>"

section \<open>Rails and edges\<close>

definition shares_edge :: "edge_path \<Rightarrow> edge_path \<Rightarrow> bool" where
  "shares_edge path busy \<longleftrightarrow> list_ex (\<lambda>e. e \<in> set busy) path"

fun first_rail :: "graph_edge list \<Rightarrow> edge_path \<Rightarrow> int option" where
  "first_rail es [] = None"
| "first_rail es (e # p) =
     (if unat e < length es \<and> 0 \<le> rail_id (attrs (es ! unat e))
      then Some (rail_id (attrs (es ! unat e))) else first_rail es p)"

definition rail_of_path :: "graph_edge list option \<Rightarrow> edge_path \<Rightarrow> int" where
  "rail_of_path g p =
     (case g of None \<Rightarrow> 0 | Some es \<Rightarrow> (case first_rail es p of None \<Rightarrow> 0 | Some r \<Rightarrow> r))"

definition rail_slot :: "int \<Rightarrow> nat" where
  "rail_slot r = (if 0 \<le> r then nat (r mod int kIbRailCount) else 0)"

section \<open>Submission\<close>

definition submit ::
  "graph_edge list option \<Rightarrow> real \<Rightarrow> transfer_request \<Rightarrow> path_cost \<Rightarrow> submit_options \<Rightarrow> executor \<Rightarrow>
   transfer_id \<times> executor"
where
  "submit g now req path opts ex =
     (let i = ex_next_id ex;
          ch = \<lparr>ch_seq = 0, ch_edges = edge_indices path, ch_offset = 0, ch_size = size_bytes req,
                ch_sent = 0, ch_rail = rail_of_path g (edge_indices path), ch_state = InFlight\<rparr>;
          tp = default_progress\<lparr>tp_id := i, tp_state := InFlight, tp_request := req,
                 tp_path_edges := edge_indices path, tp_bytes_total := size_bytes req,
                 tp_bytes_sent := 0, tp_bytes_remaining := size_bytes req,
                 tp_slack_us := deadline_us req - pc_latency_us path, tp_started_ns := now,
                 tp_preemptible := (traffic req = KVMigration), tp_src_buf := so_src_buf opts,
                 tp_dst_buf := so_dst_buf opts, tp_chunk_quantum := kKvChunkBytes,
                 tp_chunks := [ch], tp_active_chunk := 0\<rparr>
      in (i, ex\<lparr>ex_next_id := i + 1, ex_transfers := AList.update i tp (ex_transfers ex)\<rparr>))"

definition add_edges :: "edge_path \<Rightarrow> edge_path \<Rightarrow> edge_path" where
  "add_edges acc es = fold (\<lambda>e acc. if e \<in> set acc then acc else acc @ [e]) es acc"

text \<open>
  The loop of \<open>submit_striped\<close>: a chunk starts in flight when its rail has none yet and is
  pending otherwise; a chunk without an offset of its own follows the one before it.
\<close>

fun stripe_chunks ::
  "graph_edge list option \<Rightarrow> chunk_path list \<Rightarrow> u64 \<Rightarrow> bool list \<Rightarrow> chunk_progress list"
where
  "stripe_chunks g [] offset rail_inflight = []"
| "stripe_chunks g (c # cs) offset rail_inflight =
     (let rail = (if 0 \<le> ck_rail c then ck_rail c else rail_of_path g (ck_edges c));
          slot = rail_slot rail;
          free = (\<not> rail_inflight ! slot)
      in \<lparr>ch_seq = ck_seq c, ch_edges = ck_edges c,
          ch_offset = (if 0 < ck_offset c then ck_offset c else offset), ch_size = ck_size c,
          ch_sent = 0, ch_rail = rail, ch_state = (if free then InFlight else Pending)\<rparr>
         # stripe_chunks g cs (offset + ck_size c) (rail_inflight[slot := True]))"

definition submit_striped ::
  "graph_edge list option \<Rightarrow> real \<Rightarrow> transfer_request \<Rightarrow> chunk_path list \<Rightarrow> submit_options \<Rightarrow>
   executor \<Rightarrow> transfer_id \<times> executor"
where
  "submit_striped g now req chunks opts ex =
     (case chunks of
        [] \<Rightarrow> submit g now req \<lparr>edge_indices = [], pc_latency_us = 0\<rparr> opts ex
      | c # cs \<Rightarrow>
          let i = ex_next_id ex;
              tp = default_progress\<lparr>tp_id := i, tp_state := InFlight, tp_request := req,
                     tp_path_edges := fold (\<lambda>c acc. add_edges acc (ck_edges c)) chunks [],
                     tp_bytes_total := size_bytes req, tp_bytes_sent := 0,
                     tp_bytes_remaining := size_bytes req, tp_slack_us := deadline_us req,
                     tp_started_ns := now, tp_preemptible := (traffic req = KVMigration),
                     tp_src_buf := so_src_buf opts, tp_dst_buf := so_dst_buf opts,
                     tp_chunk_quantum := (if 0 < ck_size c then ck_size c else kKvChunkBytes),
                     tp_chunks := stripe_chunks g chunks 0 (replicate kIbRailCount False),
                     tp_active_chunk := 0\<rparr>
          in (i, ex\<lparr>ex_next_id := i + 1, ex_transfers := AList.update i tp (ex_transfers ex)\<rparr>))"

section \<open>Pause, cancel, preempt\<close>

definition put_transfer :: "transfer_id \<Rightarrow> transfer_progress \<Rightarrow> executor \<Rightarrow> executor" where
  "put_transfer i tp ex = ex\<lparr>ex_transfers := AList.update i tp (ex_transfers ex)\<rparr>"

definition mark_suspend :: "transfer_progress \<Rightarrow> transfer_progress" where
  "mark_suspend tp = tp\<lparr>tp_suspend_at_boundary := True, tp_state := SuspendPending\<rparr>"

definition pause :: "transfer_id \<Rightarrow> executor \<Rightarrow> bool \<times> executor" where
  "pause i ex =
     (case map_of (ex_transfers ex) i of
        None \<Rightarrow> (False, ex)
      | Some tp \<Rightarrow>
          if \<not> tp_preemptible tp then (False, ex)
          else if tp_state tp \<noteq> InFlight \<and> tp_state tp \<noteq> SuspendPending then (False, ex)
          else (True, (put_transfer i (mark_suspend tp) ex)
                        \<lparr>ex_preempt_count := ex_preempt_count ex + 1\<rparr>))"

definition cancel_chunk :: "chunk_progress \<Rightarrow> chunk_progress" where
  "cancel_chunk ch = (if ch_state ch \<noteq> Completed then ch\<lparr>ch_state := Cancelled\<rparr> else ch)"

definition cancel :: "transfer_id \<Rightarrow> executor \<Rightarrow> bool \<times> executor" where
  "cancel i ex =
     (case map_of (ex_transfers ex) i of
        None \<Rightarrow> (False, ex)
      | Some tp \<Rightarrow>
          (True, put_transfer i (tp\<lparr>tp_state := Cancelled, tp_bytes_remaining := 0,
                                    tp_chunks := map cancel_chunk (tp_chunks tp)\<rparr>) ex))"

definition preempt_hit :: "edge_path \<Rightarrow> transfer_progress \<Rightarrow> bool" where
  "preempt_hit busy tp \<longleftrightarrow>
     tp_preemptible tp \<and> tp_state tp = InFlight \<and>
     (shares_edge (tp_path_edges tp) busy \<or>
      list_ex (\<lambda>ch. ch_state ch = InFlight \<and> shares_edge (ch_edges ch) busy) (tp_chunks tp))"

text \<open>
  \<open>std::sort\<close> by falling slack leaves the order of equal slacks open; here it is the iteration
  order of the table.
\<close>

definition preempt_sharing :: "edge_path \<Rightarrow> nat \<Rightarrow> executor \<Rightarrow> transfer_id list \<times> executor" where
  "preempt_sharing busy max_preempt ex =
     (let candidates = sort_key (\<lambda>kv. - tp_slack_us (snd kv))
                         (filter (\<lambda>kv. preempt_hit busy (snd kv)) (ex_transfers ex));
          chosen = take max_preempt candidates;
          keys = map fst chosen
      in (map (\<lambda>kv. tp_id (snd kv)) chosen,
          ex\<lparr>ex_transfers := map (\<lambda>(k, tp). (k, if k \<in> set keys then mark_suspend tp else tp))
                                (ex_transfers ex),
             ex_preempt_count := ex_preempt_count ex + of_nat (length chosen)\<rparr>))"

section \<open>Reroute\<close>

text \<open>Pending chunks take the first free rail slot each, in order.\<close>

fun promote :: "bool list \<Rightarrow> chunk_progress list \<Rightarrow> chunk_progress list" where
  "promote rail_busy [] = []"
| "promote rail_busy (ch # chs) =
     (let slot = rail_slot (ch_rail ch)
      in if ch_state ch = Pending \<and> \<not> rail_busy ! slot
         then ch\<lparr>ch_state := InFlight\<rparr> # promote (rail_busy[slot := True]) chs
         else ch # promote rail_busy chs)"

definition reroute_chunk :: "edge_path \<Rightarrow> int \<Rightarrow> chunk_progress \<Rightarrow> chunk_progress" where
  "reroute_chunk es rail ch =
     (if ch_state ch = Completed then ch
      else ch\<lparr>ch_edges := es, ch_rail := rail,
              ch_state := (if ch_state ch \<in> {Paused, Pending, InFlight} then Pending
                           else ch_state ch)\<rparr>)"

definition reroute_transfer ::
  "graph_edge list option \<Rightarrow> path_cost \<Rightarrow> transfer_progress \<Rightarrow> transfer_progress"
where
  "reroute_transfer g new_path tp =
     (let new_rail = rail_of_path g (edge_indices new_path);
          chunks = map (reroute_chunk (edge_indices new_path) new_rail) (tp_chunks tp)
      in tp\<lparr>tp_chunks := promote (replicate kIbRailCount False) chunks,
            tp_path_edges := edge_indices new_path,
            tp_slack_us := deadline_us (tp_request tp) - pc_latency_us new_path,
            tp_reroute_count := tp_reroute_count tp + 1,
            tp_suspend_at_boundary := False,
            tp_state := InFlight\<rparr>)"

definition reroute ::
  "graph_edge list option \<Rightarrow> transfer_id \<Rightarrow> path_cost \<Rightarrow> executor \<Rightarrow> bool \<times> executor"
where
  "reroute g i new_path ex =
     (case map_of (ex_transfers ex) i of
        None \<Rightarrow> (False, ex)
      | Some tp \<Rightarrow>
          if tp_state tp \<notin> {Paused, Rerouting, InFlight, SuspendPending} then (False, ex)
          else (True, (put_transfer i (reroute_transfer g new_path tp) ex)
                        \<lparr>ex_reroute_count := ex_reroute_count ex + 1\<rparr>))"

definition resume ::
  "graph_edge list option \<Rightarrow> transfer_id \<Rightarrow> path_cost \<Rightarrow> executor \<Rightarrow> bool \<times> executor"
where
  "resume g i new_path ex = reroute g i new_path ex"

section \<open>Bandwidth\<close>

fun narrowest :: "graph_edge list \<Rightarrow> real list \<Rightarrow> real \<Rightarrow> edge_path \<Rightarrow> real" where
  "narrowest es utils best [] = best"
| "narrowest es utils best (e # p) =
     (if \<not> unat e < length es then narrowest es utils best p
      else
        let a = attrs (es ! unat e);
            u = clamp (if unat e < length utils then utils ! unat e else 0) 0 0.99;
            residual = (1 - u) powr contention_alpha a
        in narrowest es utils (min best (bandwidth_gbps a * residual)) p)"

definition bottleneck_gbps :: "graph_edge list option \<Rightarrow> edge_path \<Rightarrow> real list \<Rightarrow> real" where
  "bottleneck_gbps g p utils =
     (case g of
        None \<Rightarrow> 1
      | Some es \<Rightarrow> if p = [] then 1 else max (narrowest es utils (10 ^ 9) p) 0.1)"

definition bytes_for_dt :: "graph_edge list option \<Rightarrow> edge_path \<Rightarrow> real \<Rightarrow> real list \<Rightarrow> u64" where
  "bytes_for_dt g p dt_ms utils =
     u64_of_real (max 0 (bottleneck_gbps g p utils * 10 ^ 9 * (dt_ms / 1000)))"

section \<open>Tick\<close>

text \<open>
  What processing one transfer changes besides the transfer: the transport and memory (\<open>te_wire\<close>),
  three counters, and the state of the completion callback.
\<close>

record ('s, 'k) tick_env =
  te_wire :: 's
  te_bytes :: u64
  te_completed :: u64
  te_suspends :: u64
  te_cb :: 'k

type_synonym 's mover = "int \<Rightarrow> ptr \<Rightarrow> ptr \<Rightarrow> u64 \<Rightarrow> 's \<Rightarrow> bool \<times> 's"
type_synonym 'k completion_fn = "(transfer_progress \<Rightarrow> 'k \<Rightarrow> 'k) option"

definition maybe_wire_chunk ::
  "'s mover \<Rightarrow> transfer_progress \<Rightarrow> chunk_progress \<Rightarrow> u64 \<Rightarrow> 's \<Rightarrow> 's"
where
  "maybe_wire_chunk mv tp ch step s =
     (if step = 0 \<or> tp_src_buf tp = 0 \<or> tp_dst_buf tp = 0 then s
      else snd (mv (ch_rail ch) (tp_src_buf tp + ch_offset ch + ch_sent ch)
                   (tp_dst_buf tp + ch_offset ch + ch_sent ch) step s))"

definition refresh_aggregate :: "transfer_progress \<Rightarrow> transfer_progress" where
  "refresh_aggregate tp =
     (let sent = sum_list (map ch_sent (tp_chunks tp))
      in tp\<lparr>tp_bytes_sent := sent,
            tp_bytes_remaining := (if sent < tp_bytes_total tp then tp_bytes_total tp - sent else 0)\<rparr>)"

definition complete_transfer ::
  "'k completion_fn \<Rightarrow> transfer_progress \<Rightarrow> ('s, 'k) tick_env \<Rightarrow> transfer_progress \<times> ('s, 'k) tick_env"
where
  "complete_transfer cb tp env =
     (let tp' = tp\<lparr>tp_state := Completed, tp_bytes_remaining := 0\<rparr>
      in (tp', env\<lparr>te_completed := te_completed env + 1,
                    te_cb := (case cb of None \<Rightarrow> te_cb env | Some f \<Rightarrow> f tp' (te_cb env))\<rparr>))"

definition park_chunk :: "chunk_progress \<Rightarrow> chunk_progress" where
  "park_chunk ch = (if ch_state ch = Pending then ch\<lparr>ch_state := Paused\<rparr> else ch)"

fun rails_busy :: "bool list \<Rightarrow> chunk_progress list \<Rightarrow> bool list" where
  "rails_busy busy [] = busy"
| "rails_busy busy (ch # chs) =
     rails_busy (if ch_state ch = InFlight then busy[rail_slot (ch_rail ch) := True] else busy) chs"

definition settle_chunks :: "transfer_progress \<Rightarrow> chunk_progress list" where
  "settle_chunks tp =
     (if tp_suspend_at_boundary tp then map park_chunk (tp_chunks tp)
      else promote (rails_busy (replicate kIbRailCount False) (tp_chunks tp)) (tp_chunks tp))"

definition chunk_step ::
  "graph_edge list option \<Rightarrow> real \<Rightarrow> real list \<Rightarrow> chunk_progress \<Rightarrow> u64"
where
  "chunk_step g dt_ms utils ch =
     (let step = bytes_for_dt g (ch_edges ch) dt_ms utils; remain = ch_size ch - ch_sent ch
      in if remain < step then remain else step)"

definition advance_chunk ::
  "'s mover \<Rightarrow> graph_edge list option \<Rightarrow> real \<Rightarrow> real list \<Rightarrow> transfer_progress \<Rightarrow> chunk_progress \<Rightarrow>
   ('s, 'k) tick_env \<Rightarrow> chunk_progress \<times> ('s, 'k) tick_env"
where
  "advance_chunk mv g dt_ms utils tp ch env =
     (if ch_state ch \<noteq> InFlight then (ch, env)
      else if ch_size ch - ch_sent ch = 0 then (ch\<lparr>ch_state := Completed\<rparr>, env)
      else
        let step = chunk_step g dt_ms utils ch;
            env' = env\<lparr>te_wire := maybe_wire_chunk mv tp ch step (te_wire env),
                       te_bytes := te_bytes env + step\<rparr>;
            sent = ch_sent ch + step
        in if ch_size ch \<le> sent then (ch\<lparr>ch_sent := ch_size ch, ch_state := Completed\<rparr>, env')
           else (ch\<lparr>ch_sent := sent\<rparr>, env'))"

fun advance_chunks ::
  "'s mover \<Rightarrow> graph_edge list option \<Rightarrow> real \<Rightarrow> real list \<Rightarrow> transfer_progress \<Rightarrow>
   chunk_progress list \<Rightarrow> ('s, 'k) tick_env \<Rightarrow> chunk_progress list \<times> ('s, 'k) tick_env"
where
  "advance_chunks mv g dt_ms utils tp [] env = ([], env)"
| "advance_chunks mv g dt_ms utils tp (ch # chs) env =
     (let (ch', env1) = advance_chunk mv g dt_ms utils tp ch env;
          (chs', env2) = advance_chunks mv g dt_ms utils tp chs env1
      in (ch' # chs', env2))"

definition is_active :: "transfer_progress \<Rightarrow> bool" where
  "is_active tp \<longleftrightarrow> tp_state tp = InFlight \<or> tp_state tp = SuspendPending"

text \<open>The part of the body of \<open>tick\<close> after the chunks have advanced.\<close>

definition conclude_transfer ::
  "'k completion_fn \<Rightarrow> real \<Rightarrow> transfer_progress \<Rightarrow> ('s, 'k) tick_env \<Rightarrow>
   transfer_progress \<times> bool \<times> ('s, 'k) tick_env"
where
  "conclude_transfer cb now tp env =
     (let tp1 = refresh_aggregate tp;
          elapsed_us = (now - tp_started_ns tp1) / 1000;
          tp2 = tp1\<lparr>tp_slack_us := deadline_us (tp_request tp1) - elapsed_us\<rparr>
      in if tp_bytes_remaining tp2 = 0 then
           let tp3 = tp2\<lparr>tp_chunks := map (\<lambda>ch. ch\<lparr>ch_state := Completed\<rparr>) (tp_chunks tp2),
                         tp_suspend_at_boundary := False\<rparr>;
               (tp4, env') = complete_transfer cb tp3 env
           in (tp4, True, env')
         else if tp_suspend_at_boundary tp2 then
           if list_ex (\<lambda>ch. ch_state ch = InFlight) (tp_chunks tp2)
           then (tp2\<lparr>tp_state := SuspendPending\<rparr>, False, env)
           else (tp2\<lparr>tp_state := Paused, tp_suspend_at_boundary := False\<rparr>, False,
                 env\<lparr>te_suspends := te_suspends env + 1\<rparr>)
         else (tp2, False, env))"

definition tick_transfer ::
  "'s mover \<Rightarrow> 'k completion_fn \<Rightarrow> graph_edge list option \<Rightarrow> real \<Rightarrow> real list \<Rightarrow> real \<Rightarrow>
   transfer_progress \<Rightarrow> ('s, 'k) tick_env \<Rightarrow> transfer_progress \<times> bool \<times> ('s, 'k) tick_env"
where
  "tick_transfer mv cb g dt_ms utils now tp env =
     (if \<not> is_active tp then (tp, False, env)
      else
        let (chunks, env1) = advance_chunks mv g dt_ms utils tp (settle_chunks tp) env
        in conclude_transfer cb now (tp\<lparr>tp_chunks := chunks\<rparr>) env1)"

text \<open>The loop of \<open>tick\<close>; \<open>clock\<close> gives the time read while a transfer is processed.\<close>

fun tick_all ::
  "'s mover \<Rightarrow> 'k completion_fn \<Rightarrow> graph_edge list option \<Rightarrow> real \<Rightarrow> real list \<Rightarrow>
   (transfer_id \<Rightarrow> real) \<Rightarrow> (transfer_id \<times> transfer_progress) list \<Rightarrow> ('s, 'k) tick_env \<Rightarrow>
   transfer_id list \<times> (transfer_id \<times> transfer_progress) list \<times> ('s, 'k) tick_env"
where
  "tick_all mv cb g dt_ms utils clock [] env = ([], [], env)"
| "tick_all mv cb g dt_ms utils clock ((k, tp) # kvs) env =
     (let (tp', fin, env1) = tick_transfer mv cb g dt_ms utils (clock k) tp env;
          (done_ids, kvs', env2) = tick_all mv cb g dt_ms utils clock kvs env1
      in (if fin then tp_id tp' # done_ids else done_ids, (k, tp') # kvs', env2))"

definition env_of :: "executor \<Rightarrow> 's \<Rightarrow> 'k \<Rightarrow> ('s, 'k) tick_env" where
  "env_of ex s k = \<lparr>te_wire = s, te_bytes = ex_bytes_transferred ex,
     te_completed = ex_completed_count ex, te_suspends = ex_boundary_suspends ex, te_cb = k\<rparr>"

definition with_env ::
  "(transfer_id \<times> transfer_progress) list \<Rightarrow> ('s, 'k) tick_env \<Rightarrow> executor \<Rightarrow> executor"
where
  "with_env kvs env ex =
     ex\<lparr>ex_transfers := kvs, ex_completed_count := te_completed env,
        ex_bytes_transferred := te_bytes env, ex_boundary_suspends := te_suspends env\<rparr>"

text \<open>\<open>poll\<close> is the transport's completion poll, called once at the end of a tick.\<close>

definition tick ::
  "'s mover \<Rightarrow> ('s \<Rightarrow> 's) \<Rightarrow> 'k completion_fn \<Rightarrow> graph_edge list option \<Rightarrow> real \<Rightarrow> real list \<Rightarrow>
   (transfer_id \<Rightarrow> real) \<Rightarrow> executor \<Rightarrow> 's \<Rightarrow> 'k \<Rightarrow> transfer_id list \<times> executor \<times> 's \<times> 'k"
where
  "tick mv poll cb g dt_ms utils clock ex s k =
     (let (done_ids, kvs, env) =
            tick_all mv cb g dt_ms utils clock (ex_transfers ex) (env_of ex s k)
      in (done_ids, with_env kvs env ex, poll (te_wire env), te_cb env))"

text \<open>The instance the program runs: the ibverbs singleton, polled for 32 completions.\<close>

definition ib_poll32 :: "wire \<Rightarrow> wire" where
  "ib_poll32 w = (snd (ib_poll 32 (fst w)), snd w)"

definition ib_tick ::
  "'k completion_fn \<Rightarrow> graph_edge list option \<Rightarrow> real \<Rightarrow> real list \<Rightarrow> (transfer_id \<Rightarrow> real) \<Rightarrow>
   executor \<Rightarrow> wire \<Rightarrow> 'k \<Rightarrow> transfer_id list \<times> executor \<times> wire \<times> 'k"
where
  "ib_tick = tick ib_transfer_chunk ib_poll32"

section \<open>Drain\<close>

definition force_chunk ::
  "'s mover \<Rightarrow> transfer_progress \<Rightarrow> chunk_progress \<Rightarrow> ('s, 'k) tick_env \<Rightarrow>
   chunk_progress \<times> ('s, 'k) tick_env"
where
  "force_chunk mv tp ch env =
     (if ch_state ch \<noteq> InFlight then (ch, env)
      else
        let remain = ch_size ch - ch_sent ch
        in (ch\<lparr>ch_sent := ch_size ch, ch_state := Completed\<rparr>,
            env\<lparr>te_wire := maybe_wire_chunk mv tp ch remain (te_wire env),
                te_bytes := te_bytes env + remain\<rparr>))"

fun force_chunks ::
  "'s mover \<Rightarrow> transfer_progress \<Rightarrow> chunk_progress list \<Rightarrow> ('s, 'k) tick_env \<Rightarrow>
   chunk_progress list \<times> ('s, 'k) tick_env"
where
  "force_chunks mv tp [] env = ([], env)"
| "force_chunks mv tp (ch # chs) env =
     (let (ch', env1) = force_chunk mv tp ch env;
          (chs', env2) = force_chunks mv tp chs env1
      in (ch' # chs', env2))"

fun force_all ::
  "'s mover \<Rightarrow> 'k completion_fn \<Rightarrow> (transfer_id \<times> transfer_progress) list \<Rightarrow> ('s, 'k) tick_env \<Rightarrow>
   transfer_id list \<times> (transfer_id \<times> transfer_progress) list \<times> ('s, 'k) tick_env"
where
  "force_all mv cb [] env = ([], [], env)"
| "force_all mv cb ((k, tp) # kvs) env =
     (if \<not> is_active tp then
        let (done_ids, kvs', env') = force_all mv cb kvs env in (done_ids, (k, tp) # kvs', env')
      else
        let (chunks, env1) = force_chunks mv tp (tp_chunks tp) env;
            (tp', env2) = complete_transfer cb (refresh_aggregate (tp\<lparr>tp_chunks := chunks\<rparr>)) env1;
            (done_ids, kvs', env3) = force_all mv cb kvs env2
        in (tp_id tp' # done_ids, (k, tp') # kvs', env3))"

text \<open>
  \<open>drain_ready\<close> makes at most 10000 rounds; \<open>clock\<close> now also takes the number of rounds left.
  A round in which nothing completes forces every active transfer to completion and ends the loop.
\<close>

fun drain_loop ::
  "nat \<Rightarrow> 's mover \<Rightarrow> ('s \<Rightarrow> 's) \<Rightarrow> 'k completion_fn \<Rightarrow> graph_edge list option \<Rightarrow> real list \<Rightarrow>
   (nat \<Rightarrow> transfer_id \<Rightarrow> real) \<Rightarrow> executor \<Rightarrow> 's \<Rightarrow> 'k \<Rightarrow> transfer_id list \<times> executor \<times> 's \<times> 'k"
where
  "drain_loop 0 mv poll cb g utils clock ex s k = ([], ex, s, k)"
| "drain_loop (Suc n) mv poll cb g utils clock ex s k =
     (let (done_ids, ex1, s1, k1) = tick mv poll cb g 1 utils (clock n) ex s k
      in if \<not> list_ex (\<lambda>kv. is_active (snd kv)) (ex_transfers ex1) then (done_ids, ex1, s1, k1)
         else if done_ids = [] then
           let (forced, kvs, env) = force_all mv cb (ex_transfers ex1) (env_of ex1 s1 k1)
           in (forced, with_env kvs env ex1, te_wire env, te_cb env)
         else
           let (more, ex2, s2, k2) = drain_loop n mv poll cb g utils clock ex1 s1 k1
           in (done_ids @ more, ex2, s2, k2))"

definition drain_ready ::
  "'s mover \<Rightarrow> ('s \<Rightarrow> 's) \<Rightarrow> 'k completion_fn \<Rightarrow> graph_edge list option \<Rightarrow> real list \<Rightarrow>
   (nat \<Rightarrow> transfer_id \<Rightarrow> real) \<Rightarrow> executor \<Rightarrow> 's \<Rightarrow> 'k \<Rightarrow> transfer_id list \<times> executor \<times> 's \<times> 'k"
where
  "drain_ready = drain_loop 10000"

section \<open>Queries\<close>

definition get_transfer :: "transfer_id \<Rightarrow> executor \<Rightarrow> transfer_progress" where
  "get_transfer i ex =
     (case map_of (ex_transfers ex) i of None \<Rightarrow> default_progress | Some tp \<Rightarrow> tp)"

definition list_inflight :: "executor \<Rightarrow> transfer_progress list" where
  "list_inflight ex = filter is_active (map snd (ex_transfers ex))"

definition list_paused_kv :: "executor \<Rightarrow> transfer_progress list" where
  "list_paused_kv ex =
     filter (\<lambda>tp. tp_state tp = Paused \<and> tp_preemptible tp) (map snd (ex_transfers ex))"

end
