(* ===== verification/Executor_Inv.thy ===== *)
theory Executor_Inv
  imports Executor
begin

text \<open>
  The invariant of the transfer executor and its preservation by every operation: the bytes of a
  transfer are accounted for exactly, at most one chunk per InfiniBand rail is in flight, and the
  state of a transfer agrees with the states of its chunks and with its suspend flag.
  Reachable executors are those the operations build from the empty one.
\<close>

section \<open>The effect of a tick on one transfer, without the environment\<close>

text \<open>What advancing does to a chunk depends on neither the transport nor the counters.\<close>

definition advanced :: "graph_edge list option \<Rightarrow> real \<Rightarrow> real list \<Rightarrow> chunk_progress \<Rightarrow> chunk_progress" where
  "advanced g dt utils ch =
     (if ch_state ch \<noteq> InFlight then ch
      else if ch_size ch - ch_sent ch = 0 then ch\<lparr>ch_state := Completed\<rparr>
      else let sent = ch_sent ch + chunk_step g dt utils ch
           in if ch_size ch \<le> sent then ch\<lparr>ch_sent := ch_size ch, ch_state := Completed\<rparr>
              else ch\<lparr>ch_sent := sent\<rparr>)"

definition concluded :: "real \<Rightarrow> transfer_progress \<Rightarrow> transfer_progress" where
  "concluded now tp =
     (let tp2 = (refresh_aggregate tp)
            \<lparr>tp_slack_us := deadline_us (tp_request tp) - (now - tp_started_ns tp) / 1000\<rparr>
      in if tp_bytes_remaining tp2 = 0 then
           tp2\<lparr>tp_chunks := map (\<lambda>ch. ch\<lparr>ch_state := Completed\<rparr>) (tp_chunks tp2),
               tp_suspend_at_boundary := False, tp_state := Completed, tp_bytes_remaining := 0\<rparr>
         else if tp_suspend_at_boundary tp2 then
           if list_ex (\<lambda>ch. ch_state ch = InFlight) (tp_chunks tp2)
           then tp2\<lparr>tp_state := SuspendPending\<rparr>
           else tp2\<lparr>tp_state := Paused, tp_suspend_at_boundary := False\<rparr>
         else tp2)"

definition ticked ::
  "graph_edge list option \<Rightarrow> real \<Rightarrow> real list \<Rightarrow> real \<Rightarrow> transfer_progress \<Rightarrow> transfer_progress"
where
  "ticked g dt utils now tp =
     (if \<not> is_active tp then tp
      else concluded now (tp\<lparr>tp_chunks := map (advanced g dt utils) (settle_chunks tp)\<rparr>))"

lemma fst_advance_chunk [simp]: "fst (advance_chunk mv g dt utils tp ch env) = advanced g dt utils ch"
  by (simp add: advance_chunk_def advanced_def Let_def)

lemma fst_advance_chunks [simp]:
  "fst (advance_chunks mv g dt utils tp chs env) = map (advanced g dt utils) chs"
  by (induction chs arbitrary: env) (simp_all add: case_prod_unfold Let_def)

lemma fst_conclude [simp]: "fst (conclude_transfer cb now tp env) = concluded now tp"
  by (simp add: conclude_transfer_def concluded_def complete_transfer_def refresh_aggregate_def Let_def)

lemma fst_tick_transfer [simp]:
  "fst (tick_transfer mv cb g dt utils now tp env) = ticked g dt utils now tp"
  by (simp add: tick_transfer_def ticked_def case_prod_unfold Let_def)

lemma tick_all_transfers:
  "fst (snd (tick_all mv cb g dt utils clock kvs env)) =
   map (\<lambda>(k, tp). (k, ticked g dt utils (clock k) tp)) kvs"
  by (induction kvs arbitrary: env) (auto simp: case_prod_unfold Let_def)

section \<open>Invariants\<close>

definition chunk_inv :: "chunk_progress \<Rightarrow> bool" where
  "chunk_inv ch \<longleftrightarrow> ch_sent ch \<le> ch_size ch \<and> (ch_state ch = Completed \<longrightarrow> ch_sent ch = ch_size ch)"

definition total_size :: "chunk_progress list \<Rightarrow> nat" where
  "total_size chs = (\<Sum>ch \<leftarrow> chs. unat (ch_size ch))"

definition total_sent :: "chunk_progress list \<Rightarrow> nat" where
  "total_sent chs = (\<Sum>ch \<leftarrow> chs. unat (ch_sent ch))"

definition inflight_on :: "nat \<Rightarrow> chunk_progress list \<Rightarrow> nat" where
  "inflight_on s chs = length (filter (\<lambda>ch. ch_state ch = InFlight \<and> rail_slot (ch_rail ch) = s) chs)"

definition rails_exclusive :: "chunk_progress list \<Rightarrow> bool" where
  "rails_exclusive chs \<longleftrightarrow> (\<forall>s. inflight_on s chs \<le> 1)"

definition chunk_states_in :: "transfer_state set \<Rightarrow> chunk_progress list \<Rightarrow> bool" where
  "chunk_states_in S chs \<longleftrightarrow> (\<forall>ch \<in> set chs. ch_state ch \<in> S)"

text \<open>The chunk states a transfer in a given state can have.\<close>

fun states_agree :: "transfer_progress \<Rightarrow> bool" where
  "states_agree tp =
     (case tp_state tp of
        InFlight \<Rightarrow> \<not> tp_suspend_at_boundary tp \<and>
                    chunk_states_in {Pending, InFlight, Completed} (tp_chunks tp)
      | SuspendPending \<Rightarrow> tp_suspend_at_boundary tp \<and>
                    chunk_states_in {Pending, InFlight, Paused, Completed} (tp_chunks tp)
      | Paused \<Rightarrow> \<not> tp_suspend_at_boundary tp \<and>
                    chunk_states_in {Paused, Completed} (tp_chunks tp)
      | Completed \<Rightarrow> chunk_states_in {Completed} (tp_chunks tp)
      | Cancelled \<Rightarrow> chunk_states_in {Completed, Cancelled} (tp_chunks tp)
      | Pending \<Rightarrow> False
      | Rerouting \<Rightarrow> False)"

declare states_agree.simps [simp del]

definition accounted :: "transfer_progress \<Rightarrow> bool" where
  "accounted tp \<longleftrightarrow>
     (\<forall>ch \<in> set (tp_chunks tp). chunk_inv ch) \<and>
     total_size (tp_chunks tp) = unat (tp_bytes_total tp) \<and>
     unat (tp_bytes_sent tp) = total_sent (tp_chunks tp) \<and>
     (if tp_state tp = Cancelled then tp_bytes_remaining tp = 0
      else tp_bytes_remaining tp = tp_bytes_total tp - tp_bytes_sent tp) \<and>
     (tp_state tp = Completed \<longrightarrow> tp_bytes_sent tp = tp_bytes_total tp)"

definition tp_inv :: "transfer_progress \<Rightarrow> bool" where
  "tp_inv tp \<longleftrightarrow> accounted tp \<and> rails_exclusive (tp_chunks tp) \<and> states_agree tp"

section \<open>Sums\<close>

lemma total_sent_le_size: "(\<forall>ch \<in> set chs. chunk_inv ch) \<Longrightarrow> total_sent chs \<le> total_size chs"
  unfolding total_sent_def total_size_def
  by (rule sum_list_le_pointwise) (auto simp: chunk_inv_def word_le_nat_alt)

lemma all_sent:
  assumes "\<forall>ch \<in> set chs. chunk_inv ch" and "total_size chs \<le> total_sent chs" and "ch \<in> set chs"
  shows "ch_sent ch = ch_size ch"
proof -
  have "unat (ch_sent ch) = unat (ch_size ch)"
    using assms unfolding total_sent_def total_size_def
    by (intro sum_list_eq_pointwise [where xs = chs]) (auto simp: chunk_inv_def word_le_nat_alt)
  then show ?thesis by (simp add: word_unat_eq_iff)
qed

lemma sum_sent_exact:
  assumes "\<forall>ch \<in> set chs. chunk_inv ch" and "total_size chs = unat (n :: u64)"
  shows "unat (sum_list (map ch_sent chs)) = total_sent chs"
proof -
  have "total_sent chs < 2 ^ 64"
    using total_sent_le_size [OF assms(1)] assms(2) unat_u64_less [of n] by linarith
  then show ?thesis
    using unat_sum_list [of "map ch_sent chs"] by (simp add: total_sent_def comp_def)
qed

section \<open>One chunk\<close>

lemma advanced_fields [frame_simps, simp]:
  "ch_size (advanced g dt utils ch) = ch_size ch"
  "ch_offset (advanced g dt utils ch) = ch_offset ch"
  "ch_rail (advanced g dt utils ch) = ch_rail ch"
  "ch_edges (advanced g dt utils ch) = ch_edges ch"
  by (simp_all add: advanced_def Let_def)

lemma chunk_step_le: "chunk_step g dt utils ch \<le> ch_size ch - ch_sent ch"
  by (auto simp: chunk_step_def Let_def)

lemma chunk_step_exact:
  assumes "ch_sent ch \<le> ch_size ch"
  shows "unat (ch_sent ch + chunk_step g dt utils ch) =
           unat (ch_sent ch) + unat (chunk_step g dt utils ch)"
    and "ch_sent ch + chunk_step g dt utils ch \<le> ch_size ch"
proof -
  have step: "unat (chunk_step g dt utils ch) \<le> unat (ch_size ch) - unat (ch_sent ch)"
    using chunk_step_le [of g dt utils ch] unat_minus_le [OF assms] by (simp add: word_le_nat_alt)
  have sent: "unat (ch_sent ch) \<le> unat (ch_size ch)" using assms by (simp add: word_le_nat_alt)
  then have "unat (ch_sent ch) + unat (chunk_step g dt utils ch) \<le> unat (ch_size ch)"
    using step by linarith
  moreover from this have "unat (ch_sent ch) + unat (chunk_step g dt utils ch) < 2 ^ LENGTH(64)"
    using unat_u64_less [of "ch_size ch"] by simp
  ultimately show "unat (ch_sent ch + chunk_step g dt utils ch) =
           unat (ch_sent ch) + unat (chunk_step g dt utils ch)"
    and "ch_sent ch + chunk_step g dt utils ch \<le> ch_size ch"
    by (simp_all add: unat_add_exact word_le_nat_alt)
qed

lemma advanced_sent:
  assumes "chunk_inv ch"
  shows "ch_sent (advanced g dt utils ch) =
         (if ch_state ch = InFlight \<and> ch_sent ch \<noteq> ch_size ch
          then ch_sent ch + chunk_step g dt utils ch else ch_sent ch)"
proof -
  have "ch_sent ch + chunk_step g dt utils ch \<le> ch_size ch"
    using assms by (intro chunk_step_exact) (simp add: chunk_inv_def)
  then show ?thesis
    by (auto simp: advanced_def Let_def)
qed

lemma advanced_inv: "chunk_inv ch \<Longrightarrow> chunk_inv (advanced g dt utils ch)"
  using chunk_step_exact(2) [of ch g dt utils]
  by (auto simp: advanced_def chunk_inv_def Let_def)

lemma advanced_sent_mono: "chunk_inv ch \<Longrightarrow> ch_sent ch \<le> ch_sent (advanced g dt utils ch)"
  using chunk_step_exact(1) [of ch g dt utils]
  by (auto simp: advanced_sent chunk_inv_def word_le_nat_alt)

lemma advanced_state:
  "ch_state (advanced g dt utils ch) = ch_state ch \<or>
   ch_state ch = InFlight \<and> ch_state (advanced g dt utils ch) = Completed"
  by (auto simp: advanced_def Let_def)

section \<open>Chunk lists\<close>

lemma inflight_on_simps [simp]:
  "inflight_on s [] = 0"
  "inflight_on s (ch # chs) =
     (if ch_state ch = InFlight \<and> rail_slot (ch_rail ch) = s then 1 else 0) + inflight_on s chs"
  by (simp_all add: inflight_on_def)

lemma totals_simps [simp]:
  "total_size [] = 0" "total_size (ch # chs) = unat (ch_size ch) + total_size chs"
  "total_sent [] = 0" "total_sent (ch # chs) = unat (ch_sent ch) + total_sent chs"
  by (simp_all add: total_size_def total_sent_def)

lemma rail_slot_less: "rail_slot r < kIbRailCount"
  by (simp add: rail_slot_def kIbRailCount_def nat_less_iff)

text \<open>Operations that change only the states, edges and rails of chunks keep the byte counts.\<close>

lemma totals_map:
  "(\<And>ch. ch_size (f ch) = ch_size ch) \<Longrightarrow> total_size (map f chs) = total_size chs"
  "(\<And>ch. ch_sent (f ch) = ch_sent ch) \<Longrightarrow> total_sent (map f chs) = total_sent chs"
  by (simp_all add: total_size_def total_sent_def comp_def)

lemma promote_totals [simp]:
  "total_size (promote busy chs) = total_size chs" "total_sent (promote busy chs) = total_sent chs"
  by (induction busy chs rule: promote.induct) (simp_all add: Let_def)

lemma in_promote:
  "ch \<in> set (promote busy chs) \<Longrightarrow>
   \<exists>c \<in> set chs. ch = c \<or> ch_state c = Pending \<and> ch = c\<lparr>ch_state := InFlight\<rparr>"
proof (induction busy chs rule: promote.induct)
  case (1 busy)
  then show ?case by simp
next
  case (2 busy c chs)
  show ?case
  proof (cases "ch_state c = Pending \<and> \<not> busy ! rail_slot (ch_rail c)")
    case True
    with 2 show ?thesis by (auto simp: Let_def)
  next
    case False
    with "2.prems" have "ch = c \<or> ch \<in> set (promote busy chs)" by (auto simp: Let_def)
    with False "2.IH"(2) [OF refl] show ?thesis by auto
  qed
qed

lemma promote_inv: "\<forall>ch \<in> set chs. chunk_inv ch \<Longrightarrow> \<forall>ch \<in> set (promote busy chs). chunk_inv ch"
  by (auto simp: chunk_inv_def dest!: in_promote)

lemma promote_states:
  "chunk_states_in S chs \<Longrightarrow> chunk_states_in (insert InFlight S) (promote busy chs)"
  by (auto simp: chunk_states_in_def dest!: in_promote)

lemma promote_inflight:
  "length busy = kIbRailCount \<Longrightarrow>
   inflight_on s (promote busy chs) \<le> inflight_on s chs + (if s < kIbRailCount \<and> \<not> busy ! s then 1 else 0)"
proof (induction busy chs rule: promote.induct)
  case (1 busy)
  then show ?case by simp
next
  case (2 busy ch chs)
  show ?case
  proof (cases "ch_state ch = Pending \<and> \<not> busy ! rail_slot (ch_rail ch)")
    case True
    with 2 show ?thesis
      using rail_slot_less [of "ch_rail ch"] by (auto simp: Let_def nth_list_update)
  next
    case False
    with 2 show ?thesis by (auto simp: Let_def)
  qed
qed

lemma rails_busy_length [simp]: "length (rails_busy busy chs) = length busy"
  by (induction busy chs rule: rails_busy.induct) simp_all

lemma rails_busy_nth:
  "length busy = kIbRailCount \<Longrightarrow> s < kIbRailCount \<Longrightarrow>
   rails_busy busy chs ! s \<longleftrightarrow> busy ! s \<or> 0 < inflight_on s chs"
  by (induction busy chs rule: rails_busy.induct)
    (auto simp: nth_list_update rail_slot_less)

lemma park_totals [simp]:
  "total_size (map park_chunk chs) = total_size chs" "total_sent (map park_chunk chs) = total_sent chs"
  by (rule totals_map, simp add: park_chunk_def)+

lemma inflight_map_le:
  assumes "\<And>ch. ch_state (f ch) = InFlight \<Longrightarrow> ch_state ch = InFlight \<and> ch_rail (f ch) = ch_rail ch"
  shows "inflight_on s (map f chs) \<le> inflight_on s chs"
  using assms by (induction chs) auto

lemma rails_exclusive_map:
  assumes "rails_exclusive chs"
    and "\<And>ch. ch_state (f ch) = InFlight \<Longrightarrow> ch_state ch = InFlight \<and> ch_rail (f ch) = ch_rail ch"
  shows "rails_exclusive (map f chs)"
  using assms(1) inflight_map_le [where f = f, OF assms(2)] unfolding rails_exclusive_def
  by (meson le_trans)

lemma settle_totals [simp]:
  "total_size (settle_chunks tp) = total_size (tp_chunks tp)"
  "total_sent (settle_chunks tp) = total_sent (tp_chunks tp)"
  by (simp_all add: settle_chunks_def)

lemma settle_inv:
  "\<forall>ch \<in> set (tp_chunks tp). chunk_inv ch \<Longrightarrow> \<forall>ch \<in> set (settle_chunks tp). chunk_inv ch"
  by (auto simp: settle_chunks_def promote_inv) (auto simp: park_chunk_def chunk_inv_def)

lemma settle_exclusive:
  assumes "rails_exclusive (tp_chunks tp)"
  shows "rails_exclusive (settle_chunks tp)"
proof (cases "tp_suspend_at_boundary tp")
  case True
  then show ?thesis
    using assms by (simp add: settle_chunks_def)
      (rule rails_exclusive_map, auto simp: park_chunk_def split: if_splits)
next
  case False
  let ?busy = "rails_busy (replicate kIbRailCount False) (tp_chunks tp)"
  have "inflight_on s (promote ?busy (tp_chunks tp)) \<le> 1" for s
  proof -
    have "inflight_on s (tp_chunks tp) \<le> 1" using assms by (simp add: rails_exclusive_def)
    moreover have "s < kIbRailCount \<Longrightarrow> \<not> ?busy ! s \<Longrightarrow> inflight_on s (tp_chunks tp) = 0"
      by (simp add: rails_busy_nth)
    ultimately show ?thesis
      using promote_inflight [of ?busy s "tp_chunks tp"] by (auto split: if_splits)
  qed
  with False show ?thesis by (simp add: settle_chunks_def rails_exclusive_def)
qed

lemma advanced_list_size [simp]: "total_size (map (advanced g dt utils) chs) = total_size chs"
  by (rule totals_map) simp

lemma advanced_inflight: "ch_state (advanced g dt utils ch) = InFlight \<Longrightarrow> ch_state ch = InFlight"
  using advanced_state [of g dt utils ch] by auto

lemma advanced_list_exclusive:
  "rails_exclusive chs \<Longrightarrow> rails_exclusive (map (advanced g dt utils) chs)"
  by (rule rails_exclusive_map) (simp_all add: advanced_inflight)

lemma advanced_list_sent_mono:
  "\<forall>ch \<in> set chs. chunk_inv ch \<Longrightarrow> total_sent chs \<le> total_sent (map (advanced g dt utils) chs)"
  by (induction chs) (auto simp: advanced_sent_mono word_le_nat_alt [symmetric] intro!: add_mono)

section \<open>A tick keeps the invariant\<close>

lemma refresh_exact:
  assumes "\<forall>ch \<in> set (tp_chunks tp). chunk_inv ch"
    and "total_size (tp_chunks tp) = unat (tp_bytes_total tp)"
  shows "unat (tp_bytes_sent (refresh_aggregate tp)) = total_sent (tp_chunks tp)"
    and "tp_bytes_remaining (refresh_aggregate tp) = tp_bytes_total tp - tp_bytes_sent (refresh_aggregate tp)"
    and "tp_bytes_sent (refresh_aggregate tp) \<le> tp_bytes_total tp"
proof -
  show u: "unat (tp_bytes_sent (refresh_aggregate tp)) = total_sent (tp_chunks tp)"
    using sum_sent_exact [OF assms] by (simp add: refresh_aggregate_def Let_def)
  show le: "tp_bytes_sent (refresh_aggregate tp) \<le> tp_bytes_total tp"
    using u total_sent_le_size [OF assms(1)] assms(2) by (simp add: word_le_nat_alt)
  show "tp_bytes_remaining (refresh_aggregate tp) =
      tp_bytes_total tp - tp_bytes_sent (refresh_aggregate tp)"
    using le by (auto simp: refresh_aggregate_def Let_def)
qed

lemma refresh_fields [simp]:
  "tp_chunks (refresh_aggregate tp) = tp_chunks tp"
  "tp_bytes_total (refresh_aggregate tp) = tp_bytes_total tp"
  "tp_suspend_at_boundary (refresh_aggregate tp) = tp_suspend_at_boundary tp"
  "tp_state (refresh_aggregate tp) = tp_state tp"
  "tp_id (refresh_aggregate tp) = tp_id tp"
  "tp_request (refresh_aggregate tp) = tp_request tp"
  "tp_src_buf (refresh_aggregate tp) = tp_src_buf tp"
  "tp_dst_buf (refresh_aggregate tp) = tp_dst_buf tp"
  by (simp_all add: refresh_aggregate_def Let_def)

text \<open>Completion is reported exactly when every byte of every chunk has been sent.\<close>

lemma concluded_completes_iff:
  assumes "\<forall>ch \<in> set (tp_chunks tp). chunk_inv ch"
    and "total_size (tp_chunks tp) = unat (tp_bytes_total tp)" and "is_active tp"
  shows "tp_state (concluded now tp) = Completed \<longleftrightarrow>
         total_sent (tp_chunks tp) = unat (tp_bytes_total tp)"
proof -
  have "tp_bytes_remaining (refresh_aggregate tp) = 0 \<longleftrightarrow>
      tp_bytes_sent (refresh_aggregate tp) = tp_bytes_total tp"
    unfolding refresh_exact(2) [OF assms(1,2)] by auto
  also have "\<dots> \<longleftrightarrow> total_sent (tp_chunks tp) = unat (tp_bytes_total tp)"
    using refresh_exact(1) [OF assms(1,2)] by (simp add: word_unat_eq_iff)
  finally have "tp_bytes_remaining (refresh_aggregate tp) = 0 \<longleftrightarrow>
      total_sent (tp_chunks tp) = unat (tp_bytes_total tp)" .
  with assms(3) show ?thesis
    by (auto simp: concluded_def Let_def is_active_def)
qed

lemma concluded_inv:
  assumes chunks: "\<forall>ch \<in> set (tp_chunks tp). chunk_inv ch"
    and size: "total_size (tp_chunks tp) = unat (tp_bytes_total tp)"
    and rails: "rails_exclusive (tp_chunks tp)" and "is_active tp"
    and agree: "if tp_suspend_at_boundary tp
                then chunk_states_in {InFlight, Paused, Completed} (tp_chunks tp)
                else tp_state tp = InFlight \<and>
                     chunk_states_in {Pending, InFlight, Completed} (tp_chunks tp)"
  shows "tp_inv (concluded now tp)"
proof (cases "tp_bytes_remaining (refresh_aggregate tp) = 0")
  case True
  note ex = refresh_exact [OF chunks size]
  have full: "tp_bytes_sent (refresh_aggregate tp) = tp_bytes_total tp"
    using True ex(2) by simp
  then have "total_size (tp_chunks tp) \<le> total_sent (tp_chunks tp)" using ex(1) size by simp
  then have "\<forall>ch \<in> set (tp_chunks tp). ch_sent ch = ch_size ch" using all_sent [OF chunks] by blast
  moreover have "rails_exclusive (map (\<lambda>ch. ch\<lparr>ch_state := Completed\<rparr>) (tp_chunks tp))"
    by (rule rails_exclusive_map [OF rails]) simp
  ultimately show ?thesis
    using True full ex(1) size
    by (auto simp: concluded_def tp_inv_def accounted_def states_agree.simps chunk_states_in_def
        chunk_inv_def totals_map Let_def)
next
  case False
  note ex = refresh_exact [OF chunks size]
  with False show ?thesis
    using assms
    by (auto simp: concluded_def tp_inv_def accounted_def states_agree.simps chunk_states_in_def
        is_active_def list_ex_iff Let_def)
qed

lemma settle_states:
  assumes "states_agree tp" and "is_active tp"
  shows "if tp_suspend_at_boundary tp
         then chunk_states_in {InFlight, Paused, Completed} (settle_chunks tp)
         else tp_state tp = InFlight \<and> chunk_states_in {Pending, InFlight, Completed} (settle_chunks tp)"
proof (cases "tp_suspend_at_boundary tp")
  case True
  with assms show ?thesis
    by (auto simp: states_agree.simps is_active_def settle_chunks_def chunk_states_in_def park_chunk_def)
next
  case False
  with assms have st: "tp_state tp = InFlight" "chunk_states_in {Pending, InFlight, Completed} (tp_chunks tp)"
    by (auto simp: states_agree.simps is_active_def)
  then show ?thesis
    using False promote_states [OF st(2)] by (simp add: settle_chunks_def insert_commute)
qed

lemma advanced_states_in:
  assumes "chunk_states_in S chs" and "Completed \<in> S"
  shows "chunk_states_in S (map (advanced g dt utils) chs)"
  unfolding chunk_states_in_def
proof
  fix ch' assume "ch' \<in> set (map (advanced g dt utils) chs)"
  then obtain ch where "ch \<in> set chs" "ch' = advanced g dt utils ch" by auto
  then show "ch_state ch' \<in> S"
    using assms advanced_state [of g dt utils ch] by (auto simp: chunk_states_in_def)
qed

lemma ticked_inv [wf_intros]:
  assumes "tp_inv tp"
  shows "tp_inv (ticked g dt utils now tp)"
proof (cases "is_active tp")
  case False
  with assms show ?thesis by (simp add: ticked_def)
next
  case True
  let ?chs = "map (advanced g dt utils) (settle_chunks tp)"
  have parts: "\<forall>ch \<in> set (tp_chunks tp). chunk_inv ch"
      "total_size (tp_chunks tp) = unat (tp_bytes_total tp)" "rails_exclusive (tp_chunks tp)"
      "states_agree tp"
    using assms by (auto simp: tp_inv_def accounted_def)
  have "tp_inv (concluded now (tp\<lparr>tp_chunks := ?chs\<rparr>))"
  proof (rule concluded_inv)
    show "\<forall>ch \<in> set (tp_chunks (tp\<lparr>tp_chunks := ?chs\<rparr>)). chunk_inv ch"
      using settle_inv [OF parts(1)] by (auto intro: advanced_inv)
    show "rails_exclusive (tp_chunks (tp\<lparr>tp_chunks := ?chs\<rparr>))"
      using settle_exclusive [OF parts(3)] by (simp add: advanced_list_exclusive)
  qed (use parts True settle_states [OF parts(4) True] in
      \<open>auto simp: is_active_def intro!: advanced_states_in split: if_splits\<close>)
  with True show ?thesis by (simp add: ticked_def)
qed

section \<open>The other operations on one transfer\<close>

lemma mark_suspend_inv [wf_intros]: "tp_inv tp \<Longrightarrow> is_active tp \<Longrightarrow> tp_inv (mark_suspend tp)"
  by (auto simp: mark_suspend_def tp_inv_def accounted_def states_agree.simps is_active_def
      chunk_states_in_def)

lemma cancel_inv [wf_intros]:
  assumes "tp_inv tp"
  shows "tp_inv (tp\<lparr>tp_state := Cancelled, tp_bytes_remaining := 0,
                    tp_chunks := map cancel_chunk (tp_chunks tp)\<rparr>)"
proof -
  have "rails_exclusive (map cancel_chunk (tp_chunks tp))"
    by (rule rails_exclusive_map) (use assms in \<open>auto simp: tp_inv_def cancel_chunk_def split: if_splits\<close>)
  moreover have "total_size (map cancel_chunk chs) = total_size chs"
      "total_sent (map cancel_chunk chs) = total_sent chs" for chs
    by (rule totals_map, simp add: cancel_chunk_def)+
  ultimately show ?thesis
    using assms
    by (auto simp: tp_inv_def accounted_def states_agree.simps chunk_states_in_def cancel_chunk_def
        chunk_inv_def)
qed

lemma reroute_chunk_totals [simp]:
  "total_size (map (reroute_chunk es r) chs) = total_size chs"
  "total_sent (map (reroute_chunk es r) chs) = total_sent chs"
  by (rule totals_map, simp add: reroute_chunk_def)+

lemma reroute_chunk_not_inflight: "ch_state (reroute_chunk es r ch) \<noteq> InFlight"
  by (simp add: reroute_chunk_def)

lemma inflight_on_none: "\<forall>ch \<in> set chs. ch_state ch \<noteq> InFlight \<Longrightarrow> inflight_on s chs = 0"
  by (induction chs) auto

lemma promote_fresh_exclusive:
  assumes "\<forall>ch \<in> set chs. ch_state ch \<noteq> InFlight"
  shows "rails_exclusive (promote (replicate kIbRailCount False) chs)"
  unfolding rails_exclusive_def
proof
  fix s
  show "inflight_on s (promote (replicate kIbRailCount False) chs) \<le> 1"
    using promote_inflight [of "replicate kIbRailCount False" s chs] inflight_on_none [OF assms, of s]
    by (simp split: if_splits)
qed

lemma reroute_chunk_inv: "chunk_inv ch \<Longrightarrow> chunk_inv (reroute_chunk es r ch)"
  by (auto simp: chunk_inv_def reroute_chunk_def split: if_splits)

lemma reroute_fields [simp]:
  "tp_id (reroute_transfer g path tp) = tp_id tp"
  "tp_state (reroute_transfer g path tp) = InFlight"
  "tp_suspend_at_boundary (reroute_transfer g path tp) = False"
  "tp_bytes_total (reroute_transfer g path tp) = tp_bytes_total tp"
  "tp_bytes_sent (reroute_transfer g path tp) = tp_bytes_sent tp"
  "tp_bytes_remaining (reroute_transfer g path tp) = tp_bytes_remaining tp"
  "tp_chunks (reroute_transfer g path tp) = promote (replicate kIbRailCount False)
     (map (reroute_chunk (edge_indices path) (rail_of_path g (edge_indices path))) (tp_chunks tp))"
  by (simp_all add: reroute_transfer_def Let_def)

lemma reroute_inv [wf_intros]:
  assumes inv: "tp_inv tp" and st: "tp_state tp \<in> {Paused, Rerouting, InFlight, SuspendPending}"
  shows "tp_inv (reroute_transfer g path tp)"
proof -
  let ?chs = "map (reroute_chunk (edge_indices path) (rail_of_path g (edge_indices path))) (tp_chunks tp)"
  have agree: "states_agree tp" and acc: "accounted tp" using inv by (simp_all add: tp_inv_def)
  have "chunk_states_in {Pending, Paused, InFlight, Completed} (tp_chunks tp)"
    using agree st by (auto simp: states_agree.simps chunk_states_in_def)
  then have "chunk_states_in {Pending, Completed} ?chs"
    by (auto simp: chunk_states_in_def reroute_chunk_def)
  from promote_states [OF this, of "replicate kIbRailCount False"]
  have "states_agree (reroute_transfer g path tp)"
    by (simp add: states_agree.simps insert_commute)
  moreover have "\<forall>ch \<in> set (promote (replicate kIbRailCount False) ?chs). chunk_inv ch"
    using acc by (intro promote_inv) (auto simp: accounted_def reroute_chunk_inv)
  then have "accounted (reroute_transfer g path tp)"
    using acc st by (auto simp: accounted_def)
  moreover have "rails_exclusive (tp_chunks (reroute_transfer g path tp))"
    unfolding reroute_fields by (rule promote_fresh_exclusive) (auto simp: reroute_chunk_not_inflight)
  ultimately show ?thesis by (simp add: tp_inv_def)
qed

lemma stripe_chunks_inflight:
  "length busy = kIbRailCount \<Longrightarrow>
   inflight_on s (stripe_chunks g cs off busy) \<le> (if s < kIbRailCount \<and> \<not> busy ! s then 1 else 0)"
proof (induction g cs off busy rule: stripe_chunks.induct)
  case (1 g off busy)
  then show ?case by simp
next
  case (2 g c cs off busy)
  define rail where "rail = (if 0 \<le> ck_rail c then ck_rail c else rail_of_path g (ck_edges c))"
  have "inflight_on s (stripe_chunks g cs (off + ck_size c) (busy[rail_slot rail := True]))
      \<le> (if s < kIbRailCount \<and> \<not> busy[rail_slot rail := True] ! s then 1 else 0)"
    using 2 by (simp add: rail_def)
  with "2.prems" show ?case
    using rail_slot_less [of rail] by (auto simp: Let_def rail_def [symmetric] nth_list_update split: if_splits)
qed

definition chunks_cover :: "transfer_request \<Rightarrow> chunk_path list \<Rightarrow> bool" where
  "chunks_cover req cs \<longleftrightarrow> (\<Sum>c \<leftarrow> cs. unat (ck_size c)) = unat (size_bytes req)"

lemma stripe_chunks_totals [simp]:
  "total_size (stripe_chunks g cs off busy) = (\<Sum>c \<leftarrow> cs. unat (ck_size c))"
  "total_sent (stripe_chunks g cs off busy) = 0"
  by (induction g cs off busy rule: stripe_chunks.induct) (simp_all add: Let_def)

lemma in_stripe_chunks:
  "ch \<in> set (stripe_chunks g cs off busy) \<Longrightarrow> ch_sent ch = 0 \<and> ch_state ch \<in> {InFlight, Pending}"
  by (induction g cs off busy rule: stripe_chunks.induct) (auto simp: Let_def)

section \<open>The executor\<close>

definition exec_inv :: "executor \<Rightarrow> bool" where
  "exec_inv ex \<longleftrightarrow>
     distinct (map fst (ex_transfers ex)) \<and>
     (\<forall>(k, tp) \<in> set (ex_transfers ex). tp_id tp = k \<and> tp_inv tp)"

lemma exec_inv_update:
  "exec_inv ex \<Longrightarrow> tp_inv tp \<Longrightarrow> tp_id tp = i \<Longrightarrow>
   exec_inv (ex\<lparr>ex_transfers := AList.update i tp (ex_transfers ex)\<rparr>)"
  using set_update_subset [of i tp "ex_transfers ex"]
  by (fastforce simp: exec_inv_def distinct_keys_update)

lemma exec_inv_lookup:
  "exec_inv ex \<Longrightarrow> map_of (ex_transfers ex) i = Some tp \<Longrightarrow> tp_id tp = i \<and> tp_inv tp"
  by (fastforce simp: exec_inv_def dest: map_of_SomeD)

text \<open>The invariant looks at the table only.\<close>

lemma exec_inv_counters [simp]:
  "exec_inv (ex\<lparr>ex_next_id := a\<rparr>) = exec_inv ex"
  "exec_inv (ex\<lparr>ex_preempt_count := a\<rparr>) = exec_inv ex"
  "exec_inv (ex\<lparr>ex_reroute_count := a\<rparr>) = exec_inv ex"
  by (simp_all add: exec_inv_def)

lemma submit_inv [wf_intros]: "exec_inv ex \<Longrightarrow> exec_inv (snd (submit g now req path opts ex))"
proof -
  assume ex: "exec_inv ex"
  have "rails_exclusive [ch]" for ch by (simp add: rails_exclusive_def)
  then show ?thesis
    unfolding submit_def Let_def snd_conv
    by (intro exec_inv_update [of "ex\<lparr>ex_next_id := _\<rparr>", simplified] ex)
      (simp_all add: tp_inv_def accounted_def states_agree.simps chunk_states_in_def chunk_inv_def
        default_progress_def)
qed

lemma submit_striped_inv [wf_intros]:
  assumes ex: "exec_inv ex" and cover: "chunks_cover req cs"
  shows "exec_inv (snd (submit_striped g now req cs opts ex))"
proof (cases cs)
  case Nil
  then show ?thesis using ex by (simp add: submit_striped_def submit_inv)
next
  case (Cons c rest)
  let ?chs = "stripe_chunks g cs 0 (replicate kIbRailCount False)"
  define tp where "tp = default_progress\<lparr>tp_id := ex_next_id ex, tp_state := InFlight, tp_request := req,
      tp_path_edges := fold (\<lambda>c acc. add_edges acc (ck_edges c)) cs [],
      tp_bytes_total := size_bytes req, tp_bytes_sent := 0,
      tp_bytes_remaining := size_bytes req, tp_slack_us := deadline_us req,
      tp_started_ns := now, tp_preemptible := (traffic req = KVMigration),
      tp_src_buf := so_src_buf opts, tp_dst_buf := so_dst_buf opts,
      tp_chunk_quantum := (if 0 < ck_size c then ck_size c else kKvChunkBytes),
      tp_chunks := ?chs, tp_active_chunk := 0\<rparr>"
  have "inflight_on s ?chs \<le> 1" for s
    using stripe_chunks_inflight [of "replicate kIbRailCount False" s g cs 0] by (simp split: if_splits)
  moreover have "\<forall>ch \<in> set ?chs. chunk_inv ch" "chunk_states_in {Pending, InFlight, Completed} ?chs"
    using in_stripe_chunks by (fastforce simp: chunk_inv_def chunk_states_in_def)+
  ultimately have "tp_inv tp"
    using cover by (simp add: tp_def tp_inv_def accounted_def rails_exclusive_def states_agree.simps
        default_progress_def chunks_cover_def)
  moreover have "snd (submit_striped g now req cs opts ex) =
      ex\<lparr>ex_next_id := ex_next_id ex + 1,
         ex_transfers := AList.update (ex_next_id ex) tp (ex_transfers ex)\<rparr>"
    by (simp add: submit_striped_def Cons tp_def Let_def)
  ultimately show ?thesis
    using exec_inv_update [of "ex\<lparr>ex_next_id := ex_next_id ex + 1\<rparr>" tp "ex_next_id ex"] ex
    by (simp add: tp_def)
qed

lemma pause_inv [wf_intros]: "exec_inv ex \<Longrightarrow> exec_inv (snd (pause i ex))"
  by (auto simp: pause_def put_transfer_def is_active_def mark_suspend_def [THEN arg_cong, of tp_id]
      split: option.split dest: exec_inv_lookup intro!: exec_inv_update wf_intros)

lemma cancel_exec_inv [wf_intros]: "exec_inv ex \<Longrightarrow> exec_inv (snd (cancel i ex))"
  by (auto simp: cancel_def put_transfer_def split: option.split dest: exec_inv_lookup
      intro!: exec_inv_update wf_intros)

lemma reroute_exec_inv [wf_intros]: "exec_inv ex \<Longrightarrow> exec_inv (snd (reroute g i path ex))"
  by (auto simp: reroute_def put_transfer_def split: option.split dest: exec_inv_lookup
      intro!: exec_inv_update wf_intros)

end
