(* ===== verification/Executor_Drain.thy ===== *)
theory Executor_Drain
  imports Executor_Inv
begin

text \<open>
  The operations that work on every entry of the table: a tick, and \<open>drain_ready\<close>, which ticks and may
  end by forcing the transfers that are left.  Forcing a transfer all of whose unfinished chunks are in
  flight does what a tick long enough for every chunk would do; with a chunk that waits it does not,
  and then the accounting breaks.
\<close>

section \<open>A tick on the whole table\<close>

text \<open>An operation that maps every entry of the table keeps the invariant if each entry does.\<close>

lemma exec_inv_map:
  assumes "exec_inv ex"
    and "\<And>k tp. (k, tp) \<in> set (ex_transfers ex) \<Longrightarrow> tp_inv tp \<Longrightarrow> tp_inv (f k tp) \<and> tp_id (f k tp) = tp_id tp"
  shows "exec_inv (ex\<lparr>ex_transfers := map (\<lambda>(k, tp). (k, f k tp)) (ex_transfers ex)\<rparr>)"
proof -
  have "map fst (map (\<lambda>(k, tp). (k, f k tp)) kvs) = map fst kvs" for kvs
    by (induction kvs) auto
  then show ?thesis using assms unfolding exec_inv_def by (fastforce simp del: map_map)
qed

lemma lookup_mapped:
  "map_of (map (\<lambda>(k, v). (k, f k v)) kvs) i = map_option (f i) (map_of kvs i)"
  by (induction kvs) auto

lemma concluded_id [simp]: "tp_id (concluded now tp) = tp_id tp"
  by (simp add: concluded_def Let_def)

lemma ticked_id [simp]: "tp_id (ticked g dt utils now tp) = tp_id tp"
  by (simp add: ticked_def)

lemma tick_transfers:
  "ex_transfers (fst (snd (tick mv poll cb g dt utils clock ex s k))) =
   map (\<lambda>(i, tp). (i, ticked g dt utils (clock i) tp)) (ex_transfers ex)"
  by (simp add: tick_def with_env_def case_prod_unfold Let_def tick_all_transfers)

lemma ib_tick_transfers:
  "ex_transfers (fst (snd (ib_tick cb g dt utils clock ex w k))) =
     map (\<lambda>(i, tp). (i, ticked g dt utils (clock i) tp)) (ex_transfers ex)"
  by (simp add: ib_tick_def tick_transfers)

lemma exec_inv_table: "ex_transfers ex = ex_transfers ex' \<Longrightarrow> exec_inv ex = exec_inv ex'"
  by (simp add: exec_inv_def)

lemma tick_inv [wf_intros]:
  assumes "exec_inv ex"
  shows "exec_inv (fst (snd (tick mv poll cb g dt utils clock ex s k)))"
proof -
  have "exec_inv (ex\<lparr>ex_transfers := map (\<lambda>(i, tp). (i, ticked g dt utils (clock i) tp)) (ex_transfers ex)\<rparr>)"
    by (rule exec_inv_map [OF assms]) (simp add: ticked_inv)
  then show ?thesis
    by (rule iffD1 [OF exec_inv_table, rotated]) (simp add: tick_transfers)
qed

lemma conclude_wire [simp]: "te_wire (snd (snd (conclude_transfer cb now tp env))) = te_wire env"
  by (simp add: conclude_transfer_def complete_transfer_def Let_def)

lemma tick_transfer_wire:
  "te_wire (snd (snd (tick_transfer mv cb g dt utils now tp env))) =
     (if is_active tp then te_wire (snd (advance_chunks mv g dt utils tp (settle_chunks tp) env))
      else te_wire env)"
  by (simp add: tick_transfer_def case_prod_unfold Let_def)

lemma with_env_transfers [simp]: "ex_transfers (with_env kvs env ex) = kvs"
  by (simp add: with_env_def)

section \<open>Forcing a transfer is a tick long enough for all of it\<close>

text \<open>A time in which, at a gigabyte per second, \<open>2 ^ 64 - 1\<close> bytes are sent.\<close>

definition all_dt :: real where
  "all_dt = (2 ^ 64 - 1) / 10 ^ 6"

lemma chunk_step_all [simp]: "chunk_step None all_dt utils ch = ch_size ch - ch_sent ch"
proof -
  have "bytes_for_dt None (ch_edges ch) all_dt utils = - 1"
    by (simp add: bytes_for_dt_def bottleneck_gbps_def all_dt_def u64_of_real_def)
  then show ?thesis using word_order.not_eq_extremum [of "ch_size ch - ch_sent ch"] by (auto simp: chunk_step_def Let_def)
qed

lemma force_chunk_advances: "force_chunk mv tp ch env = advance_chunk mv None all_dt [] tp ch env"
proof (cases "ch_size ch - ch_sent ch = 0")
  case True
  then have "ch_sent ch = ch_size ch" by simp
  then show ?thesis by (simp add: force_chunk_def advance_chunk_def maybe_wire_chunk_def)
next
  case False
  then show ?thesis by (simp add: force_chunk_def advance_chunk_def Let_def)
qed

lemma force_chunks_advance: "force_chunks mv tp chs env = advance_chunks mv None all_dt [] tp chs env"
  by (induction chs arbitrary: env) (simp_all add: force_chunk_advances)

definition forced :: "transfer_progress \<Rightarrow> transfer_progress" where
  "forced tp =
     (if is_active tp
      then (refresh_aggregate (tp\<lparr>tp_chunks := map (advanced None all_dt []) (tp_chunks tp)\<rparr>))
             \<lparr>tp_state := Completed, tp_bytes_remaining := 0\<rparr>
      else tp)"

lemma force_all_transfers:
  "fst (snd (force_all mv cb kvs env)) = map (\<lambda>(k, tp). (k, forced tp)) kvs"
  by (induction kvs arbitrary: env)
    (auto simp: case_prod_unfold Let_def forced_def force_chunks_advance complete_transfer_def)

text \<open>A transfer none of whose chunks waits for its rail, if it is active.\<close>

definition flowing :: "transfer_progress \<Rightarrow> bool" where
  "flowing tp \<longleftrightarrow> (is_active tp \<longrightarrow> (\<forall>ch \<in> set (tp_chunks tp). ch_state ch \<in> {InFlight, Completed}))"

definition all_flowing :: "executor \<Rightarrow> bool" where
  "all_flowing ex \<longleftrightarrow> (\<forall>(i, tp) \<in> set (ex_transfers ex). flowing tp)"

lemma promote_none: "\<forall>ch \<in> set chs. ch_state ch \<noteq> Pending \<Longrightarrow> promote busy chs = chs"
  by (induction busy chs rule: promote.induct) (auto simp: Let_def)

lemma flowing_settle:
  assumes "flowing tp" and "is_active tp"
  shows "settle_chunks tp = tp_chunks tp"
proof -
  have "\<forall>ch \<in> set (tp_chunks tp). ch_state ch \<in> {InFlight, Completed}"
    using assms by (simp add: flowing_def)
  then show ?thesis
    by (auto simp: settle_chunks_def park_chunk_def intro!: promote_none map_idI)
qed

lemma ticked_flowing:
  assumes "flowing tp"
  shows "flowing (ticked g dt utils now tp)"
proof (cases "is_active tp")
  case True
  have "ch_state (advanced g dt utils ch) \<in> {InFlight, Completed}" if "ch \<in> set (tp_chunks tp)" for ch
    using advanced_state [of g dt utils ch] assms True that by (auto simp: flowing_def)
  then have "\<forall>ch \<in> set (map (advanced g dt utils) (settle_chunks tp)). ch_state ch \<in> {InFlight, Completed}"
    by (simp add: flowing_settle [OF assms True])
  then show ?thesis
    using True by (auto simp: ticked_def flowing_def concluded_def Let_def)
qed (use assms in \<open>simp add: ticked_def\<close>)

lemma forced_ticked:
  assumes inv: "tp_inv tp" and "flowing tp" and active: "is_active tp"
  shows "forced tp = (ticked None all_dt [] now tp)
    \<lparr>tp_slack_us := tp_slack_us tp, tp_suspend_at_boundary := tp_suspend_at_boundary tp\<rparr>"
proof -
  let ?chs = "map (advanced None all_dt []) (tp_chunks tp)"
  let ?tp = "tp\<lparr>tp_chunks := ?chs\<rparr>"
  have parts: "\<forall>ch \<in> set (tp_chunks tp). chunk_inv ch" "total_size (tp_chunks tp) = unat (tp_bytes_total tp)"
    using inv by (simp_all add: tp_inv_def accounted_def)
  have full: "ch_sent ch = ch_size ch \<and> ch_state ch = Completed" if "ch \<in> set ?chs" for ch
    using that assms(2) active parts(1) by (auto simp: flowing_def advanced_def chunk_inv_def Let_def)
  have "total_sent ?chs = total_size ?chs"
    unfolding total_sent_def total_size_def using full by (intro arg_cong [where f = sum_list] map_cong) auto
  then have total: "total_sent (tp_chunks ?tp) = unat (tp_bytes_total ?tp)" using parts(2) by simp
  have chunks: "\<forall>ch \<in> set (tp_chunks ?tp). chunk_inv ch" "total_size (tp_chunks ?tp) = unat (tp_bytes_total ?tp)"
    using parts by (auto intro: advanced_inv)
  have "tp_bytes_sent (refresh_aggregate ?tp) = tp_bytes_total tp"
    using refresh_exact(1) [OF chunks] total by (simp add: word_unat_eq_iff)
  then have zero: "tp_bytes_remaining (refresh_aggregate ?tp) = 0"
    by (simp add: refresh_aggregate_def Let_def)
  have "map (\<lambda>ch. ch\<lparr>ch_state := Completed\<rparr>) ?chs = ?chs" using full by (intro map_idI) auto
  moreover have "tp_chunks (refresh_aggregate ?tp) = ?chs" "tp_slack_us (refresh_aggregate ?tp) = tp_slack_us tp"
    "tp_suspend_at_boundary (refresh_aggregate ?tp) = tp_suspend_at_boundary tp"
    by (simp_all add: refresh_aggregate_def Let_def)
  ultimately show ?thesis
    using active zero flowing_settle [OF assms(2) active]
    by (simp add: forced_def ticked_def concluded_def Let_def del: map_map map_eq_conv)
qed

lemma forced_inv:
  assumes "tp_inv tp" and "flowing tp"
  shows "tp_inv (forced tp)"
proof (cases "is_active tp")
  case True
  note eq = forced_ticked [OF assms True, of 0]
  have "tp_state (forced tp) = Completed" using True by (simp add: forced_def)
  with ticked_inv [OF assms(1), of None all_dt "[]" 0] show ?thesis
    by (auto simp: eq tp_inv_def accounted_def states_agree.simps)
qed (use assms in \<open>simp add: forced_def\<close>)

lemma forced_same [simp]:
  "tp_id (forced tp) = tp_id tp" "tp_bytes_total (forced tp) = tp_bytes_total tp"
  "tp_request (forced tp) = tp_request tp" "tp_preemptible (forced tp) = tp_preemptible tp"
  "tp_src_buf (forced tp) = tp_src_buf tp" "tp_dst_buf (forced tp) = tp_dst_buf tp"
  by (simp_all add: forced_def refresh_aggregate_def Let_def)

lemma forced_chunks:
  assumes "tp_inv tp" and "flowing tp"
  shows "tp_chunks (forced tp) = tp_chunks (ticked None all_dt [] now tp)"
proof (cases "is_active tp")
  case True
  show ?thesis by (simp add: forced_ticked [OF assms True, of now])
qed (simp add: forced_def ticked_def)

lemma forced_flowing [simp]: "flowing (forced tp)"
  by (simp add: forced_def flowing_def is_active_def)

text \<open>The transport sees the same calls.\<close>

lemma advance_chunks_wire_cong:
  "te_wire env1 = te_wire env2 \<Longrightarrow>
   te_wire (snd (advance_chunks mv g dt utils tp chs env1)) = te_wire (snd (advance_chunks mv g dt utils tp chs env2))"
proof (induction chs arbitrary: env1 env2)
  case (Cons ch chs)
  have "te_wire (snd (advance_chunk mv g dt utils tp ch env1)) = te_wire (snd (advance_chunk mv g dt utils tp ch env2))"
    using Cons.prems by (simp add: advance_chunk_def Let_def)
  from Cons.IH [OF this] show ?case by (simp add: case_prod_unfold Let_def)
qed simp

lemma force_all_wire:
  assumes "\<forall>(k, tp) \<in> set kvs. flowing tp" and "te_wire env1 = te_wire env2"
  shows "te_wire (snd (snd (force_all mv cb kvs env1))) =
    te_wire (snd (snd (tick_all mv cb None all_dt [] clock kvs env2)))"
  using assms
proof (induction kvs arbitrary: env1 env2)
  case (Cons kv kvs)
  obtain k tp where kv: "kv = (k, tp)" by (cases kv)
  let ?env1 = "if is_active tp then snd (complete_transfer cb (refresh_aggregate
      (tp\<lparr>tp_chunks := fst (force_chunks mv tp (tp_chunks tp) env1)\<rparr>)) (snd (force_chunks mv tp (tp_chunks tp) env1))) else env1"
  let ?env2 = "snd (snd (tick_transfer mv cb None all_dt [] (clock k) tp env2))"
  have "te_wire ?env1 = te_wire ?env2"
    using Cons.prems flowing_settle [of tp] advance_chunks_wire_cong [OF Cons.prems(2)]
    by (simp add: kv tick_transfer_wire force_chunks_advance complete_transfer_def Let_def)
  from Cons.IH [OF _ this] Cons.prems(1) show ?case
    by (cases "is_active tp") (simp_all add: kv case_prod_unfold Let_def)
qed simp

section \<open>What a drain is made of\<close>

definition force_world ::
  "'s mover \<Rightarrow> 'k completion_fn \<Rightarrow> executor \<times> 's \<times> 'k \<Rightarrow> executor \<times> 's \<times> 'k"
where
  "force_world mv cb c =
     (let (ex, s, k) = c; (ids, kvs, env) = force_all mv cb (ex_transfers ex) (env_of ex s k)
      in (with_env kvs env ex, te_wire env, te_cb env))"

lemma force_world_table [simp]:
  "ex_transfers (fst (force_world mv cb c)) = map (\<lambda>(k, tp). (k, forced tp)) (ex_transfers (fst c))"
  "ex_next_id (fst (force_world mv cb c)) = ex_next_id (fst c)"
  by (simp_all add: force_world_def case_prod_unfold Let_def force_all_transfers) (simp add: with_env_def)

text \<open>What ticks and forcing keep, a drain keeps.\<close>

lemma drain_loop_rule:
  assumes "P (ex, s, k)"
    and tick: "\<And>clock ex s k. P (ex, s, k) \<Longrightarrow> P (snd (tick mv poll cb g 1 utils clock ex s k))"
    and force: "\<And>c. P c \<Longrightarrow> P (force_world mv cb c)"
  shows "P (snd (drain_loop n mv poll cb g utils clock ex s k))"
  using assms(1)
proof (induction n arbitrary: ex s k)
  case (Suc n)
  obtain ids ex1 s1 k1 where t: "tick mv poll cb g 1 utils (clock n) ex s k = (ids, ex1, s1, k1)"
    by (rule prod_cases4)
  have P1: "P (ex1, s1, k1)" using tick [OF Suc.prems, of "clock n"] by (simp add: t)
  from force [OF this] Suc.IH [OF this] P1 show ?case
    by (simp add: t force_world_def case_prod_unfold Let_def)
qed simp

lemmas drain_ready_rule = drain_loop_rule [where n = 10000, folded drain_ready_def]

lemma all_flowing_map:
  "all_flowing ex \<Longrightarrow> ex_transfers ex' = map (\<lambda>(k, tp). (k, f k tp)) (ex_transfers ex) \<Longrightarrow>
   (\<And>k tp. flowing tp \<Longrightarrow> flowing (f k tp)) \<Longrightarrow> all_flowing ex'"
  unfolding all_flowing_def by fastforce

lemma tick_flowing: "all_flowing ex \<Longrightarrow> all_flowing (fst (snd (tick mv poll cb g dt utils clock ex s k)))"
  by (erule all_flowing_map [OF _ tick_transfers]) (rule ticked_flowing)

lemma force_flowing: "all_flowing (fst (force_world mv cb c))"
  by (auto simp: all_flowing_def)

lemma force_inv:
  assumes "exec_inv (fst c)" and "all_flowing (fst c)"
  shows "exec_inv (fst (force_world mv cb c))"
proof -
  have "exec_inv ((fst c)\<lparr>ex_transfers := map (\<lambda>(k, tp). (k, forced tp)) (ex_transfers (fst c))\<rparr>)"
    by (rule exec_inv_map [OF assms(1)]) (use assms(2) in \<open>auto simp: all_flowing_def intro: forced_inv\<close>)
  then show ?thesis by (rule iffD1 [OF exec_inv_table, rotated]) simp
qed

lemma drain_inv [wf_intros]:
  assumes "exec_inv ex" and "all_flowing ex"
  shows "exec_inv (fst (snd (drain_ready mv poll cb g utils clock ex s k)))"
proof -
  let ?P = "\<lambda>c. exec_inv (fst c) \<and> all_flowing (fst c)"
  have "?P (snd (drain_ready mv poll cb g utils clock ex s k))"
  proof (rule drain_ready_rule [where P = ?P])
    show "?P (ex, s, k)" using assms by simp
    show "?P (snd (tick mv poll cb g 1 utils clock ex s k))" if "?P (ex, s, k)" for clock ex s k
      using that by (simp add: tick_inv tick_flowing)
    show "?P (force_world mv cb c)" if "?P c" for c using that force_inv force_flowing by blast
  qed
  then show ?thesis by simp
qed

end
