(* ===== verification/Executor_Steps.thy ===== *)
theory Executor_Steps
  imports Executor_Drain
begin

text \<open>
  The executor as a state machine: a step is one call of one of its operations on the transport
  singleton the program runs with, and the reachable worlds are what any sequence of calls, in any
  order, builds from a fresh executor.  The invariant of \<open>Executor_Inv\<close> holds in all of them.
  \<open>drain_ready\<close> is one of them as long as no active transfer has a chunk that waits for its rail; with
  such a chunk it breaks the invariant, as the end of \<open>Executor_Props\<close> shows.
\<close>

section \<open>Preemption and tick on the whole table\<close>

lemma mark_suspend_fields [simp]:
  "tp_id (mark_suspend tp) = tp_id tp" "tp_state (mark_suspend tp) = SuspendPending"
  "tp_chunks (mark_suspend tp) = tp_chunks tp" "tp_bytes_sent (mark_suspend tp) = tp_bytes_sent tp"
  by (simp_all add: mark_suspend_def)

definition preempt_chosen :: "edge_path \<Rightarrow> nat \<Rightarrow> executor \<Rightarrow> (transfer_id \<times> transfer_progress) list" where
  "preempt_chosen busy n ex =
     take n (sort_key (\<lambda>kv. - tp_slack_us (snd kv))
               (filter (\<lambda>kv. preempt_hit busy (snd kv)) (ex_transfers ex)))"

lemma preempt_sharing_alt:
  "preempt_sharing busy n ex =
     (map (\<lambda>kv. tp_id (snd kv)) (preempt_chosen busy n ex),
      ex\<lparr>ex_transfers := map (\<lambda>(k, tp). (k, if k \<in> fst ` set (preempt_chosen busy n ex)
                                          then mark_suspend tp else tp)) (ex_transfers ex),
         ex_preempt_count := ex_preempt_count ex + of_nat (length (preempt_chosen busy n ex))\<rparr>)"
  by (simp add: preempt_sharing_def preempt_chosen_def Let_def)

lemma preempt_chosen_hit:
  "kv \<in> set (preempt_chosen busy n ex) \<Longrightarrow> kv \<in> set (ex_transfers ex) \<and> preempt_hit busy (snd kv)"
  unfolding preempt_chosen_def by (drule in_set_takeD) simp

lemma exec_inv_key_unique:
  "exec_inv ex \<Longrightarrow> (k, a) \<in> set (ex_transfers ex) \<Longrightarrow> (k, b) \<in> set (ex_transfers ex) \<Longrightarrow> a = b"
  by (auto simp: exec_inv_def dest: eq_key_imp_eq_value)

lemma preempt_inv [wf_intros]: "exec_inv ex \<Longrightarrow> exec_inv (snd (preempt_sharing busy n ex))"
proof -
  assume ex: "exec_inv ex"
  let ?f = "\<lambda>k tp. if k \<in> fst ` set (preempt_chosen busy n ex) then mark_suspend tp else tp"
  have "exec_inv (ex\<lparr>ex_transfers := map (\<lambda>(k, tp). (k, ?f k tp)) (ex_transfers ex)\<rparr>)"
  proof (rule exec_inv_map [OF ex])
    fix k tp assume kv: "(k, tp) \<in> set (ex_transfers ex)" "tp_inv tp"
    have "is_active tp" if "k \<in> fst ` set (preempt_chosen busy n ex)"
    proof -
      from that obtain tp' where "(k, tp') \<in> set (preempt_chosen busy n ex)" by force
      with preempt_chosen_hit [OF this] exec_inv_key_unique [OF ex kv(1), of tp'] show ?thesis
        by (auto simp: preempt_hit_def is_active_def)
    qed
    with kv show "tp_inv (?f k tp) \<and> tp_id (?f k tp) = tp_id tp" by (auto intro: mark_suspend_inv)
  qed
  then show ?thesis by (simp add: preempt_sharing_alt)
qed

text \<open>What a tick reports: the ids of the transfers it brought to completion, in table order.\<close>

lemma tick_transfer_done:
  "fst (snd (tick_transfer mv cb g dt utils now tp env)) \<longleftrightarrow>
   is_active tp \<and> tp_state (ticked g dt utils now tp) = Completed"
  by (auto simp: tick_transfer_def ticked_def conclude_transfer_def concluded_def case_prod_unfold
      is_active_def complete_transfer_def refresh_aggregate_def Let_def)

lemma tick_all_done:
  "fst (tick_all mv cb g dt utils clock kvs env) =
   map (\<lambda>(k, tp). tp_id tp)
     (filter (\<lambda>(k, tp). is_active tp \<and> tp_state (ticked g dt utils (clock k) tp) = Completed) kvs)"
  by (induction kvs arbitrary: env) (auto simp: case_prod_unfold Let_def tick_transfer_done)

lemma tick_done:
  "fst (tick mv poll cb g dt utils clock ex s k) =
   map (\<lambda>(i, tp). tp_id tp)
     (filter (\<lambda>(i, tp). is_active tp \<and> tp_state (ticked g dt utils (clock i) tp) = Completed)
       (ex_transfers ex))"
  by (simp add: tick_def case_prod_unfold Let_def tick_all_done)

section \<open>Steps\<close>

text \<open>
  A world is the executor, the transport with the memory it moves bytes in, and the state of the
  completion callback.  \<open>submit_striped\<close> needs chunks that cover the request exactly, which is what
  the path engine's striping produces; the other calls take any argument.
\<close>

type_synonym 'k world = "executor \<times> wire \<times> 'k"

inductive exec_step :: "graph_edge list option \<Rightarrow> 'k completion_fn \<Rightarrow> 'k world \<Rightarrow> 'k world \<Rightarrow> bool"
  for g cb where
  step_submit: "exec_step g cb (ex, w, k) (snd (submit g now req path opts ex), w, k)"
| step_striped: "chunks_cover req cs \<Longrightarrow>
    exec_step g cb (ex, w, k) (snd (submit_striped g now req cs opts ex), w, k)"
| step_pause: "exec_step g cb (ex, w, k) (snd (pause i ex), w, k)"
| step_cancel: "exec_step g cb (ex, w, k) (snd (cancel i ex), w, k)"
| step_preempt: "exec_step g cb (ex, w, k) (snd (preempt_sharing busy n ex), w, k)"
| step_reroute: "exec_step g cb (ex, w, k) (snd (reroute g i path ex), w, k)"
| step_tick: "exec_step g cb (ex, w, k) (snd (ib_tick cb g dt utils clock ex w k))"
| step_drain: "all_flowing ex \<Longrightarrow>
    exec_step g cb (ex, w, k) (snd (drain_ready ib_transfer_chunk ib_poll32 cb g utils clock ex w k))"

inductive reachable :: "graph_edge list option \<Rightarrow> 'k completion_fn \<Rightarrow> 'k world \<Rightarrow> bool"
  for g cb where
  reach_fresh: "reachable g cb (executor_fresh, w, k)"
| reach_step: "reachable g cb c \<Longrightarrow> exec_step g cb c c' \<Longrightarrow> reachable g cb c'"

lemma executor_fresh_inv: "exec_inv executor_fresh"
  by (simp add: exec_inv_def executor_fresh_def)

lemma exec_step_inv: "exec_step g cb c c' \<Longrightarrow> exec_inv (fst c) \<Longrightarrow> exec_inv (fst c')"
  by (induction rule: exec_step.induct) (simp_all add: wf_intros ib_tick_def)

lemma reachable_inv: "reachable g cb c \<Longrightarrow> exec_inv (fst c)"
  by (induction rule: reachable.induct) (auto simp: executor_fresh_inv intro: exec_step_inv)

lemma reachable_lookup:
  "reachable g cb c \<Longrightarrow> map_of (ex_transfers (fst c)) i = Some tp \<Longrightarrow> tp_id tp = i \<and> tp_inv tp"
  by (rule exec_inv_lookup [OF reachable_inv])

section \<open>How one transfer evolves\<close>

text \<open>The moves of the life cycle; \<open>Completed\<close> and \<open>Cancelled\<close> are left only by \<open>cancel\<close>.\<close>

fun next_states :: "transfer_state \<Rightarrow> transfer_state set" where
  "next_states InFlight = {InFlight, SuspendPending, Completed, Cancelled}"
| "next_states SuspendPending = {SuspendPending, Paused, InFlight, Completed, Cancelled}"
| "next_states Paused = {Paused, InFlight, Cancelled}"
| "next_states Completed = {Completed, Cancelled}"
| "next_states Cancelled = {Cancelled}"
| "next_states Pending = {}"
| "next_states Rerouting = {}"

definition evolves :: "transfer_progress \<Rightarrow> transfer_progress \<Rightarrow> bool" where
  "evolves tp tp' \<longleftrightarrow>
     tp_state tp' \<in> next_states (tp_state tp) \<and> tp_bytes_sent tp \<le> tp_bytes_sent tp' \<and>
     tp_id tp' = tp_id tp \<and> tp_bytes_total tp' = tp_bytes_total tp \<and>
     tp_request tp' = tp_request tp \<and> tp_preemptible tp' = tp_preemptible tp \<and>
     tp_src_buf tp' = tp_src_buf tp \<and> tp_dst_buf tp' = tp_dst_buf tp"

named_theorems evolves_intros

lemma tp_inv_settled_state: "tp_inv tp \<Longrightarrow> tp_state tp \<noteq> Pending \<and> tp_state tp \<noteq> Rerouting"
  by (auto simp: tp_inv_def states_agree.simps split: transfer_state.splits)

lemma evolves_refl [evolves_intros]: "tp_inv tp \<Longrightarrow> evolves tp tp"
  using tp_inv_settled_state [of tp] by (cases "tp_state tp") (auto simp: evolves_def)

lemma mark_suspend_evolves [evolves_intros]: "is_active tp \<Longrightarrow> evolves tp (mark_suspend tp)"
  by (auto simp: evolves_def mark_suspend_def is_active_def)

lemma cancel_evolves [evolves_intros]:
  "tp_inv tp \<Longrightarrow> evolves tp (tp\<lparr>tp_state := Cancelled, tp_bytes_remaining := r, tp_chunks := chs\<rparr>)"
  using tp_inv_settled_state [of tp] by (cases "tp_state tp") (auto simp: evolves_def)

lemma reroute_evolves [evolves_intros]:
  "tp_inv tp \<Longrightarrow> tp_state tp \<in> {Paused, Rerouting, InFlight, SuspendPending} \<Longrightarrow>
   evolves tp (reroute_transfer g path tp)"
  using tp_inv_settled_state [of tp]
  by (auto simp: evolves_def) (auto simp: reroute_transfer_def Let_def)

lemma concluded_fields [simp]:
  "tp_bytes_total (concluded now tp) = tp_bytes_total tp"
  "tp_request (concluded now tp) = tp_request tp"
  "tp_preemptible (concluded now tp) = tp_preemptible tp"
  "tp_src_buf (concluded now tp) = tp_src_buf tp"
  "tp_dst_buf (concluded now tp) = tp_dst_buf tp"
  "tp_bytes_sent (concluded now tp) = tp_bytes_sent (refresh_aggregate tp)"
  by (simp_all add: concluded_def refresh_aggregate_def Let_def)

lemma ticked_fields [simp]:
  "tp_bytes_total (ticked g dt utils now tp) = tp_bytes_total tp"
  "tp_request (ticked g dt utils now tp) = tp_request tp"
  "tp_preemptible (ticked g dt utils now tp) = tp_preemptible tp"
  "tp_src_buf (ticked g dt utils now tp) = tp_src_buf tp"
  "tp_dst_buf (ticked g dt utils now tp) = tp_dst_buf tp"
  by (simp_all add: ticked_def)

lemma ticked_sent_mono:
  assumes "tp_inv tp"
  shows "tp_bytes_sent tp \<le> tp_bytes_sent (ticked g dt utils now tp)"
proof (cases "is_active tp")
  case True
  have chs: "\<forall>ch \<in> set (settle_chunks tp). chunk_inv ch"
    using assms by (intro settle_inv) (simp add: tp_inv_def accounted_def)
  from advanced_list_sent_mono [OF this]
  have "total_sent (tp_chunks tp) \<le> total_sent (map (advanced g dt utils) (settle_chunks tp))" by simp
  moreover have "unat (tp_bytes_sent tp) = total_sent (tp_chunks tp)"
    using assms by (simp add: tp_inv_def accounted_def)
  moreover have "tp_inv (ticked g dt utils now tp)" using assms by (rule ticked_inv)
  moreover have "unat (tp_bytes_sent (ticked g dt utils now tp)) =
      total_sent (map (advanced g dt utils) (settle_chunks tp))"
    unfolding ticked_def using True chs advanced_inv assms
    by (simp, subst refresh_exact(1)) (auto simp: tp_inv_def accounted_def)
  ultimately show ?thesis by (simp add: word_le_nat_alt)
qed (simp add: ticked_def)

lemma ticked_evolves [evolves_intros]:
  assumes "tp_inv tp"
  shows "evolves tp (ticked g dt utils now tp)"
proof -
  have "tp_state (ticked g dt utils now tp) \<in> next_states (tp_state tp)"
    using assms tp_inv_settled_state [OF assms]
    by (cases "tp_state tp")
      (auto simp: ticked_def is_active_def concluded_def refresh_aggregate_def tp_inv_def
        states_agree.simps Let_def)
  with ticked_sent_mono [OF assms] show ?thesis by (simp add: evolves_def)
qed

text \<open>What the rounds of a drain make of a transfer.\<close>

inductive drained :: "graph_edge list option \<Rightarrow> transfer_progress \<Rightarrow> transfer_progress \<Rightarrow> bool"
  for g tp where
  dr_start: "drained g tp tp"
| dr_tick: "drained g tp tp' \<Longrightarrow> drained g tp (ticked g 1 utils now tp')"
| dr_force: "drained g tp tp' \<Longrightarrow> flowing tp' \<Longrightarrow> drained g tp (forced tp')"

text \<open>A transfer in flight is not parked by ticks; a suspending one may be.\<close>

definition settles :: "transfer_state \<Rightarrow> transfer_state \<Rightarrow> bool" where
  "settles s s' \<longleftrightarrow> s' = s \<or> s' = Completed \<or> s = SuspendPending \<and> s' = Paused"

lemma ticked_settles: "tp_inv tp \<Longrightarrow> settles (tp_state tp) (tp_state (ticked g dt utils now tp))"
  by (auto simp: settles_def ticked_def concluded_def refresh_aggregate_def tp_inv_def
      states_agree.simps is_active_def Let_def)

lemma forced_evolves [evolves_intros]:
  assumes "tp_inv tp" and "flowing tp"
  shows "evolves tp (forced tp)"
proof (cases "is_active tp")
  case True
  have "tp_bytes_sent (forced tp) = tp_bytes_sent (ticked None all_dt [] 0 tp)"
    by (simp add: forced_ticked [OF assms True, of 0])
  moreover have "tp_state (forced tp) = Completed" using True by (simp add: forced_def)
  ultimately show ?thesis
    using True ticked_sent_mono [OF assms(1)] by (auto simp: evolves_def is_active_def)
qed (simp add: forced_def evolves_refl [OF assms(1)])

lemma evolves_trans:
  "evolves tp tp' \<Longrightarrow> evolves tp' tp'' \<Longrightarrow> tp_state tp' = tp_state tp \<Longrightarrow> evolves tp tp''"
  by (auto simp: evolves_def intro: order_trans)

lemma drained_sound:
  assumes "drained g tp tp'" and "tp_inv tp"
  shows "tp_inv tp' \<and> evolves tp tp' \<and> settles (tp_state tp) (tp_state tp')"
  using assms
proof (induction rule: drained.induct)
  case dr_start
  then show ?case by (simp add: evolves_refl settles_def)
next
  case (dr_tick tp' utils now)
  show ?case
  proof (cases "is_active tp'")
    case True
    then have "tp_state tp' = tp_state tp" using dr_tick by (auto simp: settles_def is_active_def)
    then show ?thesis
      using dr_tick evolves_trans [OF _ ticked_evolves] ticked_inv ticked_settles by metis
  qed (use dr_tick in \<open>simp add: ticked_def\<close>)
next
  case (dr_force tp')
  show ?case
  proof (cases "is_active tp'")
    case True
    then have "tp_state tp' = tp_state tp" using dr_force by (auto simp: settles_def is_active_def)
    moreover have "tp_state (forced tp') = Completed" using True by (simp add: forced_def)
    ultimately show ?thesis
      using dr_force evolves_trans [OF _ forced_evolves] forced_inv by (simp add: settles_def)
  qed (use dr_force in \<open>simp add: forced_def\<close>)
qed

lemma drained_settles: "drained g tp tp' \<Longrightarrow> tp_inv tp \<Longrightarrow> settles (tp_state tp) (tp_state tp')"
  by (drule (1) drained_sound) simp

lemma drained_buffers:
  "drained g tp tp' \<Longrightarrow> tp_src_buf tp' = tp_src_buf tp \<and> tp_dst_buf tp' = tp_dst_buf tp \<and>
     tp_bytes_total tp' = tp_bytes_total tp"
  by (induction rule: drained.induct) simp_all

section \<open>Looking a transfer up after an operation\<close>

lemma lookup_put [simp]:
  "map_of (ex_transfers (put_transfer j tp ex)) i =
   (if i = j then Some tp else map_of (ex_transfers ex) i)"
  by (simp add: put_transfer_def update_conv')

lemma lookup_submit:
  "i \<noteq> ex_next_id ex \<Longrightarrow>
   map_of (ex_transfers (snd (submit g now req path opts ex))) i = map_of (ex_transfers ex) i"
  by (simp add: submit_def update_conv' Let_def)

lemma lookup_submit_striped:
  "i \<noteq> ex_next_id ex \<Longrightarrow>
   map_of (ex_transfers (snd (submit_striped g now req cs opts ex))) i = map_of (ex_transfers ex) i"
  by (cases cs) (simp_all add: submit_striped_def lookup_submit update_conv' Let_def)

lemma lookup_drain:
  assumes "all_flowing ex" and "map_of (ex_transfers ex) i = Some tp"
  shows "\<exists>tp'. map_of (ex_transfers (fst (snd (drain_ready mv poll cb g utils clock ex s k)))) i = Some tp' \<and>
    drained g tp tp'"
proof -
  let ?P = "\<lambda>c. all_flowing (fst c) \<and>
    (\<exists>tp'. map_of (ex_transfers (fst c)) i = Some tp' \<and> drained g tp tp')"
  have "?P (snd (drain_ready mv poll cb g utils clock ex s k))"
  proof (rule drain_ready_rule [where P = ?P])
    show "?P (ex, s, k)" using assms by (auto intro: dr_start)
    show "?P (snd (tick mv poll cb g 1 utils clock ex s k))" if P: "?P (ex, s, k)" for clock ex s k
    proof -
      from P obtain tp' where "map_of (ex_transfers ex) i = Some tp'" "drained g tp tp'" by auto
      then show ?thesis
        using P by (auto simp: tick_flowing tick_transfers lookup_mapped intro: dr_tick)
    qed
    show "?P (force_world mv cb c)" if P: "?P c" for c
    proof -
      from P obtain tp' where tp': "map_of (ex_transfers (fst c)) i = Some tp'" "drained g tp tp'" by auto
      then have "flowing tp'" using P map_of_SomeD [OF tp'(1)] by (auto simp: all_flowing_def)
      with tp' show ?thesis by (auto simp: force_flowing lookup_mapped intro: dr_force)
    qed
  qed
  then show ?thesis by simp
qed

text \<open>What a call other than \<open>tick\<close> and \<open>drain_ready\<close> can do to one transfer.\<close>

inductive transfer_call :: "graph_edge list option \<Rightarrow> transfer_progress \<Rightarrow> transfer_progress \<Rightarrow> bool"
  for g where
  tc_keep: "transfer_call g tp tp"
| tc_suspend: "is_active tp \<Longrightarrow> transfer_call g tp (mark_suspend tp)"
| tc_cancel: "transfer_call g tp (tp\<lparr>tp_state := Cancelled, tp_bytes_remaining := 0,
    tp_chunks := map cancel_chunk (tp_chunks tp)\<rparr>)"
| tc_reroute: "tp_state tp \<in> {Paused, Rerouting, InFlight, SuspendPending} \<Longrightarrow>
    transfer_call g tp (reroute_transfer g path tp)"

lemma transfer_call_evolves: "transfer_call g tp tp' \<Longrightarrow> tp_inv tp \<Longrightarrow> evolves tp tp'"
  by (induction rule: transfer_call.induct) (auto intro: evolves_intros)

lemma exec_step_transfer:
  assumes "exec_step g cb (ex, w, k) c'" and inv: "exec_inv ex"
    and tp: "map_of (ex_transfers ex) i = Some tp" and free: "i \<noteq> ex_next_id ex"
  shows "\<exists>tp'. map_of (ex_transfers (fst c')) i = Some tp' \<and>
    (transfer_call g tp tp' \<and> snd c' = (w, k) \<or>
     (\<exists>dt utils clock. c' = snd (ib_tick cb g dt utils clock ex w k) \<and>
        tp' = ticked g dt utils (clock i) tp) \<or>
     (\<exists>utils clock. c' = snd (drain_ready ib_transfer_chunk ib_poll32 cb g utils clock ex w k) \<and>
        all_flowing ex \<and> drained g tp tp'))"
  using assms(1)
proof (cases rule: exec_step.cases)
  case step_pause
  then show ?thesis
    using tp exec_inv_lookup [OF inv tp]
    by (auto simp: pause_def is_active_def split: option.split intro!: transfer_call.intros)
next
  case step_cancel
  then show ?thesis
    using tp exec_inv_lookup [OF inv tp]
    by (auto simp: cancel_def split: option.split intro: transfer_call.intros)
next
  case (step_preempt busy n)
  have "is_active tp" if hit: "kv \<in> set (preempt_chosen busy n ex)" "fst kv = i" for kv
  proof -
    have "(i, snd kv) \<in> set (ex_transfers ex)" using preempt_chosen_hit [OF hit(1)] hit(2) by auto
    then have "snd kv = tp" using exec_inv_key_unique [OF inv _ map_of_SomeD [OF tp]] by blast
    then show ?thesis using preempt_chosen_hit [OF hit(1)] by (simp add: preempt_hit_def is_active_def)
  qed
  then show ?thesis
    using step_preempt tp exec_inv_lookup [OF inv tp]
    by (auto simp: preempt_sharing_alt lookup_mapped intro: transfer_call.intros)
next
  case step_reroute
  then show ?thesis
    using tp exec_inv_lookup [OF inv tp]
    by (auto simp: reroute_def split: option.split intro!: transfer_call.intros)
next
  case (step_tick dt utils clock)
  then show ?thesis
    using tp by (intro exI [of _ "ticked g dt utils (clock i) tp"] conjI disjI2 [OF disjI1] exI)
      (simp_all add: ib_tick_def tick_transfers lookup_mapped)
next
  case (step_drain utils clock)
  have "\<exists>tp'. map_of (ex_transfers (fst c')) i = Some tp' \<and> drained g tp tp'"
    unfolding step_drain(1) by (rule lookup_drain [OF step_drain(2) tp])
  then obtain tp' where "map_of (ex_transfers (fst c')) i = Some tp'" "drained g tp tp'" by blast
  moreover have "\<exists>utils clock. c' = snd (drain_ready ib_transfer_chunk ib_poll32 cb g utils clock ex w k)"
    using step_drain(1) by (intro exI)
  ultimately show ?thesis using step_drain(2) by auto
qed (use tp free in \<open>simp_all add: lookup_submit lookup_submit_striped tc_keep\<close>)

lemma exec_step_evolves:
  assumes "exec_step g cb (ex, w, k) c'" and "exec_inv ex"
    and "map_of (ex_transfers ex) i = Some tp" and "i \<noteq> ex_next_id ex"
  shows "\<exists>tp'. map_of (ex_transfers (fst c')) i = Some tp' \<and> evolves tp tp'"
  using exec_step_transfer [OF assms] exec_inv_lookup [OF assms(2,3)] transfer_call_evolves
    ticked_evolves drained_sound by blast

end
