(* ===== verification/Executor_Props.thy ===== *)
theory Executor_Props
  imports Executor_Steps
begin

text \<open>
  The properties of the executor as a state machine: accounting, rail exclusion and the life cycle in
  every reachable state; what \<open>tick\<close> reports; what \<open>preempt_sharing\<close> and \<open>reroute\<close> choose, change and
  leave alone; and the two operations that break the accounting, \<open>cancel\<close> on a completed transfer
  and \<open>drain_ready\<close> on a striped one.
\<close>

section \<open>A small world\<close>

text \<open>Two chunks on one rail: the first is in flight, the second waits for the rail.\<close>

definition sample_request :: transfer_request where
  "sample_request = default_request\<lparr>size_bytes := 3000000, traffic := KVMigration, deadline_us := 50\<rparr>"

definition sample_chunks :: "chunk_path list" where
  "sample_chunks =
     [\<lparr>ck_seq = 0, ck_edges = [0], ck_size = 2000000, ck_offset = 0, ck_rail = 2\<rparr>,
      \<lparr>ck_seq = 1, ck_edges = [1], ck_size = 1000000, ck_offset = 2000000, ck_rail = 2\<rparr>]"

definition no_buffers :: submit_options where
  "no_buffers = \<lparr>so_src_buf = 0, so_dst_buf = 0\<rparr>"

definition sample_ex :: executor where
  "sample_ex = snd (submit_striped None 0 sample_request sample_chunks no_buffers executor_fresh)"

definition sample_world :: "unit world" where
  "sample_world = (sample_ex, (ibverbs_fresh, \<lambda>a. 0), ())"

lemmas sample_defs = sample_ex_def sample_request_def sample_chunks_def no_buffers_def
  executor_fresh_def submit_striped_def rail_slot_def kIbRailCount_def default_progress_def
  default_request_def add_edges_def kKvChunkBytes_def

lemma sample_reachable: "reachable None None sample_world"
proof -
  have "chunks_cover sample_request sample_chunks"
    by (simp add: chunks_cover_def sample_request_def sample_chunks_def)
  from reach_step [OF reach_fresh step_striped [OF this]] show ?thesis
    unfolding sample_world_def sample_ex_def .
qed

definition sample_tp :: transfer_progress where
  "sample_tp = default_progress\<lparr>tp_id := 1, tp_state := InFlight, tp_request := sample_request,
     tp_path_edges := [0, 1], tp_bytes_total := 3000000, tp_bytes_sent := 0,
     tp_bytes_remaining := 3000000, tp_slack_us := 50, tp_started_ns := 0, tp_preemptible := True,
     tp_chunk_quantum := 2000000,
     tp_chunks := [\<lparr>ch_seq = 0, ch_edges = [0], ch_offset = 0, ch_size = 2000000, ch_sent = 0,
                     ch_rail = 2, ch_state = InFlight\<rparr>,
                   \<lparr>ch_seq = 1, ch_edges = [1], ch_offset = 2000000, ch_size = 1000000, ch_sent = 0,
                     ch_rail = 2, ch_state = Pending\<rparr>]\<rparr>"

lemma sample_ex_eq:
  "sample_ex = executor_fresh\<lparr>ex_next_id := 2, ex_transfers := [(1, sample_tp)]\<rparr>"
  by (simp add: sample_defs sample_tp_def Let_def)

lemma sample_lookup: "map_of (ex_transfers (fst sample_world)) 1 = Some sample_tp"
  by (simp add: sample_world_def sample_ex_eq)

section \<open>Accounting, rails, life cycle\<close>

text \<open>
  C7. In every state the executor reaches from a fresh one by any sequence of its operations, where
  \<open>drain_ready\<close> is called only while no active transfer has a chunk that waits for its rail (otherwise
  it breaks the accounting, as the last property of this theory shows), each transfer's bytes are
  accounted for exactly: its chunks make up its size, what it says it has sent is what its chunks have sent, no chunk has sent more than its
  size, unless it is cancelled the remaining bytes are the rest, and a transfer that is completed
  has sent every byte of every chunk.
\<close>
theorem executor_accounts:
  assumes "reachable g cb c" and "map_of (ex_transfers (fst c)) i = Some tp"
  shows "tp_id tp = i \<and> total_size (tp_chunks tp) = unat (tp_bytes_total tp) \<and>
    total_sent (tp_chunks tp) = unat (tp_bytes_sent tp) \<and>
    (\<forall>ch \<in> set (tp_chunks tp). ch_sent ch \<le> ch_size ch) \<and>
    (tp_state tp \<noteq> Cancelled \<longrightarrow>
       unat (tp_bytes_remaining tp) + unat (tp_bytes_sent tp) = unat (tp_bytes_total tp)) \<and>
    (tp_state tp = Completed \<longrightarrow> (\<forall>ch \<in> set (tp_chunks tp). ch_sent ch = ch_size ch))"
proof (intro conjI impI)
  note inv = reachable_lookup [OF assms]
  show "tp_id tp = i" using inv by simp
  show size: "total_size (tp_chunks tp) = unat (tp_bytes_total tp)"
    and sent: "total_sent (tp_chunks tp) = unat (tp_bytes_sent tp)"
    using inv by (simp_all add: tp_inv_def accounted_def)
  then have "unat (tp_bytes_sent tp) \<le> unat (tp_bytes_total tp)"
    using inv total_sent_le_size [of "tp_chunks tp"] by (simp add: tp_inv_def accounted_def)
  then show "unat (tp_bytes_remaining tp) + unat (tp_bytes_sent tp) = unat (tp_bytes_total tp)"
    if "tp_state tp \<noteq> Cancelled"
    using inv that by (simp add: tp_inv_def accounted_def unat_minus_le word_le_nat_alt)
  show "\<forall>ch \<in> set (tp_chunks tp). ch_sent ch \<le> ch_size ch"
    using inv by (simp add: tp_inv_def accounted_def chunk_inv_def)
  show "\<forall>ch \<in> set (tp_chunks tp). ch_sent ch = ch_size ch" if "tp_state tp = Completed"
    using inv that by (simp add: tp_inv_def accounted_def chunk_inv_def states_agree.simps chunk_states_in_def)
qed

theorem executor_accounts_witness:
  "total_size (tp_chunks sample_tp) = unat (tp_bytes_total sample_tp) \<and>
   unat (tp_bytes_remaining sample_tp) + unat (tp_bytes_sent sample_tp) = unat (tp_bytes_total sample_tp)"
  using executor_accounts [OF sample_reachable sample_lookup] by (simp add: sample_tp_def)

text \<open>
  C18. In every reachable state no transfer has more than one chunk in flight on a rail, a paused
  transfer has no chunk in flight or waiting for a rail, only a suspending transfer carries the
  suspend flag, and no transfer rests in one of the states \<open>Pending\<close> and \<open>Rerouting\<close>.
\<close>
theorem one_chunk_per_rail:
  assumes "reachable g cb c" and "map_of (ex_transfers (fst c)) i = Some tp"
  shows "inflight_on s (tp_chunks tp) \<le> 1 \<and>
    (tp_state tp = Paused \<longrightarrow> (\<forall>ch \<in> set (tp_chunks tp). ch_state ch \<in> {Paused, Completed})) \<and>
    (is_active tp \<longrightarrow> (tp_suspend_at_boundary tp \<longleftrightarrow> tp_state tp = SuspendPending)) \<and>
    tp_state tp \<notin> {Pending, Rerouting}"
proof -
  note inv = reachable_lookup [OF assms]
  then have "states_agree tp" "rails_exclusive (tp_chunks tp)" by (simp_all add: tp_inv_def)
  moreover have "tp_state tp \<notin> {Pending, Rerouting}" using tp_inv_settled_state inv by blast
  ultimately show ?thesis
    by (auto simp: rails_exclusive_def states_agree.simps chunk_states_in_def is_active_def)
qed

theorem one_chunk_per_rail_witness: "inflight_on 0 (tp_chunks sample_tp) \<le> 1 \<and> \<not> tp_suspend_at_boundary sample_tp"
  using one_chunk_per_rail [OF sample_reachable sample_lookup, of 0] by (simp add: sample_tp_def is_active_def)

text \<open>
  C19. Whatever operation is called next, a transfer of a reachable state stays in the table under its
  id, keeps its request, size, buffers and preemptibility, never loses bytes it has sent, and changes
  state only along the life cycle: a cancelled transfer stays cancelled and a completed one stays
  completed or is cancelled (unless the 64-bit id counter has wrapped round to its id).
\<close>
theorem transfers_evolve:
  assumes "reachable g cb c" and "exec_step g cb c c'"
    and "map_of (ex_transfers (fst c)) i = Some tp" and "i \<noteq> ex_next_id (fst c)"
  shows "\<exists>tp'. map_of (ex_transfers (fst c')) i = Some tp' \<and> evolves tp tp'"
proof (cases c)
  case (fields ex w k)
  then show ?thesis
    using exec_step_evolves [of g cb ex w k c' i tp] assms reachable_inv [OF assms(1)] by simp
qed

theorem transfers_evolve_witness:
  "\<exists>tp'. map_of (ex_transfers (snd (pause 1 sample_ex))) 1 = Some tp' \<and> evolves sample_tp tp'"
proof -
  have "exec_step None None sample_world (snd (pause 1 sample_ex), (ibverbs_fresh, \<lambda>a. 0), ())"
    unfolding sample_world_def by (rule step_pause)
  from transfers_evolve [OF sample_reachable this sample_lookup]
  show ?thesis by (simp add: sample_world_def sample_ex_eq)
qed

section \<open>What a tick reports\<close>

lemma ticked_done_iff:
  assumes "tp_inv tp" and "is_active tp"
  shows "tp_state (ticked g dt utils now tp) = Completed \<longleftrightarrow>
         tp_bytes_sent (ticked g dt utils now tp) = tp_bytes_total tp"
proof -
  let ?tp = "tp\<lparr>tp_chunks := map (advanced g dt utils) (settle_chunks tp)\<rparr>"
  have chs: "\<forall>ch \<in> set (tp_chunks ?tp). chunk_inv ch"
    and size: "total_size (tp_chunks ?tp) = unat (tp_bytes_total ?tp)"
    using assms(1) settle_inv [of tp] by (auto simp: tp_inv_def accounted_def advanced_inv)
  have "tp_state (concluded now ?tp) = Completed \<longleftrightarrow> total_sent (tp_chunks ?tp) = unat (tp_bytes_total ?tp)"
    using chs size assms(2) by (intro concluded_completes_iff) (auto simp: is_active_def)
  also have "\<dots> \<longleftrightarrow> tp_bytes_sent (concluded now ?tp) = tp_bytes_total tp"
    using refresh_exact(1) [OF chs size] by (simp add: word_unat_eq_iff)
  finally show ?thesis using assms(2) by (simp add: ticked_def)
qed

text \<open>
  C28. A tick reports exactly the transfers that were active before it and have sent every byte of
  their request after it; these and no others become completed, no id is reported twice, and
  transfers that are not active are left as they are.
\<close>
theorem tick_reports:
  assumes "reachable g cb (ex, w, k)" and tick: "ib_tick cb g dt utils clock ex w k = (ids, ex', w', k')"
  shows "distinct ids \<and>
    (\<forall>i. i \<in> set ids \<longleftrightarrow> (\<exists>tp tp'. map_of (ex_transfers ex) i = Some tp \<and> is_active tp \<and>
            map_of (ex_transfers ex') i = Some tp' \<and> tp_bytes_sent tp' = tp_bytes_total tp)) \<and>
    (\<forall>i tp. map_of (ex_transfers ex) i = Some tp \<longrightarrow> is_active tp \<longrightarrow>
       (i \<in> set ids \<longleftrightarrow> tp_state (get_transfer i ex') = Completed)) \<and>
    (\<forall>i tp. map_of (ex_transfers ex) i = Some tp \<longrightarrow> \<not> is_active tp \<longrightarrow>
       map_of (ex_transfers ex') i = Some tp)"
proof -
  let ?fin = "\<lambda>(i, tp). is_active tp \<and> tp_state (ticked g dt utils (clock i) tp) = Completed"
  have inv: "exec_inv ex" using reachable_inv [OF assms(1)] by simp
  have "ids = map (\<lambda>(i, tp). tp_id tp) (filter ?fin (ex_transfers ex))"
    using tick_done [of ib_transfer_chunk ib_poll32 cb g dt utils clock ex w k] tick
    by (simp add: ib_tick_def)
  also have "\<dots> = map fst (filter ?fin (ex_transfers ex))"
    using inv by (intro map_cong) (auto simp: exec_inv_def)
  finally have ids: "ids = map fst (filter ?fin (ex_transfers ex))" .
  have look: "map_of (ex_transfers ex') i =
      map_option (ticked g dt utils (clock i)) (map_of (ex_transfers ex) i)" for i
    using tick_transfers [of ib_transfer_chunk ib_poll32 cb g dt utils clock ex w k] tick
    by (simp add: ib_tick_def lookup_mapped)
  have keys: "distinct (map fst (ex_transfers ex))" using inv by (simp add: exec_inv_def)
  have in_ids: "i \<in> set ids \<longleftrightarrow> (\<exists>tp. map_of (ex_transfers ex) i = Some tp \<and> is_active tp \<and>
      tp_state (ticked g dt utils (clock i) tp) = Completed)" for i
    unfolding ids using keys by (force simp: map_of_eq_Some_iff)
  have done_iff: "tp_state (ticked g dt utils now tp) = Completed \<longleftrightarrow>
      tp_bytes_sent (ticked g dt utils now tp) = tp_bytes_total tp"
    if "map_of (ex_transfers ex) i = Some tp" "is_active tp" for i tp now
    using ticked_done_iff exec_inv_lookup [OF inv that(1)] that(2) by blast
  have "distinct ids" unfolding ids using keys by (simp add: distinct_map_filter)
  moreover have "\<forall>i. i \<in> set ids \<longleftrightarrow> (\<exists>tp tp'. map_of (ex_transfers ex) i = Some tp \<and> is_active tp \<and>
      map_of (ex_transfers ex') i = Some tp' \<and> tp_bytes_sent tp' = tp_bytes_total tp)"
    using done_iff by (auto simp: in_ids look)
  ultimately show ?thesis by (auto simp: in_ids look get_transfer_def ticked_def)
qed

theorem tick_reports_witness:
  "1 \<in> set (fst (ib_tick None None 5 [] (\<lambda>i. 0) sample_ex (ibverbs_fresh, \<lambda>a. 0) ())) \<longleftrightarrow>
   tp_state (get_transfer 1 (fst (snd (ib_tick None None 5 [] (\<lambda>i. 0) sample_ex
     (ibverbs_fresh, \<lambda>a. 0) ())))) = Completed"
proof -
  obtain ids ex' w' k' where
    eq: "ib_tick None None 5 [] (\<lambda>i. 0) sample_ex (ibverbs_fresh, \<lambda>a. 0) () = (ids, ex', w', k')"
    by (rule prod_cases4)
  have "map_of (ex_transfers sample_ex) 1 = Some sample_tp" "is_active sample_tp"
    using sample_lookup by (simp_all add: sample_world_def sample_tp_def is_active_def)
  then show ?thesis
    unfolding eq fst_conv snd_conv
    using tick_reports [OF sample_reachable [unfolded sample_world_def] eq] by blast
qed

section \<open>Preemption and reroute\<close>

lemma take_sorted_key_max:
  assumes "x \<in> set (take n (sort_key f xs))" and "y \<in> set xs" and "y \<notin> set (take n (sort_key f xs))"
  shows "f x \<le> f y \<and> length (take n (sort_key f xs)) = n"
proof -
  have "y \<in> set (take n (sort_key f xs) @ drop n (sort_key f xs))" using assms(2) by simp
  then have drop: "y \<in> set (drop n (sort_key f xs))" using assms(3) unfolding set_append by blast
  have "sorted (map f (take n (sort_key f xs) @ drop n (sort_key f xs)))" by simp
  then have "f x \<le> f y"
    using assms(1) drop unfolding map_append sorted_append by auto
  moreover have "n < length xs" using drop by (cases "n < length xs") auto
  ultimately show ?thesis by simp
qed

text \<open>
  C29. \<open>preempt_sharing\<close> stops at most \<open>n\<close> transfers, each of them preemptible, in flight and sharing
  an edge with the busy ones; it marks exactly those for suspension at their chunk boundary and
  leaves every other transfer alone; and it passes a candidate over only when it has stopped \<open>n\<close>
  others that all have at least as much slack.
\<close>
theorem preempt_takes_slackest:
  assumes "reachable g cb (ex, w, k)" and call: "preempt_sharing busy n ex = (ids, ex')"
  shows "length ids \<le> n \<and>
    (\<forall>i \<in> set ids. \<exists>tp. map_of (ex_transfers ex) i = Some tp \<and> preempt_hit busy tp \<and>
       map_of (ex_transfers ex') i = Some (mark_suspend tp)) \<and>
    (\<forall>i. i \<notin> set ids \<longrightarrow> map_of (ex_transfers ex') i = map_of (ex_transfers ex) i) \<and>
    (\<forall>i \<in> set ids. \<forall>j tp tq. map_of (ex_transfers ex) i = Some tp \<longrightarrow> map_of (ex_transfers ex) j = Some tq \<longrightarrow>
       preempt_hit busy tq \<longrightarrow> j \<notin> set ids \<longrightarrow> tp_slack_us tq \<le> tp_slack_us tp \<and> length ids = n)"
proof -
  let ?ch = "preempt_chosen busy n ex"
  have inv: "exec_inv ex" using reachable_inv [OF assms(1)] by simp
  then have keys: "distinct (map fst (ex_transfers ex))" by (simp add: exec_inv_def)
  have "ids = map (\<lambda>kv. tp_id (snd kv)) ?ch" using call by (simp add: preempt_sharing_alt)
  also have "\<dots> = map fst ?ch"
    using inv preempt_chosen_hit [of _ busy n ex] by (intro map_cong) (force simp: exec_inv_def)+
  finally have ids: "ids = map fst ?ch" .
  have look: "map_of (ex_transfers ex') i = map_option (\<lambda>tp. if i \<in> set ids then mark_suspend tp else tp)
      (map_of (ex_transfers ex) i)" for i
    using call unfolding preempt_sharing_alt by (auto simp: ids lookup_mapped)
  have chosen: "i \<in> set ids \<longleftrightarrow> (\<exists>tp. map_of (ex_transfers ex) i = Some tp \<and> (i, tp) \<in> set ?ch)" for i
    unfolding ids using keys preempt_chosen_hit [of _ busy n ex] by (force simp: map_of_eq_Some_iff)
  have "length ids \<le> n" by (simp add: ids preempt_chosen_def)
  moreover have "\<forall>i \<in> set ids. \<exists>tp. map_of (ex_transfers ex) i = Some tp \<and> preempt_hit busy tp \<and>
       map_of (ex_transfers ex') i = Some (mark_suspend tp)"
    using preempt_chosen_hit [of _ busy n ex] by (fastforce simp: look chosen)
  moreover have "tp_slack_us tq \<le> tp_slack_us tp \<and> length ids = n"
    if "i \<in> set ids" "map_of (ex_transfers ex) i = Some tp" "map_of (ex_transfers ex) j = Some tq"
      "preempt_hit busy tq" "j \<notin> set ids" for i j tp tq
  proof -
    have "(i, tp) \<in> set ?ch" "(j, tq) \<notin> set ?ch" using that chosen by auto
    moreover have "(j, tq) \<in> set (filter (\<lambda>kv. preempt_hit busy (snd kv)) (ex_transfers ex))"
      using that by (auto dest: map_of_SomeD)
    ultimately have "- tp_slack_us tp \<le> - tp_slack_us tq \<and> length ?ch = n"
      using take_sorted_key_max [of "(i, tp)" n "\<lambda>kv. - tp_slack_us (snd kv)" _ "(j, tq)"]
      unfolding preempt_chosen_def by force
    then show ?thesis by (simp add: ids)
  qed
  ultimately show ?thesis by (auto simp: look option.map_ident)
qed

theorem preempt_takes_slackest_witness:
  "\<exists>ids ex'. preempt_sharing [1] 1 sample_ex = (ids, ex') \<and> ids = [1] \<and>
     map_of (ex_transfers ex') 1 = Some (mark_suspend sample_tp)"
proof -
  obtain ids ex' where call: "preempt_sharing [1] 1 sample_ex = (ids, ex')" by (cases "preempt_sharing [1] 1 sample_ex")
  have "ids = [1]"
    using call by (simp add: preempt_sharing_def sample_ex_eq sample_tp_def preempt_hit_def shares_edge_def Let_def)
  with call preempt_takes_slackest [OF sample_reachable [unfolded sample_world_def] call] sample_lookup
  show ?thesis by (auto simp: sample_world_def)
qed

lemma promote_pointwise:
  "list_all2 (\<lambda>ch ch'. ch' = ch \<or> ch_state ch = Pending \<and> ch' = ch\<lparr>ch_state := InFlight\<rparr>)
     chs (promote busy chs)"
  by (induction busy chs rule: promote.induct) (auto simp: Let_def intro: list_all2_refl)

lemma promote_busy_rail:
  assumes "\<forall>ch \<in> set chs. ch_state ch = Pending \<longrightarrow> ch_rail ch = r" and "busy ! rail_slot r"
  shows "promote busy chs = chs"
  using assms by (induction busy chs rule: promote.induct) (auto simp: Let_def)

definition unfinished :: "chunk_progress list \<Rightarrow> chunk_progress list" where
  "unfinished chs = filter (\<lambda>ch. ch_state ch \<noteq> Completed) chs"

definition first_started :: "nat \<Rightarrow> transfer_state list" where
  "first_started n = (case n of 0 \<Rightarrow> [] | Suc m \<Rightarrow> InFlight # replicate m Pending)"

lemma unfinished_pending:
  "chunk_states_in {Pending, Completed} chs \<Longrightarrow>
   map ch_state (unfinished chs) = replicate (length (unfinished chs)) Pending"
  by (induction chs) (auto simp: chunk_states_in_def unfinished_def)

lemma promote_starts_first:
  assumes "\<forall>ch \<in> set chs. ch_state ch = Pending \<longrightarrow> ch_rail ch = r"
    and "length busy = kIbRailCount" and "\<not> busy ! rail_slot r"
    and "chunk_states_in {Pending, Completed} chs"
  shows "map ch_state (unfinished (promote busy chs)) = first_started (length (unfinished chs))"
  using assms
proof (induction chs)
  case Nil
  then show ?case by (simp add: unfinished_def first_started_def)
next
  case (Cons ch chs)
  show ?case
  proof (cases "ch_state ch = Pending")
    case True
    have "promote (busy[rail_slot r := True]) chs = chs"
      by (rule promote_busy_rail [of _ r]) (use Cons.prems rail_slot_less [of r] in auto)
    moreover have "chunk_states_in {Pending, Completed} chs"
      using Cons.prems by (simp add: chunk_states_in_def)
    ultimately show ?thesis
      using True Cons.prems unfinished_pending [of chs]
      by (simp add: unfinished_def first_started_def Let_def)
  next
    case False
    then have "ch_state ch = Completed" using Cons.prems by (simp add: chunk_states_in_def)
    with Cons show ?thesis by (simp add: unfinished_def chunk_states_in_def)
  qed
qed

text \<open>What rerouting does to one chunk.\<close>

definition rerouted_to :: "edge_path \<Rightarrow> int \<Rightarrow> chunk_progress \<Rightarrow> chunk_progress \<Rightarrow> bool" where
  "rerouted_to es r ch ch' \<longleftrightarrow>
     ch_size ch' = ch_size ch \<and> ch_offset ch' = ch_offset ch \<and> ch_sent ch' = ch_sent ch \<and>
     (if ch_state ch = Completed then ch' = ch
      else ch_edges ch' = es \<and> ch_rail ch' = r \<and> ch_state ch' \<in> {Pending, InFlight})"

text \<open>
  Rerouting an unfinished transfer keeps its chunks' sizes, offsets and sent bytes, leaves
  completed chunks as they were, moves every other chunk to the new path and its rail, puts the
  transfer back in flight without the suspend flag and starts exactly one of the unfinished chunks,
  the first.
\<close>
theorem reroute_moves_unfinished:
  assumes "reachable g cb (ex, w, k)" and tp: "map_of (ex_transfers ex) i = Some tp"
    and st: "tp_state tp \<in> {Paused, InFlight, SuspendPending}"
  shows "\<exists>ex' tp'. reroute g i path ex = (True, ex') \<and> map_of (ex_transfers ex') i = Some tp' \<and>
    tp_state tp' = InFlight \<and> \<not> tp_suspend_at_boundary tp' \<and> tp_bytes_sent tp' = tp_bytes_sent tp \<and>
    list_all2 (rerouted_to (edge_indices path) (rail_of_path g (edge_indices path)))
      (tp_chunks tp) (tp_chunks tp') \<and>
    map ch_state (unfinished (tp_chunks tp')) = first_started (length (unfinished (tp_chunks tp)))"
proof -
  let ?es = "edge_indices path" and ?r = "rail_of_path g (edge_indices path)"
  let ?mid = "map (reroute_chunk ?es ?r) (tp_chunks tp)"
  have agree: "states_agree tp"
    using reachable_lookup [OF assms(1)] tp by (simp add: tp_inv_def)
  then have cs: "chunk_states_in {Pending, Paused, InFlight, Completed} (tp_chunks tp)"
    using st by (auto simp: states_agree.simps chunk_states_in_def)
  have "list_all2 (rerouted_to ?es ?r) (tp_chunks tp) (promote busy ?mid)" for busy
  proof -
    have "list_all2 (\<lambda>ch ch'. ch' = reroute_chunk ?es ?r ch \<or> ch_state (reroute_chunk ?es ?r ch) = Pending \<and>
        ch' = (reroute_chunk ?es ?r ch)\<lparr>ch_state := InFlight\<rparr>) (tp_chunks tp) (promote busy ?mid)"
      using promote_pointwise [of ?mid busy] by (simp add: list_all2_map1)
    then show ?thesis
      by (rule list.rel_mono_strong)
        (use cs in \<open>auto simp: rerouted_to_def reroute_chunk_def chunk_states_in_def\<close>)
  qed
  moreover have "map ch_state (unfinished (promote (replicate kIbRailCount False) ?mid)) =
      first_started (length (unfinished ?mid))"
    by (rule promote_starts_first [of _ ?r])
      (use cs rail_slot_less [of ?r] in \<open>auto simp: reroute_chunk_def chunk_states_in_def\<close>)
  moreover have "length (unfinished ?mid) = length (unfinished (tp_chunks tp))"
    unfolding unfinished_def filter_map length_map
    using cs by (intro arg_cong [where f = length] filter_cong)
      (auto simp: reroute_chunk_def chunk_states_in_def)
  ultimately have "list_all2 (rerouted_to ?es ?r) (tp_chunks tp) (tp_chunks (reroute_transfer g path tp)) \<and>
      map ch_state (unfinished (tp_chunks (reroute_transfer g path tp))) =
        first_started (length (unfinished (tp_chunks tp)))"
    by simp
  then show ?thesis
    using tp st by (auto simp: reroute_def)
qed

theorem reroute_moves_unfinished_witness:
  "\<exists>ex' tp'. reroute None 1 \<lparr>edge_indices = [7], pc_latency_us = 3\<rparr> sample_ex = (True, ex') \<and>
     map_of (ex_transfers ex') 1 = Some tp' \<and> tp_state tp' = InFlight \<and>
     map ch_state (unfinished (tp_chunks tp')) = [InFlight, Pending]"
proof -
  have "tp_state sample_tp \<in> {Paused, InFlight, SuspendPending}" by (simp add: sample_tp_def)
  from reroute_moves_unfinished [OF sample_reachable [unfolded sample_world_def]
      sample_lookup [unfolded sample_world_def fst_conv] this,
      of "\<lparr>edge_indices = [7], pc_latency_us = 3\<rparr>"]
  show ?thesis by (auto simp: sample_tp_def unfinished_def first_started_def)
qed

section \<open>Cancel and drain\<close>

text \<open>
  \<open>cancel\<close> asks for no state: it answers true for every known id and turns even a transfer whose
  bytes have all been delivered and reported into a cancelled one with its chunks still completed.
\<close>
theorem cancel_overrides_completion:
  assumes "reachable g cb (ex, w, k)" and "map_of (ex_transfers ex) i = Some tp"
    and "tp_state tp = Completed"
  shows "\<exists>ex' tp'. cancel i ex = (True, ex') \<and> map_of (ex_transfers ex') i = Some tp' \<and>
    tp_state tp' = Cancelled \<and> tp_bytes_sent tp' = tp_bytes_total tp' \<and>
    tp_chunks tp' = tp_chunks tp \<and> ex_completed_count ex' = ex_completed_count ex"
proof -
  have "tp_inv tp" using reachable_lookup [OF assms(1)] assms(2) by simp
  with assms(3) have "\<forall>ch \<in> set (tp_chunks tp). ch_state ch = Completed"
    and "tp_bytes_sent tp = tp_bytes_total tp"
    by (auto simp: tp_inv_def accounted_def states_agree.simps chunk_states_in_def)
  moreover from this have "map cancel_chunk (tp_chunks tp) = tp_chunks tp"
    by (intro map_idI) (simp add: cancel_chunk_def)
  ultimately show ?thesis using assms(2) by (simp add: cancel_def put_transfer_def update_conv')
qed

theorem cancel_overrides_completion_witness:
  "\<exists>c :: unit world. \<exists>tp ex' tp'. reachable None None c \<and>
     map_of (ex_transfers (fst c)) 1 = Some tp \<and> tp_state tp = Completed \<and>
     cancel 1 (fst c) = (True, ex') \<and> map_of (ex_transfers ex') 1 = Some tp' \<and> tp_state tp' = Cancelled"
proof -
  let ?ex = "snd (submit None 0 default_request no_path no_buffers executor_fresh)"
  let ?c = "snd (ib_tick None None 1 [] (\<lambda>i. 0) ?ex (ibverbs_fresh, \<lambda>a. 0) ())"
  have reach: "reachable None None ?c"
    using reach_step [OF reach_step [OF reach_fresh step_submit] step_tick] .
  obtain ex w where c: "?c = (ex, w, ())" by (metis prod_cases3 old.unit.exhaust)
  have "\<exists>tp. map_of (ex_transfers (fst ?c)) 1 = Some tp \<and> tp_state tp = Completed"
    by (simp add: ib_tick_def tick_transfers submit_def sample_defs no_path_def rail_of_path_def
        ticked_def is_active_def settle_chunks_def advanced_def concluded_def refresh_aggregate_def Let_def)
  then obtain tp where tp: "map_of (ex_transfers ex) 1 = Some tp" "tp_state tp = Completed"
    unfolding c by auto
  from cancel_overrides_completion [OF reach [unfolded c] tp] reach [unfolded c] tp
  show ?thesis by (metis fst_conv)
qed

text \<open>What a drain does to an entry: an active transfer may change state, any other is left alone.\<close>

definition drains_to :: "transfer_id \<times> transfer_progress \<Rightarrow> transfer_id \<times> transfer_progress \<Rightarrow> bool" where
  "drains_to kv kv' \<longleftrightarrow> fst kv' = fst kv \<and>
     (if is_active (snd kv)
      then tp_state (snd kv') \<in> {Completed, Paused, InFlight, SuspendPending} else kv' = kv)"

lemma drains_to_trans: "drains_to a b \<Longrightarrow> drains_to b c \<Longrightarrow> drains_to a c"
  by (auto simp: drains_to_def is_active_def split: if_splits)

lemma drains_to_refl: "drains_to a a"
  by (auto simp: drains_to_def is_active_def)

lemma ticked_drains: "drains_to (k, tp) (k, ticked g dt utils now tp)"
  by (auto simp: drains_to_def ticked_def is_active_def concluded_def Let_def)

definition active_count :: "(transfer_id \<times> transfer_progress) list \<Rightarrow> nat" where
  "active_count kvs = length (filter (\<lambda>kv. is_active (snd kv)) kvs)"

lemma active_count_simps [simp]:
  "active_count [] = 0"
  "active_count (kv # kvs) = (if is_active (snd kv) then 1 else 0) + active_count kvs"
  by (simp_all add: active_count_def)

lemma any_active: "list_ex (\<lambda>kv. is_active (snd kv)) kvs \<longleftrightarrow> active_count kvs \<noteq> 0"
  by (induction kvs) auto

lemma tick_all_drains:
  "list_all2 drains_to kvs (fst (snd (tick_all mv cb g dt utils clock kvs env)))"
  unfolding tick_all_transfers by (induction kvs) (auto simp: ticked_drains)

lemma tick_all_active:
  "length (fst (tick_all mv cb g dt utils clock kvs env)) +
   active_count (fst (snd (tick_all mv cb g dt utils clock kvs env))) \<le> active_count kvs"
proof (induction kvs arbitrary: env)
  case (Cons kv kvs)
  obtain k tp where kv: "kv = (k, tp)" by (cases kv)
  obtain tp' fin env1 where t: "tick_transfer mv cb g dt utils (clock k) tp env = (tp', fin, env1)"
    by (rule prod_cases3)
  have "(if fin then 1 else 0) + (if is_active tp' then 1 else 0) \<le> (if is_active tp then 1 else (0::nat))"
    using tick_transfer_done [of mv cb g dt utils "clock k" tp env]
      fst_tick_transfer [of mv cb g dt utils "clock k" tp env]
    unfolding t by (auto simp: is_active_def ticked_def)
  with Cons.IH [of env1] show ?case
    by (auto simp: kv t case_prod_unfold Let_def split: if_splits)
qed simp

lemma complete_state [simp]: "tp_state (fst (complete_transfer cb tp env)) = Completed"
  by (simp add: complete_transfer_def Let_def)

lemma force_all_drains:
  "list_all2 drains_to kvs (fst (snd (force_all mv cb kvs env)))"
proof (induction kvs arbitrary: env)
  case (Cons kv kvs)
  then show ?case
    by (cases kv) (simp add: case_prod_unfold Let_def drains_to_refl, simp add: drains_to_def)
qed simp

lemma force_all_active: "active_count (fst (snd (force_all mv cb kvs env))) = 0"
proof (induction kvs arbitrary: env)
  case (Cons kv kvs)
  then show ?case
    by (cases kv) (simp add: case_prod_unfold Let_def, simp add: is_active_def)
qed simp

lemma list_all2_drains_trans:
  "list_all2 drains_to xs ys \<Longrightarrow> list_all2 drains_to ys zs \<Longrightarrow> list_all2 drains_to xs zs"
  by (rule list_all2_trans [of drains_to drains_to]) (rule drains_to_trans)

lemma drain_loop_ends:
  "active_count (ex_transfers ex) \<le> n \<Longrightarrow>
   list_all2 drains_to (ex_transfers ex) (ex_transfers (fst (snd (drain_loop n mv poll cb g utils clock ex s k)))) \<and>
   active_count (ex_transfers (fst (snd (drain_loop n mv poll cb g utils clock ex s k)))) = 0"
proof (induction n arbitrary: ex s k)
  case 0
  then show ?case by (simp add: list_all2_refl drains_to_refl)
next
  case (Suc n)
  obtain ids ex1 s1 k1 where t: "tick mv poll cb g 1 utils (clock n) ex s k = (ids, ex1, s1, k1)"
    by (rule prod_cases4)
  have ta: "\<exists>env. ids = fst (tick_all mv cb g 1 utils (clock n) (ex_transfers ex) env) \<and>
      ex_transfers ex1 = fst (snd (tick_all mv cb g 1 utils (clock n) (ex_transfers ex) env))"
    using t by (auto simp: tick_def case_prod_unfold Let_def)
  then have step: "list_all2 drains_to (ex_transfers ex) (ex_transfers ex1)"
    and less: "length ids + active_count (ex_transfers ex1) \<le> active_count (ex_transfers ex)"
    using tick_all_drains tick_all_active by fastforce+
  show ?case
  proof (cases "active_count (ex_transfers ex1) = 0 \<or> ids = []")
    case True
    with step show ?thesis
      using list_all2_drains_trans [OF step force_all_drains] force_all_active
      by (auto simp: t case_prod_unfold Let_def any_active)
  next
    case False
    with less Suc.prems have "active_count (ex_transfers ex1) \<le> n" by (cases ids) auto
    from Suc.IH [OF this, of s1 k1] step False show ?thesis
      by (auto simp: t case_prod_unfold Let_def any_active intro: list_all2_drains_trans)
  qed
qed

lemma list_all2_lookup:
  assumes "list_all2 R kvs kvs'" and "\<And>a b. R a b \<Longrightarrow> fst b = fst a" and "map_of kvs i = Some v"
  shows "\<exists>v'. map_of kvs' i = Some v' \<and> R (i, v) (i, v')"
  using assms(1,3)
proof (induction rule: list_all2_induct)
  case (Cons kv kvs kv' kvs')
  then show ?case using assms(2) [OF Cons.hyps(1)] by (cases kv; cases kv') (auto split: if_splits)
qed simp

text \<open>
  With at most 10000 active transfers, \<open>drain_ready\<close> leaves none active: whatever the utilisation
  and the transport, each one it finds active it completes or, if it was being suspended, parks, and
  it leaves every other transfer as it was.
\<close>
theorem drain_leaves_none_active:
  assumes "length (list_inflight ex) \<le> 10000"
    and "drain_ready mv poll cb g utils clock ex s k = (ids, ex', s', k')"
    and "map_of (ex_transfers ex) i = Some tp"
  shows "list_inflight ex' = [] \<and>
    (\<exists>tp'. map_of (ex_transfers ex') i = Some tp' \<and>
       (if is_active tp then tp_state tp' \<in> {Completed, Paused} else tp' = tp))"
proof -
  have "active_count (ex_transfers ex) \<le> 10000"
    using assms(1) by (simp add: list_inflight_def active_count_def filter_map comp_def)
  from drain_loop_ends [OF this, of mv poll cb g utils clock s k]
  have d: "list_all2 drains_to (ex_transfers ex) (ex_transfers ex')" "active_count (ex_transfers ex') = 0"
    using assms(2) by (simp_all add: drain_ready_def)
  have none: "list_inflight ex' = []"
    using d(2) by (simp add: list_inflight_def active_count_def filter_map comp_def)
  obtain tp' where tp': "map_of (ex_transfers ex') i = Some tp'" "drains_to (i, tp) (i, tp')"
    using list_all2_lookup [OF d(1) _ assms(3)] by (auto simp: drains_to_def)
  then have "\<not> is_active tp'"
    using none by (force simp: list_inflight_def filter_empty_conv dest: map_of_SomeD)
  with tp' none show ?thesis by (auto simp: drains_to_def is_active_def split: if_splits)
qed

theorem drain_leaves_none_active_witness:
  "\<exists>ids ex' s' k'. drain_ready ib_transfer_chunk ib_poll32 None None [] (\<lambda>n i. 0) sample_ex
      (ibverbs_fresh, \<lambda>a. 0) () = (ids, ex', s', k') \<and> list_inflight ex' = []"
proof -
  obtain ids ex' s' k' where run: "drain_ready ib_transfer_chunk ib_poll32 None None [] (\<lambda>n i. 0)
      sample_ex (ibverbs_fresh, \<lambda>a. 0) () = (ids, ex', s', k')"
    by (rule prod_cases4)
  have "length (list_inflight sample_ex) \<le> 10000"
    by (simp add: sample_ex_eq list_inflight_def sample_tp_def)
  from drain_leaves_none_active [OF this run sample_lookup [unfolded sample_world_def fst_conv]] run
  show ?thesis by blast
qed

text \<open>
  When the first round of a drain completes nothing and leaves a transfer active, that round is the
  last one and the transfer is forced.
\<close>

lemma force_all_ids:
  "fst (force_all mv cb kvs env) = map (\<lambda>(k, tp). tp_id tp) (filter (\<lambda>(k, tp). is_active tp) kvs)"
  by (induction kvs arbitrary: env)
    (auto simp: case_prod_unfold Let_def complete_transfer_def refresh_aggregate_def)

lemma drain_forces:
  assumes "tick mv poll cb g 1 utils (clock 9999) ex s k = ([], ex1, s1, k1)"
    and "map_of (ex_transfers ex1) i = Some tp" and "is_active tp"
    and "drain_ready mv poll cb g utils clock ex s k = (ids, ex', s', k')"
  shows "tp_id tp \<in> set ids" and "map_of (ex_transfers ex') i = Some (forced tp)"
proof -
  have mem: "(i, tp) \<in> set (ex_transfers ex1)" using assms(2) by (rule map_of_SomeD)
  then have "list_ex (\<lambda>kv. is_active (snd kv)) (ex_transfers ex1)"
    using assms(3) by (force simp: list_ex_iff)
  moreover have "drain_loop (Suc 9999) mv poll cb g utils clock ex s k = (ids, ex', s', k')"
    using assms(4) by (simp add: drain_ready_def)
  ultimately have "ids = fst (force_all mv cb (ex_transfers ex1) (env_of ex1 s1 k1)) \<and>
      ex_transfers ex' = map (\<lambda>(k, tp). (k, forced tp)) (ex_transfers ex1)"
    unfolding drain_loop.simps(2) assms(1) by (auto simp: force_all_transfers case_prod_unfold Let_def)
  then show "tp_id tp \<in> set ids" and "map_of (ex_transfers ex') i = Some (forced tp)"
    using mem assms(2,3) by (force simp: force_all_ids, simp add: lookup_mapped)
qed

lemma total_sent_less_size:
  assumes "\<forall>c \<in> set chs. chunk_inv c" and "ch \<in> set chs" and "ch_sent ch < ch_size ch"
  shows "total_sent chs < total_size chs"
proof -
  from assms(2) obtain xs ys where chs: "chs = xs @ ch # ys" by (auto dest: split_list)
  have "total_sent xs \<le> total_size xs" "total_sent ys \<le> total_size ys"
    using assms(1) by (auto simp: chs intro!: total_sent_le_size)
  with assms(3) show ?thesis
    by (simp add: chs total_sent_def total_size_def word_less_nat_alt)
qed

lemma forced_keeps_waiting:
  assumes "tp_inv tp" and "is_active tp" and "ch \<in> set (tp_chunks tp)"
    and "ch_state ch \<noteq> InFlight" and "ch_sent ch < ch_size ch"
  shows "ch \<in> set (tp_chunks (forced tp))" and "tp_bytes_sent (forced tp) < tp_bytes_total tp"
proof -
  let ?chs = "map (advanced None all_dt []) (tp_chunks tp)"
  have "advanced None all_dt [] ch = ch" using assms(4) by (simp add: advanced_def)
  then have mem: "ch \<in> set ?chs" using assms(3) by force
  have chs: "\<forall>ch \<in> set ?chs. chunk_inv ch" "total_size ?chs = unat (tp_bytes_total tp)"
    using assms(1) advanced_inv by (auto simp: tp_inv_def accounted_def)
  have "total_sent ?chs < total_size ?chs" using chs(1) mem assms(5) by (rule total_sent_less_size)
  moreover have "unat (tp_bytes_sent (forced tp)) = total_sent ?chs"
    using refresh_exact(1) [of "tp\<lparr>tp_chunks := ?chs\<rparr>"] chs assms(2) by (simp add: forced_def)
  ultimately show "tp_bytes_sent (forced tp) < tp_bytes_total tp"
    by (simp only: word_less_nat_alt chs(2))
  show "ch \<in> set (tp_chunks (forced tp))"
    using mem assms(2) by (simp add: forced_def refresh_aggregate_def Let_def)
qed

text \<open>
  C34. \<open>drain_ready\<close> reports transfers complete whose bytes it never sent: from any reachable state, if
  its first round completes nothing and leaves a transfer active with a chunk that waits for its rail,
  the drain reports that transfer's id and leaves it completed with no bytes remaining, although the
  waiting chunk is still among its chunks, as unsent as it was, and the bytes it counts as sent are
  fewer than its size.
\<close>
theorem drain_reports_unsent_chunk:
  assumes "reachable g cb (ex, w, k)"
    and "ib_tick cb g 1 utils (clock 9999) ex w k = ([], ex1, w1, k1)"
    and "map_of (ex_transfers ex1) i = Some tp" and "is_active tp"
    and "ch \<in> set (tp_chunks tp)" and "ch_state ch = Pending" and "ch_sent ch < ch_size ch"
    and "drain_ready ib_transfer_chunk ib_poll32 cb g utils clock ex w k = (ids, ex', w', k')"
  shows "i \<in> set ids \<and> (\<exists>tp'. map_of (ex_transfers ex') i = Some tp' \<and> tp_state tp' = Completed \<and>
    tp_bytes_remaining tp' = 0 \<and> ch \<in> set (tp_chunks tp') \<and> tp_bytes_sent tp' < tp_bytes_total tp')"
proof -
  have "exec_inv ex1"
    using tick_inv [of ex ib_transfer_chunk ib_poll32 cb g 1 utils "clock 9999" w k] reachable_inv [OF assms(1)] assms(2)
    by (simp add: ib_tick_def)
  then have tp: "tp_id tp = i" "tp_inv tp" using exec_inv_lookup [OF _ assms(3)] by simp_all
  note forced = drain_forces [OF assms(2) [unfolded ib_tick_def] assms(3,4,8)]
  have "tp_state (forced tp) = Completed" "tp_bytes_remaining (forced tp) = 0"
    using assms(4) by (simp_all add: forced_def)
  with forced forced_keeps_waiting [OF tp(2) assms(4,5) _ assms(7)] assms(6) show ?thesis
    by (simp add: tp(1))
qed

theorem drain_reports_unsent_chunk_witness:
  "\<exists>ids ex' w' k' tp. drain_ready ib_transfer_chunk ib_poll32 None None [] (\<lambda>n i. 0) sample_ex
      (ibverbs_fresh, \<lambda>a. 0) () = (ids, ex', w', k') \<and> 1 \<in> set ids \<and>
    map_of (ex_transfers ex') 1 = Some tp \<and> tp_state tp = Completed \<and> tp_bytes_sent tp < tp_bytes_total tp"
proof -
  let ?w = "(ibverbs_fresh, \<lambda>a. 0) :: wire"
  obtain ids ex' w' k' where run: "drain_ready ib_transfer_chunk ib_poll32 None None [] (\<lambda>n i. 0)
      sample_ex ?w () = (ids, ex', w', k')"
    by (rule prod_cases4)
  obtain ids1 ex1 w1 k1 where tick: "ib_tick None None 1 [] (\<lambda>i. 0) sample_ex ?w () = (ids1, ex1, w1, k1)"
    by (rule prod_cases4)
  let ?tp = "ticked None 1 [] 0 sample_tp"
  have step: "bytes_for_dt None es 1 [] = 1000000" for es
    by (simp add: bytes_for_dt_def bottleneck_gbps_def u64_of_real_def)
  have tp: "is_active ?tp" "tp_chunks ?tp ! 1 \<in> set (tp_chunks ?tp)" "ch_state (tp_chunks ?tp ! 1) = Pending"
      "ch_sent (tp_chunks ?tp ! 1) < ch_size (tp_chunks ?tp ! 1)"
    by (simp_all add: sample_tp_def ticked_def is_active_def settle_chunks_def rail_slot_def kIbRailCount_def
        advanced_def chunk_step_def step concluded_def refresh_aggregate_def default_progress_def Let_def)
  have look: "map_of (ex_transfers ex1) 1 = Some ?tp"
    using ib_tick_transfers [of None None 1 "[]" "\<lambda>i. 0" sample_ex ?w "()"] tick by (simp add: sample_ex_eq)
  have "fst (ib_tick None None 1 [] (\<lambda>i. 0) sample_ex ?w ()) = []"
    using tp(1) by (simp add: ib_tick_def tick_done sample_ex_eq) (auto simp: is_active_def)
  then have "ids1 = []" by (simp add: tick)
  then have "ib_tick None None 1 [] ((\<lambda>n i. 0) (9999 :: nat)) sample_ex ?w () = ([], ex1, w1, k1)" using tick by simp
  from drain_reports_unsent_chunk [OF _ this look tp run] sample_reachable run show ?thesis
    by (auto simp: sample_world_def)
qed

end
