(* ===== verification/Executor_Data.thy ===== *)
theory Executor_Data
  imports Executor_Steps
begin

text \<open>
  The bytes a transfer moves.  A transfer between two real, separate buffers whose chunks cover its
  size keeps, in every memory the executor produces, the bytes it has counted as sent at their place
  in the destination; so when it is completed the destination holds the source.  The lemmas about one
  transfer are proved for any byte mover and used on the ibverbs transport through its interpretation.
\<close>

section \<open>Buffers and spans\<close>

definition chunk_within :: "transfer_progress \<Rightarrow> chunk_progress \<Rightarrow> bool" where
  "chunk_within tp ch \<longleftrightarrow> unat (ch_offset ch) + unat (ch_size ch) \<le> unat (tp_bytes_total tp)"

definition chunk_holds :: "chunk_progress \<Rightarrow> nat \<Rightarrow> bool" where
  "chunk_holds ch x \<longleftrightarrow> unat (ch_offset ch) \<le> x \<and> x < unat (ch_offset ch) + unat (ch_size ch)"

definition buffers_ok :: "transfer_progress \<Rightarrow> bool" where
  "buffers_ok tp \<longleftrightarrow> tp_src_buf tp \<noteq> 0 \<and> tp_dst_buf tp \<noteq> 0 \<and>
     unat (tp_src_buf tp) + unat (tp_bytes_total tp) \<le> 2 ^ 64 \<and>
     unat (tp_dst_buf tp) + unat (tp_bytes_total tp) \<le> 2 ^ 64 \<and>
     ranges_disjoint (tp_src_buf tp) (unat (tp_bytes_total tp)) (tp_dst_buf tp) (unat (tp_bytes_total tp))"

definition layout_ok :: "transfer_progress \<Rightarrow> bool" where
  "layout_ok tp \<longleftrightarrow> buffers_ok tp \<and> (\<forall>ch \<in> set (tp_chunks tp). chunk_within tp ch) \<and>
     (\<forall>x < unat (tp_bytes_total tp). \<exists>ch \<in> set (tp_chunks tp). chunk_holds ch x)"

text \<open>The byte at offset \<open>x\<close> has arrived; the bytes a list of chunks has counted as sent have arrived.\<close>

definition arrived :: "memory \<Rightarrow> transfer_progress \<Rightarrow> nat \<Rightarrow> bool" where
  "arrived m tp x \<longleftrightarrow> m (tp_dst_buf tp + of_nat x) = m (tp_src_buf tp + of_nat x)"

definition delivered :: "memory \<Rightarrow> transfer_progress \<Rightarrow> chunk_progress list \<Rightarrow> bool" where
  "delivered m tp chs \<longleftrightarrow> (\<forall>ch \<in> set chs. \<forall>x. unat (ch_offset ch) \<le> x \<longrightarrow>
     x < unat (ch_offset ch) + unat (ch_sent ch) \<longrightarrow> arrived m tp x)"

text \<open>What may happen to memory while a transfer is worked on.\<close>

definition only_copies :: "transfer_progress \<Rightarrow> memory \<Rightarrow> memory \<Rightarrow> bool" where
  "only_copies tp m m' \<longleftrightarrow>
     (\<forall>x < unat (tp_bytes_total tp).
        m' (tp_src_buf tp + of_nat x) = m (tp_src_buf tp + of_nat x) \<and>
        (m' (tp_dst_buf tp + of_nat x) = m (tp_dst_buf tp + of_nat x) \<or>
         m' (tp_dst_buf tp + of_nat x) = m (tp_src_buf tp + of_nat x)))"

lemma only_copies_refl: "only_copies tp m m"
  by (simp add: only_copies_def)

lemma only_copies_trans: "only_copies tp m m' \<Longrightarrow> only_copies tp m' m'' \<Longrightarrow> only_copies tp m m''"
  unfolding only_copies_def by metis

lemma only_copies_arrived:
  "only_copies tp m m' \<Longrightarrow> x < unat (tp_bytes_total tp) \<Longrightarrow> arrived m tp x \<Longrightarrow> arrived m' tp x"
  by (auto simp: only_copies_def arrived_def)

lemma delivered_mono:
  assumes "only_copies tp m m'" and "delivered m tp chs"
    and "\<forall>ch \<in> set chs. chunk_within tp ch \<and> chunk_inv ch"
  shows "delivered m' tp chs"
  unfolding delivered_def
proof (intro ballI allI impI)
  fix ch x assume ch: "ch \<in> set chs" "unat (ch_offset ch) \<le> x" "x < unat (ch_offset ch) + unat (ch_sent ch)"
  then have "arrived m tp x" using assms(2) by (auto simp: delivered_def)
  moreover have "x < unat (tp_bytes_total tp)"
    using ch assms(3) by (fastforce simp: chunk_within_def chunk_inv_def word_le_nat_alt)
  ultimately show "arrived m' tp x" using only_copies_arrived assms(1) by blast
qed

lemma delivered_Cons: "delivered m tp (ch # chs) \<longleftrightarrow> delivered m tp [ch] \<and> delivered m tp chs"
  by (simp add: delivered_def)

text \<open>Only the spans, the sent bytes and the buffers matter.\<close>

lemma delivered_cong:
  assumes "map (\<lambda>ch. (ch_offset ch, ch_sent ch)) chs = map (\<lambda>ch. (ch_offset ch, ch_sent ch)) chs'"
    and "tp_src_buf tp' = tp_src_buf tp" and "tp_dst_buf tp' = tp_dst_buf tp"
  shows "delivered m tp' chs' \<longleftrightarrow> delivered m tp chs"
proof -
  have "delivered m tp xs \<longleftrightarrow> (\<forall>(off, sent) \<in> set (map (\<lambda>ch. (ch_offset ch, ch_sent ch)) xs).
      \<forall>x. unat off \<le> x \<longrightarrow> x < unat off + unat sent \<longrightarrow> arrived m tp x)" for tp xs
    by (auto simp: delivered_def)
  from this [of tp chs] this [of tp' chs'] show ?thesis by (simp only: assms arrived_def)
qed

abbreviation spans :: "chunk_progress list \<Rightarrow> (u64 \<times> u64) list" where
  "spans chs \<equiv> map (\<lambda>ch. (ch_offset ch, ch_size ch)) chs"

lemma layout_cong:
  assumes "spans (tp_chunks tp') = spans (tp_chunks tp)" and "tp_src_buf tp' = tp_src_buf tp"
    and "tp_dst_buf tp' = tp_dst_buf tp" and "tp_bytes_total tp' = tp_bytes_total tp"
  shows "layout_ok tp' \<longleftrightarrow> layout_ok tp"
proof -
  have "layout_ok tp \<longleftrightarrow> buffers_ok tp \<and>
      (\<forall>(off, sz) \<in> set (spans (tp_chunks tp)). unat off + unat sz \<le> unat (tp_bytes_total tp)) \<and>
      (\<forall>x < unat (tp_bytes_total tp). \<exists>(off, sz) \<in> set (spans (tp_chunks tp)).
         unat off \<le> x \<and> x < unat off + unat sz)" for tp
    by (auto simp: layout_ok_def chunk_within_def chunk_holds_def)
  from this [of tp] this [of tp'] show ?thesis by (simp only: assms buffers_ok_def)
qed

text \<open>Where a transfer may write: the spans of its chunks, when it has buffers.\<close>

definition may_write :: "transfer_progress \<Rightarrow> ptr \<Rightarrow> bool" where
  "may_write tp a \<longleftrightarrow> tp_src_buf tp \<noteq> 0 \<and> tp_dst_buf tp \<noteq> 0 \<and>
     (\<exists>ch \<in> set (tp_chunks tp). in_range a (tp_dst_buf tp + ch_offset ch) (unat (ch_size ch)))"

lemma may_write_cong:
  assumes "spans (tp_chunks tp') = spans (tp_chunks tp)" and "tp_src_buf tp' = tp_src_buf tp"
    and "tp_dst_buf tp' = tp_dst_buf tp"
  shows "may_write tp' = may_write tp"
proof -
  have "may_write tp a \<longleftrightarrow> tp_src_buf tp \<noteq> 0 \<and> tp_dst_buf tp \<noteq> 0 \<and>
      (\<exists>(off, sz) \<in> set (spans (tp_chunks tp)). in_range a (tp_dst_buf tp + off) (unat sz))" for tp a
    by (auto simp: may_write_def)
  from this [of tp] this [of tp'] show ?thesis by (intro ext) (simp only: assms)
qed

section \<open>Working on one transfer, with any byte mover\<close>

text \<open>An address of a chunk's rest, and a chunk's rest inside the buffers.\<close>

lemma chunk_addr: "p + ch_offset ch + ch_sent ch = p + of_nat (unat (ch_offset ch) + unat (ch_sent ch))"
  by (simp add: algebra_simps)

lemma buffer_disjoint:
  assumes "buffers_ok tp" and "x < unat (tp_bytes_total tp)" and "b + n \<le> unat (tp_bytes_total tp)"
  shows "\<not> in_range (tp_src_buf tp + of_nat x) (tp_dst_buf tp + of_nat b) n"
proof
  have le: "unat (tp_bytes_total tp) \<le> 2 ^ 64" using unat_u64_less [of "tp_bytes_total tp"] by simp
  assume "in_range (tp_src_buf tp + of_nat x) (tp_dst_buf tp + of_nat b) n"
  then have "in_range (tp_src_buf tp + of_nat x) (tp_dst_buf tp) (unat (tp_bytes_total tp))"
    using assms(3) le by (rule in_range_offset)
  moreover have "in_range (tp_src_buf tp + of_nat x) (tp_src_buf tp) (unat (tp_bytes_total tp))"
    using assms(2) le by (rule in_range_of_nat)
  ultimately show False using assms(1) by (auto simp: buffers_ok_def ranges_disjoint_def)
qed

lemma memcpy_only_copies:
  assumes "buffers_ok tp" and "b + n \<le> unat (tp_bytes_total tp)"
  shows "only_copies tp m (memcpy (tp_dst_buf tp + of_nat b) (tp_src_buf tp + of_nat b) n m)"
  unfolding only_copies_def
proof (intro allI impI conjI)
  fix x assume x: "x < unat (tp_bytes_total tp)"
  show "memcpy (tp_dst_buf tp + of_nat b) (tp_src_buf tp + of_nat b) n m (tp_src_buf tp + of_nat x) =
      m (tp_src_buf tp + of_nat x)"
    using buffer_disjoint [OF assms(1) x assms(2)] by (rule memcpy_outside)
  show "memcpy (tp_dst_buf tp + of_nat b) (tp_src_buf tp + of_nat b) n m (tp_dst_buf tp + of_nat x) =
      m (tp_dst_buf tp + of_nat x) \<or>
      memcpy (tp_dst_buf tp + of_nat b) (tp_src_buf tp + of_nat b) n m (tp_dst_buf tp + of_nat x) =
      m (tp_src_buf tp + of_nat x)"
    by (simp add: memcpy_def)
qed

lemma memcpy_arrives:
  assumes "buffers_ok tp" and "b + n \<le> unat (tp_bytes_total tp)" and "b \<le> x" and "x < b + n"
  shows "arrived (memcpy (tp_dst_buf tp + of_nat b) (tp_src_buf tp + of_nat b) n m) tp x"
proof -
  have "x < unat (tp_bytes_total tp)" using assms by simp
  from buffer_disjoint [OF assms(1) this assms(2)]
  have "memcpy (tp_dst_buf tp + of_nat b) (tp_src_buf tp + of_nat b) n m (tp_src_buf tp + of_nat x) =
      m (tp_src_buf tp + of_nat x)" by (rule memcpy_outside)
  moreover have "x - b < n" "x - b < 2 ^ 64"
    using assms unat_u64_less [of "tp_bytes_total tp"] by auto
  from memcpy_inside [OF this, of "tp_dst_buf tp + of_nat b" "tp_src_buf tp + of_nat b" m]
  have "memcpy (tp_dst_buf tp + of_nat b) (tp_src_buf tp + of_nat b) n m (tp_dst_buf tp + of_nat x) =
      m (tp_src_buf tp + of_nat x)"
    using assms(3) by (simp add: add.assoc flip: of_nat_add)
  ultimately show ?thesis by (simp add: arrived_def)
qed

lemma advanced_step_exact:
  assumes "chunk_inv ch" and "ch_state ch = InFlight" and "ch_sent ch \<noteq> ch_size ch"
  shows "unat (ch_sent (advanced g dt utils ch)) = unat (ch_sent ch) + unat (chunk_step g dt utils ch)"
    and "unat (ch_sent ch) + unat (chunk_step g dt utils ch) \<le> unat (ch_size ch)"
proof -
  have le: "ch_sent ch \<le> ch_size ch" using assms(1) by (simp add: chunk_inv_def)
  from chunk_step_exact [OF this, of g dt utils] assms
  show "unat (ch_sent (advanced g dt utils ch)) = unat (ch_sent ch) + unat (chunk_step g dt utils ch)"
    and "unat (ch_sent ch) + unat (chunk_step g dt utils ch) \<le> unat (ch_size ch)"
    by (simp_all add: advanced_sent word_le_nat_alt)
qed

lemma advance_chunk_wire:
  "te_wire (snd (advance_chunk mv g dt utils tp ch env)) =
     (if ch_state ch = InFlight \<and> ch_sent ch \<noteq> ch_size ch
      then maybe_wire_chunk mv tp ch (chunk_step g dt utils ch) (te_wire env) else te_wire env)"
  by (auto simp: advance_chunk_def Let_def)

lemma promote_map: "(\<And>ch. f (ch\<lparr>ch_state := InFlight\<rparr>) = f ch) \<Longrightarrow> map f (promote busy chs) = map f chs"
  by (induction busy chs rule: promote.induct) (simp_all add: Let_def)

lemma settle_map:
  "(\<And>ch s. f (ch\<lparr>ch_state := s\<rparr>) = f ch) \<Longrightarrow> map f (settle_chunks tp) = map f (tp_chunks tp)"
  by (auto simp: settle_chunks_def promote_map park_chunk_def comp_def)

lemma settle_spans [simp]: "spans (settle_chunks tp) = spans (tp_chunks tp)"
  by (rule settle_map) simp

lemma in_settle_span:
  assumes "ch \<in> set (settle_chunks tp)"
  shows "(ch_offset ch, ch_size ch) \<in> set (spans (tp_chunks tp))"
proof -
  have "(ch_offset ch, ch_size ch) \<in> set (spans (settle_chunks tp))"
    unfolding list.set_map by (rule image_eqI [OF _ assms]) simp
  then show ?thesis by (simp only: settle_spans)
qed

lemma concluded_chunks:
  "(\<And>ch s. f (ch\<lparr>ch_state := s\<rparr>) = f ch) \<Longrightarrow> map f (tp_chunks (concluded now tp)) = map f (tp_chunks tp)"
  by (simp add: concluded_def comp_def Let_def)

lemma ticked_spans [simp]: "spans (tp_chunks (ticked g dt utils now tp)) = spans (tp_chunks tp)"
  by (simp add: ticked_def concluded_chunks comp_def)

text \<open>The addresses of a transfer's buffers, and another transfer that writes to none of them.\<close>

definition in_buffers :: "transfer_progress \<Rightarrow> ptr \<Rightarrow> bool" where
  "in_buffers tp a \<longleftrightarrow> in_range a (tp_src_buf tp) (unat (tp_bytes_total tp)) \<or>
     in_range a (tp_dst_buf tp) (unat (tp_bytes_total tp))"

definition apart :: "transfer_progress \<Rightarrow> transfer_progress \<Rightarrow> bool" where
  "apart tp tq \<longleftrightarrow> (\<forall>a. may_write tq a \<longrightarrow> \<not> in_buffers tp a)"

lemma same_bytes_only_copies:
  assumes "\<And>a. in_buffers tp a \<Longrightarrow> m' a = m a"
  shows "only_copies tp m m'"
proof -
  have "unat (tp_bytes_total tp) \<le> 2 ^ 64" using unat_u64_less [of "tp_bytes_total tp"] by simp
  then show ?thesis
    using assms by (simp add: only_copies_def in_buffers_def in_range_of_nat)
qed

context byte_mover
begin

lemma wire_usable [simp]: "usable (maybe_wire_chunk move tp ch step s) = usable s"
  by (simp add: maybe_wire_chunk_def usable_move)

lemma wire_memory:
  assumes "usable s" and "buffers_ok tp"
    and that: "unat (ch_offset ch) + unat (ch_sent ch) + unat step \<le> unat (tp_bytes_total tp)"
  shows "mem (maybe_wire_chunk move tp ch step s) =
    memcpy (tp_dst_buf tp + of_nat (unat (ch_offset ch) + unat (ch_sent ch)))
      (tp_src_buf tp + of_nat (unat (ch_offset ch) + unat (ch_sent ch))) (unat step) (mem s)"
proof (cases "step = 0")
  case True
  then show ?thesis by (auto simp: maybe_wire_chunk_def memcpy_def)
next
  case False
  let ?b = "unat (ch_offset ch) + unat (ch_sent ch)"
  have b: "?b < unat (tp_bytes_total tp)" using that False by (simp add: unat_eq_0 [symmetric] flip: neq0_conv)
  have "p + of_nat ?b \<noteq> 0" if "p \<noteq> 0" "unat p + unat (tp_bytes_total tp) \<le> 2 ^ 64" for p :: ptr
  proof -
    have "unat (p + of_nat ?b) = unat p + ?b"
      using that b unat_u64_less [of "tp_bytes_total tp"] by (intro unat_plus_of_nat) auto
    then have "unat (p + of_nat ?b) \<noteq> 0" using that(1) by (simp add: unat_eq_0 del: of_nat_add)
    then show ?thesis by (metis unat_0)
  qed
  then have "tp_src_buf tp + of_nat ?b \<noteq> 0" "tp_dst_buf tp + of_nat ?b \<noteq> 0"
    using assms(2) by (auto simp: buffers_ok_def simp del: of_nat_add)
  then show ?thesis
    using assms False unfolding maybe_wire_chunk_def buffers_ok_def chunk_addr by (simp add: moves del: of_nat_add)
qed

lemma advance_chunk_delivers:
  assumes "usable (te_wire env)" and "buffers_ok tp" and "chunk_within tp ch" and "chunk_inv ch"
    and "delivered (mem (te_wire env)) tp [ch]"
    and r_def: "r = advance_chunk move g dt utils tp ch env"
  shows "usable (te_wire (snd r))"
    and "only_copies tp (mem (te_wire env)) (mem (te_wire (snd r)))"
    and "delivered (mem (te_wire (snd r))) tp [fst r]"
proof -
  show "usable (te_wire (snd r))" using assms(1) by (simp add: r_def advance_chunk_wire)
  have fst: "fst r = advanced g dt utils ch" by (simp add: r_def)
  let ?b = "unat (ch_offset ch) + unat (ch_sent ch)" and ?n = "unat (chunk_step g dt utils ch)"
  have "only_copies tp (mem (te_wire env)) (mem (te_wire (snd r))) \<and>
      delivered (mem (te_wire (snd r))) tp [advanced g dt utils ch]"
  proof (cases "ch_state ch = InFlight \<and> ch_sent ch \<noteq> ch_size ch")
    case True
    note ex = advanced_step_exact [OF assms(4) conjunct1 [OF True] conjunct2 [OF True], of g dt utils]
    then have bn: "?b + ?n \<le> unat (tp_bytes_total tp)" using assms(3) by (simp add: chunk_within_def)
    then have mem': "mem (te_wire (snd r)) = memcpy (tp_dst_buf tp + of_nat ?b)
        (tp_src_buf tp + of_nat ?b) ?n (mem (te_wire env))"
      using True assms(1,2) by (simp add: r_def advance_chunk_wire wire_memory del: of_nat_add)
    have copies: "only_copies tp (mem (te_wire env)) (mem (te_wire (snd r)))"
      unfolding mem' using assms(2) bn by (rule memcpy_only_copies)
    have "arrived (mem (te_wire (snd r))) tp x"
      if "unat (ch_offset ch) \<le> x" "x < unat (ch_offset ch) + unat (ch_sent (advanced g dt utils ch))" for x
    proof (cases "x < ?b")
      case True
      then have "arrived (mem (te_wire env)) tp x" using assms(5) that by (simp add: delivered_def)
      then show ?thesis using only_copies_arrived [OF copies] True bn by simp
    next
      case False
      then have "?b \<le> x" "x < ?b + ?n" using that ex(1) by simp_all
      then show ?thesis unfolding mem' using assms(2) bn by (intro memcpy_arrives) auto
    qed
    with copies show ?thesis by (simp add: delivered_def)
  next
    case False
    then have "ch_sent (advanced g dt utils ch) = ch_sent ch" using assms(4) by (auto simp: advanced_sent)
    with False assms(5) show ?thesis
      by (auto simp: r_def advance_chunk_wire only_copies_refl delivered_def)
  qed
  then show "only_copies tp (mem (te_wire env)) (mem (te_wire (snd r)))"
    and "delivered (mem (te_wire (snd r))) tp [fst r]" by (simp_all add: fst)
qed

lemma advance_chunks_deliver:
  assumes "usable (te_wire env)" and "buffers_ok tp"
    and "\<forall>ch \<in> set chs. chunk_within tp ch \<and> chunk_inv ch"
    and "delivered (mem (te_wire env)) tp chs"
  shows "usable (te_wire (snd (advance_chunks move g dt utils tp chs env))) \<and>
    only_copies tp (mem (te_wire env)) (mem (te_wire (snd (advance_chunks move g dt utils tp chs env)))) \<and>
    delivered (mem (te_wire (snd (advance_chunks move g dt utils tp chs env)))) tp
      (map (advanced g dt utils) chs)"
  using assms
proof (induction chs arbitrary: env)
  case Nil
  then show ?case by (simp add: only_copies_refl delivered_def)
next
  case (Cons ch chs)
  let ?r = "advance_chunk move g dt utils tp ch env"
  let ?r2 = "advance_chunks move g dt utils tp chs (snd ?r)"
  have d: "delivered (mem (te_wire env)) tp [ch]" "delivered (mem (te_wire env)) tp chs"
    using Cons.prems(4) by (simp_all only: delivered_Cons [of _ _ ch chs])
  have ch: "chunk_within tp ch" "chunk_inv ch" using Cons.prems(3) by simp_all
  note one = advance_chunk_delivers [OF Cons.prems(1,2) ch d(1) refl, of g dt utils]
  have "delivered (mem (te_wire (snd ?r))) tp chs"
    by (rule delivered_mono [OF one(2) d(2)]) (use Cons.prems(3) in simp)
  from Cons.IH [OF one(1) Cons.prems(2) _ this] Cons.prems(3)
  have rest: "usable (te_wire (snd ?r2))" "only_copies tp (mem (te_wire (snd ?r))) (mem (te_wire (snd ?r2)))"
    "delivered (mem (te_wire (snd ?r2))) tp (map (advanced g dt utils) chs)" by simp_all
  have "\<forall>c \<in> set [advanced g dt utils ch]. chunk_within tp c \<and> chunk_inv c"
    using ch by (simp add: advanced_inv chunk_within_def)
  from delivered_mono [OF rest(2) one(3) [unfolded fst_advance_chunk] this]
  have "delivered (mem (te_wire (snd ?r2))) tp [advanced g dt utils ch]" .
  then have "delivered (mem (te_wire (snd ?r2))) tp (map (advanced g dt utils) (ch # chs))"
    using rest(3) by (subst list.map(2), subst delivered_Cons) (rule conjI)
  moreover have "te_wire (snd (advance_chunks move g dt utils tp (ch # chs) env)) = te_wire (snd ?r2)"
    by (simp add: case_prod_unfold Let_def)
  ultimately show ?case
    using rest(1) only_copies_trans [OF one(2) rest(2)] by presburger
qed

text \<open>Nothing is written outside the spans of the chunks.\<close>

lemma wire_frame:
  assumes "unat (ch_sent ch) + unat step \<le> unat (ch_size ch)"
    and "tp_src_buf tp \<noteq> 0 \<Longrightarrow> tp_dst_buf tp \<noteq> 0 \<Longrightarrow>
         \<not> in_range a (tp_dst_buf tp + ch_offset ch) (unat (ch_size ch))"
  shows "mem (maybe_wire_chunk move tp ch step s) a = mem s a"
proof (cases "step = 0 \<or> tp_src_buf tp = 0 \<or> tp_dst_buf tp = 0")
  case False
  then have out: "\<not> in_range a (tp_dst_buf tp + ch_offset ch) (unat (ch_size ch))" using assms(2) by simp
  have "unat (ch_size ch) \<le> 2 ^ 64" using unat_u64_less [of "ch_size ch"] by simp
  then have "\<not> in_range a (tp_dst_buf tp + ch_offset ch + of_nat (unat (ch_sent ch))) (unat step)"
    using out in_range_offset [OF _ assms(1)] by blast
  from move_frame [OF this] False show ?thesis by (simp add: maybe_wire_chunk_def)
qed (simp add: maybe_wire_chunk_def)

lemma advance_chunk_usable [simp]:
  "usable (te_wire (snd (advance_chunk move g dt utils tp ch env))) = usable (te_wire env)"
  by (simp add: advance_chunk_wire)

lemma advance_chunks_usable [simp]:
  "usable (te_wire (snd (advance_chunks move g dt utils tp chs env))) = usable (te_wire env)"
  by (induction chs arbitrary: env) (simp_all add: case_prod_unfold Let_def)

lemma advance_chunks_frame:
  assumes "\<forall>ch \<in> set chs. chunk_inv ch \<and> (tp_src_buf tp \<noteq> 0 \<longrightarrow> tp_dst_buf tp \<noteq> 0 \<longrightarrow>
             \<not> in_range a (tp_dst_buf tp + ch_offset ch) (unat (ch_size ch)))"
  shows "mem (te_wire (snd (advance_chunks move g dt utils tp chs env))) a = mem (te_wire env) a"
  using assms
proof (induction chs arbitrary: env)
  case (Cons ch chs)
  have "mem (te_wire (snd (advance_chunk move g dt utils tp ch env))) a = mem (te_wire env) a"
  proof (cases "ch_state ch = InFlight \<and> ch_sent ch \<noteq> ch_size ch")
    case True
    then have "unat (ch_sent ch) + unat (chunk_step g dt utils ch) \<le> unat (ch_size ch)"
      using Cons.prems by (intro advanced_step_exact(2)) simp_all
    from wire_frame [OF this, of tp a] Cons.prems True show ?thesis
      by (simp add: advance_chunk_wire)
  next
    case False
    then have "te_wire (snd (advance_chunk move g dt utils tp ch env)) = te_wire env"
      by (auto simp: advance_chunk_wire)
    then show ?thesis by simp
  qed
  with Cons.IH Cons.prems show ?case by (simp add: case_prod_unfold Let_def)
qed simp

lemma tick_transfer_frame:
  assumes "tp_inv tp" and "\<not> may_write tp a"
  shows "mem (te_wire (snd (snd (tick_transfer move cb g dt utils now tp env)))) a = mem (te_wire env) a"
proof -
  have "\<forall>ch \<in> set (settle_chunks tp). chunk_inv ch \<and> (tp_src_buf tp \<noteq> 0 \<longrightarrow> tp_dst_buf tp \<noteq> 0 \<longrightarrow>
      \<not> in_range a (tp_dst_buf tp + ch_offset ch) (unat (ch_size ch)))"
    using assms settle_inv [of tp] in_settle_span [of _ tp]
    by (fastforce simp: may_write_def tp_inv_def accounted_def)
  then show ?thesis by (simp add: tick_transfer_wire advance_chunks_frame)
qed

lemma tick_transfer_usable [simp]:
  "usable (te_wire (snd (snd (tick_transfer move cb g dt utils now tp env)))) = usable (te_wire env)"
  by (simp add: tick_transfer_wire)

lemma tick_transfer_delivers:
  assumes "usable (te_wire env)" and layout: "layout_ok tp" and inv: "tp_inv tp"
    and del: "delivered (mem (te_wire env)) tp (tp_chunks tp)"
    and tp'_def: "tp' = ticked g dt utils now tp"
    and m'_def: "m' = mem (te_wire (snd (snd (tick_transfer move cb g dt utils now tp env))))"
  shows "only_copies tp (mem (te_wire env)) m' \<and> delivered m' tp' (tp_chunks tp')"
proof (cases "is_active tp")
  case False
  then show ?thesis
    using del by (simp add: tp'_def m'_def tick_transfer_wire ticked_def only_copies_refl)
next
  case True
  have "chunk_within tp ch" if "ch \<in> set (settle_chunks tp)" for ch
    using in_settle_span [OF that] layout by (auto simp: layout_ok_def chunk_within_def)
  then have chs: "\<forall>ch \<in> set (settle_chunks tp). chunk_within tp ch \<and> chunk_inv ch"
    using settle_inv [of tp] inv by (simp add: tp_inv_def accounted_def)
  have "delivered (mem (te_wire env)) tp (settle_chunks tp)"
    using del by (rule iffD1 [OF delivered_cong, rotated 3]) (simp_all add: settle_map)
  from advance_chunks_deliver [OF assms(1) _ chs this, of g dt utils] layout
  have adv: "only_copies tp (mem (te_wire env)) m'"
      "delivered m' tp (map (advanced g dt utils) (settle_chunks tp))"
    using True by (simp_all add: m'_def tick_transfer_wire layout_ok_def)
  have "map (\<lambda>ch. (ch_offset ch, ch_sent ch)) (map (advanced g dt utils) (settle_chunks tp)) =
      map (\<lambda>ch. (ch_offset ch, ch_sent ch)) (tp_chunks tp')"
    using True by (simp add: tp'_def ticked_def concluded_chunks)
  from delivered_cong [OF this, of tp' tp m'] adv(2)
  have "delivered m' tp' (tp_chunks tp')" by (simp add: tp'_def)
  with adv(1) show ?thesis by simp
qed

lemma tick_all_usable [simp]:
  "usable (te_wire (snd (snd (tick_all move cb g dt utils clock kvs env)))) = usable (te_wire env)"
proof (induction kvs arbitrary: env)
  case (Cons kv kvs)
  then show ?case by (cases kv) (simp add: case_prod_unfold Let_def)
qed simp

text \<open>The other transfers of a round leave a transfer's buffers alone; its own turn delivers.\<close>

lemma tick_all_apart:
  assumes "\<forall>(j, tq) \<in> set kvs. tp_inv tq \<and> apart tp tq" and "in_buffers tp a"
  shows "mem (te_wire (snd (snd (tick_all move cb g dt utils clock kvs env)))) a = mem (te_wire env) a"
  using assms(1)
proof (induction kvs arbitrary: env)
  case (Cons kv kvs)
  obtain j tq where kv: "kv = (j, tq)" by (cases kv)
  have "mem (te_wire (snd (snd (tick_transfer move cb g dt utils (clock j) tq env)))) a = mem (te_wire env) a"
    using Cons.prems assms(2) by (intro tick_transfer_frame) (auto simp: kv apart_def)
  with Cons kv show ?case by (simp add: case_prod_unfold Let_def)
qed simp

lemma tick_all_delivers:
  assumes "distinct (map fst kvs)" and "map_of kvs i = Some tp"
    and "\<forall>(j, tq) \<in> set kvs. tp_inv tq \<and> (j \<noteq> i \<longrightarrow> apart tp tq)"
    and "usable (te_wire env)" and "layout_ok tp"
    and "delivered (mem (te_wire env)) tp (tp_chunks tp)"
    and tp': "tp' = ticked g dt utils (clock i) tp"
    and m': "m' = mem (te_wire (snd (snd (tick_all move cb g dt utils clock kvs env))))"
  shows "only_copies tp (mem (te_wire env)) m' \<and> delivered m' tp' (tp_chunks tp')"
  using assms(1-6) m'
proof (induction kvs arbitrary: env)
  case (Cons kv kvs)
  obtain j tq where kv: "kv = (j, tq)" by (cases kv)
  define env1 where "env1 = snd (snd (tick_transfer move cb g dt utils (clock j) tq env))"
  have m'1: "m' = mem (te_wire (snd (snd (tick_all move cb g dt utils clock kvs env1))))"
    using Cons.prems(7) by (simp add: kv env1_def case_prod_unfold Let_def)
  have inv: "tp_inv tp"
    using map_of_SomeD [OF Cons.prems(2)] Cons.prems(3) by blast
  have dom: "\<forall>ch \<in> set (tp_chunks tp). chunk_within tp ch \<and> chunk_inv ch"
    using Cons.prems(5) inv by (simp add: layout_ok_def tp_inv_def accounted_def)
  show ?case
  proof (cases "j = i")
    case True
    then have tq: "tq = tp" using Cons.prems(2) by (simp add: kv)
    have one: "only_copies tp (mem (te_wire env)) (mem (te_wire env1))"
        "delivered (mem (te_wire env1)) tp' (tp_chunks tp')"
      using tick_transfer_delivers [OF Cons.prems(4,5) inv Cons.prems(6) tp' refl, of cb]
      by (simp_all add: env1_def True tq)
    have "j \<notin> fst ` set kvs" using Cons.prems(1) by (simp add: kv)
    then have "\<forall>(j, tq) \<in> set kvs. tp_inv tq \<and> apart tp tq"
      using Cons.prems(3) True by (force simp: kv)
    then have rest: "only_copies tp (mem (te_wire env1)) m'"
      unfolding m'1 by (intro same_bytes_only_copies tick_all_apart)
    have inv': "\<forall>ch \<in> set (tp_chunks tp'). chunk_within tp' ch \<and> chunk_inv ch"
    proof -
      have "layout_ok tp'" using Cons.prems(5) layout_cong [of tp' tp] by (simp add: tp')
      then show ?thesis
        using ticked_inv [OF inv, of g dt utils "clock i"] by (simp add: layout_ok_def tp' tp_inv_def accounted_def)
    qed
    have "only_copies tp' (mem (te_wire env1)) m'" using rest by (simp add: only_copies_def tp')
    from delivered_mono [OF this one(2) inv'] only_copies_trans [OF one(1) rest] show ?thesis by blast
  next
    case False
    have look: "map_of kvs i = Some tp" using Cons.prems(2) False by (simp add: kv)
    have frame: "only_copies tp (mem (te_wire env)) (mem (te_wire env1))"
      unfolding env1_def
      by (rule same_bytes_only_copies, rule tick_transfer_frame)
        (use Cons.prems(3) False in \<open>auto simp: kv apart_def\<close>)
    have "delivered (mem (te_wire env1)) tp (tp_chunks tp)"
      by (rule delivered_mono [OF frame Cons.prems(6) dom])
    moreover have "usable (te_wire env1)" using Cons.prems(4) by (simp add: env1_def)
    ultimately have "only_copies tp (mem (te_wire env1)) m' \<and> delivered m' tp' (tp_chunks tp')"
      using Cons.prems(1,3,5) by (intro Cons.IH [OF _ look _ _ _ _ m'1]) (simp_all add: kv)
    then show ?thesis using only_copies_trans [OF frame] by blast
  qed
qed simp

end

section \<open>The executor on the ibverbs transport\<close>

text \<open>
  What is known of a transfer \<open>i\<close> on its way: its buffers and layout are sound, the source still holds
  the bytes it held at the start (\<open>m0\<close>), its chunks lie where they lay, and every byte counted as sent
  has arrived.
\<close>

definition on_its_way :: "memory \<Rightarrow> transfer_id \<Rightarrow> transfer_progress \<Rightarrow> 'k world \<Rightarrow> bool" where
  "on_its_way m0 i tp0 c \<longleftrightarrow> exec_inv (fst c) \<and> ib_ready (fst (fst (snd c))) \<and>
     (\<exists>tp. map_of (ex_transfers (fst c)) i = Some tp \<and> layout_ok tp \<and>
        tp_src_buf tp = tp_src_buf tp0 \<and> tp_dst_buf tp = tp_dst_buf tp0 \<and>
        tp_bytes_total tp = tp_bytes_total tp0 \<and> spans (tp_chunks tp) = spans (tp_chunks tp0) \<and>
        delivered (snd (fst (snd c))) tp (tp_chunks tp) \<and>
        (\<forall>x < unat (tp_bytes_total tp).
           snd (fst (snd c)) (tp_src_buf tp + of_nat x) = m0 (tp_src_buf tp + of_nat x)))"

text \<open>No other transfer of the table may write to the buffers of \<open>tp\<close>.\<close>

definition isolated :: "transfer_id \<Rightarrow> transfer_progress \<Rightarrow> executor \<Rightarrow> bool" where
  "isolated i tp ex \<longleftrightarrow> (\<forall>(j, tq) \<in> set (ex_transfers ex). j \<noteq> i \<longrightarrow> apart tp tq)"

inductive isolated_step ::
  "graph_edge list option \<Rightarrow> 'k completion_fn \<Rightarrow> transfer_id \<Rightarrow> transfer_progress \<Rightarrow> 'k world \<Rightarrow> 'k world \<Rightarrow> bool"
  for g cb i tp where
  "exec_step g cb c c' \<Longrightarrow> i \<noteq> ex_next_id (fst c) \<Longrightarrow> isolated i tp (fst c) \<Longrightarrow>
   isolated_step g cb i tp c c'"

lemma apart_cong:
  assumes "tp_src_buf tp = tp_src_buf tp0" and "tp_dst_buf tp = tp_dst_buf tp0"
    and "tp_bytes_total tp = tp_bytes_total tp0"
  shows "apart tp tq = apart tp0 tq"
  using assms by (simp add: apart_def in_buffers_def)

text \<open>Operations that are not ticks keep the chunks' spans and sent bytes and touch no memory.\<close>

lemma map_state_only:
  "map (\<lambda>ch. (ch_offset ch, ch_sent ch)) (map cancel_chunk chs) = map (\<lambda>ch. (ch_offset ch, ch_sent ch)) chs"
  "spans (map cancel_chunk chs) = spans chs"
  "map (\<lambda>ch. (ch_offset ch, ch_sent ch)) (map (reroute_chunk es r) chs) = map (\<lambda>ch. (ch_offset ch, ch_sent ch)) chs"
  "spans (map (reroute_chunk es r) chs) = spans chs"
  by (simp_all add: cancel_chunk_def reroute_chunk_def)

lemma reroute_buffers [simp]:
  "tp_src_buf (reroute_transfer g path tp) = tp_src_buf tp"
  "tp_dst_buf (reroute_transfer g path tp) = tp_dst_buf tp"
  by (simp_all add: reroute_transfer_def Let_def)

lemma transfer_call_layout:
  "transfer_call g tp tp' \<Longrightarrow>
     spans (tp_chunks tp') = spans (tp_chunks tp) \<and> tp_src_buf tp' = tp_src_buf tp \<and>
     tp_dst_buf tp' = tp_dst_buf tp \<and> tp_bytes_total tp' = tp_bytes_total tp \<and>
     map (\<lambda>ch. (ch_offset ch, ch_sent ch)) (tp_chunks tp') =
     map (\<lambda>ch. (ch_offset ch, ch_sent ch)) (tp_chunks tp)"
proof (induction rule: transfer_call.induct)
  case (tc_cancel tp)
  show ?case using map_state_only(1,2) [of "tp_chunks tp"] by simp
next
  case (tc_reroute tp path)
  show ?case
    using map_state_only(3,4) [of "edge_indices path" "rail_of_path g (edge_indices path)" "tp_chunks tp"]
    by (simp add: promote_map)
qed (simp_all add: mark_suspend_def)

lemma transfer_call_delivered:
  assumes "transfer_call g tp tp'"
  shows "layout_ok tp' = layout_ok tp" and "delivered m tp' (tp_chunks tp') = delivered m tp (tp_chunks tp)"
proof -
  note same = transfer_call_layout [OF assms]
  show "layout_ok tp' = layout_ok tp" by (rule layout_cong) (simp_all only: same)
  show "delivered m tp' (tp_chunks tp') = delivered m tp (tp_chunks tp)"
    by (rule delivered_cong) (simp_all only: same)
qed

lemma ib_tick_wire:
  "ib_ready (fst (fst (snd (snd (ib_tick cb g dt utils clock ex w k))))) =
     ib_ready (fst (te_wire (snd (snd (tick_all ib_transfer_chunk cb g dt utils clock (ex_transfers ex) (env_of ex w k))))))"
  "snd (fst (snd (snd (ib_tick cb g dt utils clock ex w k)))) =
     snd (te_wire (snd (snd (tick_all ib_transfer_chunk cb g dt utils clock (ex_transfers ex) (env_of ex w k)))))"
  by (simp_all add: ib_tick_def tick_def ib_poll32_def ib_poll_def case_prod_unfold Let_def)

text \<open>
  A round over the table: the entry of \<open>i\<close> gets the chunks of a tick, and memory is what the tick made
  of it.
\<close>

lemma on_its_way_round:
  assumes way: "on_its_way m0 i tp0 c" and iso: "isolated i tp0 (fst c)" and inv': "exec_inv (fst c')"
    and wire: "(ib_ready (fst (fst (snd c'))), snd (fst (snd c'))) = (\<lambda>w. (ib_ready (fst w), snd w))
      (te_wire (snd (snd (tick_all ib_transfer_chunk cb g dt utils clock (ex_transfers (fst c))
        (env_of (fst c) (fst (snd c)) k)))))"
    and entry: "\<And>tp. map_of (ex_transfers (fst c)) i = Some tp \<Longrightarrow>
      \<exists>tp'. map_of (ex_transfers (fst c')) i = Some tp' \<and>
        tp_chunks tp' = tp_chunks (ticked g dt utils (clock i) tp) \<and> tp_src_buf tp' = tp_src_buf tp \<and>
        tp_dst_buf tp' = tp_dst_buf tp \<and> tp_bytes_total tp' = tp_bytes_total tp"
  shows "on_its_way m0 i tp0 c'"
proof -
  let ?m = "snd (fst (snd c))" and ?m' = "snd (fst (snd c'))"
  from way obtain tp where inv: "exec_inv (fst c)" and ready: "ib_ready (fst (fst (snd c)))"
    and tp: "map_of (ex_transfers (fst c)) i = Some tp" and layout: "layout_ok tp"
    and same: "tp_src_buf tp = tp_src_buf tp0" "tp_dst_buf tp = tp_dst_buf tp0"
      "tp_bytes_total tp = tp_bytes_total tp0" and sp: "spans (tp_chunks tp) = spans (tp_chunks tp0)"
    and del: "delivered ?m tp (tp_chunks tp)"
    and src: "\<forall>x < unat (tp_bytes_total tp). ?m (tp_src_buf tp + of_nat x) = m0 (tp_src_buf tp + of_nat x)"
    by (auto simp: on_its_way_def)
  from entry [OF tp] obtain tp' where tp': "map_of (ex_transfers (fst c')) i = Some tp'"
    and chs: "tp_chunks tp' = tp_chunks (ticked g dt utils (clock i) tp)"
    and bufs: "tp_src_buf tp' = tp_src_buf tp" "tp_dst_buf tp' = tp_dst_buf tp"
      "tp_bytes_total tp' = tp_bytes_total tp" by blast
  have all: "\<forall>(j, tq) \<in> set (ex_transfers (fst c)). tp_inv tq \<and> (j \<noteq> i \<longrightarrow> apart tp tq)"
    using inv iso apart_cong [OF same] by (auto simp: exec_inv_def isolated_def)
  have keys: "distinct (map fst (ex_transfers (fst c)))" using inv by (simp add: exec_inv_def)
  have copied: "only_copies tp ?m ?m' \<and>
      delivered ?m' (ticked g dt utils (clock i) tp) (tp_chunks (ticked g dt utils (clock i) tp))"
    using ib.tick_all_delivers [where g = g and dt = dt and utils = utils and clock = clock
        and cb = cb and env = "env_of (fst c) (fst (snd c)) k", OF keys tp all _ layout _ refl refl] ready del wire
    by (auto simp: env_of_def)
  then have "delivered ?m' tp' (tp_chunks tp')"
    by (simp add: chs bufs delivered_def arrived_def)
  moreover have "ib_ready (fst (fst (snd c')))" using ready wire by (auto simp: env_of_def)
  moreover have "layout_ok tp'" using layout layout_cong [of tp' tp] by (simp add: chs bufs)
  moreover have "?m' (tp_src_buf tp + of_nat x) = m0 (tp_src_buf tp + of_nat x)"
    if "x < unat (tp_bytes_total tp)" for x
    using copied src that by (simp add: only_copies_def)
  ultimately show ?thesis
    unfolding on_its_way_def using inv' tp' same sp by (simp add: chs bufs)
qed

lemma on_its_way_tick:
  assumes "on_its_way m0 i tp0 (ex, w, k)" and "isolated i tp0 ex"
  shows "on_its_way m0 i tp0 (snd (ib_tick cb g dt utils clock ex w k))"
proof (rule on_its_way_round [OF assms(1), where cb = cb and g = g and dt = dt and utils = utils and clock = clock and k = k])
  have "exec_inv ex" using assms(1) by (simp add: on_its_way_def)
  then show "exec_inv (fst (snd (ib_tick cb g dt utils clock ex w k)))" by (simp add: ib_tick_def tick_inv)
qed (use assms(2) in \<open>simp_all add: ib_tick_wire lookup_mapped ib_tick_transfers\<close>)

lemma on_its_way_force:
  assumes "on_its_way m0 i tp0 c" and "isolated i tp0 (fst c)" and flow: "all_flowing (fst c)"
  shows "on_its_way m0 i tp0 (force_world ib_transfer_chunk cb c)"
proof (rule on_its_way_round [OF assms(1,2), where cb = cb and g = None and dt = all_dt and utils = "[]"
      and clock = "\<lambda>i. 0" and k = "snd (snd c)"])
  have inv: "exec_inv (fst c)" using assms(1) by (simp add: on_its_way_def)
  then show "exec_inv (fst (force_world ib_transfer_chunk cb c))" using flow by (rule force_inv)
  show "\<exists>tp'. map_of (ex_transfers (fst (force_world ib_transfer_chunk cb c))) i = Some tp' \<and>
      tp_chunks tp' = tp_chunks (ticked None all_dt [] 0 tp) \<and> tp_src_buf tp' = tp_src_buf tp \<and>
      tp_dst_buf tp' = tp_dst_buf tp \<and> tp_bytes_total tp' = tp_bytes_total tp"
    if tp: "map_of (ex_transfers (fst c)) i = Some tp" for tp
  proof -
    have "tp_inv tp" "flowing tp"
      using exec_inv_lookup [OF inv tp] flow map_of_SomeD [OF tp] by (auto simp: all_flowing_def)
    with tp show ?thesis by (simp add: lookup_mapped forced_chunks)
  qed
  have "fst (snd (force_world ib_transfer_chunk cb c)) =
      te_wire (snd (snd (force_all ib_transfer_chunk cb (ex_transfers (fst c)) (env_of (fst c) (fst (snd c)) (snd (snd c))))))"
    by (simp add: force_world_def case_prod_unfold Let_def)
  also have "\<dots> = te_wire (snd (snd (tick_all ib_transfer_chunk cb None all_dt [] (\<lambda>i. 0)
      (ex_transfers (fst c)) (env_of (fst c) (fst (snd c)) (snd (snd c))))))"
    using flow unfolding all_flowing_def by (rule force_all_wire) simp
  finally show "(ib_ready (fst (fst (snd (force_world ib_transfer_chunk cb c)))),
      snd (fst (snd (force_world ib_transfer_chunk cb c)))) = (\<lambda>w. (ib_ready (fst w), snd w))
      (te_wire (snd (snd (tick_all ib_transfer_chunk cb None all_dt [] (\<lambda>i. 0) (ex_transfers (fst c))
        (env_of (fst c) (fst (snd c)) (snd (snd c)))))))" by simp
qed

text \<open>Rounds change no transfer's spans, so they keep the others apart.\<close>

lemma ticked_may_write [simp]: "may_write (ticked g dt utils now tp) = may_write tp"
  by (rule may_write_cong) simp_all

lemma forced_may_write [simp]: "may_write (forced tp) = may_write tp"
  by (rule may_write_cong) (simp_all add: forced_def comp_def refresh_aggregate_def Let_def)

lemma isolated_map:
  "isolated i tp0 ex \<Longrightarrow> ex_transfers ex' = map (\<lambda>(k, tp). (k, f k tp)) (ex_transfers ex) \<Longrightarrow>
   (\<And>k tp. may_write (f k tp) = may_write tp) \<Longrightarrow> isolated i tp0 ex'"
  unfolding isolated_def apart_def by fastforce

lemma on_its_way_drain:
  assumes "on_its_way m0 i tp0 (ex, w, k)" and "isolated i tp0 ex" and "all_flowing ex"
  shows "on_its_way m0 i tp0 (snd (drain_ready ib_transfer_chunk ib_poll32 cb g utils clock ex w k))"
proof -
  let ?P = "\<lambda>c. on_its_way m0 i tp0 c \<and> isolated i tp0 (fst c) \<and> all_flowing (fst c)"
  have "?P (snd (drain_ready ib_transfer_chunk ib_poll32 cb g utils clock ex w k))"
  proof (rule drain_ready_rule [where P = ?P])
    show "?P (ex, w, k)" using assms by simp
    show "?P (snd (tick ib_transfer_chunk ib_poll32 cb g 1 utils clock ex w k))" if P: "?P (ex, w, k)" for clock ex w k
    proof -
      from P have way: "on_its_way m0 i tp0 (ex, w, k)" and iso: "isolated i tp0 ex" and flow: "all_flowing ex"
        by simp_all
      have "isolated i tp0 (fst (snd (tick ib_transfer_chunk ib_poll32 cb g 1 utils clock ex w k)))"
        by (rule isolated_map [OF iso tick_transfers ticked_may_write])
      with on_its_way_tick [OF way iso, of cb g 1 utils clock] show ?thesis
        by (simp add: ib_tick_def tick_flowing [OF flow])
    qed
    show "?P (force_world ib_transfer_chunk cb c)" if P: "?P c" for c
      using P on_its_way_force [of m0 i tp0 c] force_flowing
        isolated_map [OF _ force_world_table(1) forced_may_write, of i tp0 c] by blast
  qed
  then show ?thesis by simp
qed

lemma on_its_way_call:
  assumes "on_its_way m0 i tp0 (ex, w, k)" and tp: "map_of (ex_transfers ex) i = Some tp"
    and "map_of (ex_transfers (fst c')) i = Some tp'" and call: "transfer_call g tp tp'"
    and "snd c' = (w, k)" and "exec_inv (fst c')"
  shows "on_its_way m0 i tp0 c'"
  using assms transfer_call_layout [OF call] transfer_call_delivered [OF call] unfolding on_its_way_def by auto

lemma on_its_way_step:
  assumes "isolated_step g cb i tp0 c c'" and way: "on_its_way m0 i tp0 c"
  shows "on_its_way m0 i tp0 c'"
proof -
  obtain ex w k where c: "c = (ex, w, k)" by (rule prod_cases3)
  from assms(1) have step: "exec_step g cb (ex, w, k) c'" and free: "i \<noteq> ex_next_id ex"
    and iso: "isolated i tp0 ex"
    by (auto simp: c elim: isolated_step.cases)
  from way obtain tp where inv: "exec_inv ex" and tp: "map_of (ex_transfers ex) i = Some tp"
    by (auto simp: on_its_way_def c)
  have inv': "exec_inv (fst c')" using exec_step_inv [OF step] inv by simp
  from exec_step_transfer [OF step inv tp free] show ?thesis
    using on_its_way_call [OF way [unfolded c] tp _ _ _ inv'] on_its_way_tick [OF way [unfolded c] iso]
      on_its_way_drain [OF way [unfolded c] iso] by blast
qed

lemma on_its_way_run:
  "(isolated_step g cb i tp0)\<^sup>*\<^sup>* c c' \<Longrightarrow> on_its_way m0 i tp0 c \<Longrightarrow> on_its_way m0 i tp0 c'"
  by (induction rule: rtranclp_induct) (auto intro: on_its_way_step)

lemma on_its_way_completed:
  assumes "on_its_way m0 i tp0 c" and "map_of (ex_transfers (fst c)) i = Some tp"
    and "tp_state tp = Completed" and "x < unat (tp_bytes_total tp0)"
  shows "snd (fst (snd c)) (tp_dst_buf tp0 + of_nat x) = m0 (tp_src_buf tp0 + of_nat x)"
proof -
  have layout: "layout_ok tp" and del: "delivered (snd (fst (snd c))) tp (tp_chunks tp)"
    and same: "tp_src_buf tp = tp_src_buf tp0" "tp_dst_buf tp = tp_dst_buf tp0"
      "tp_bytes_total tp = tp_bytes_total tp0"
    and src: "snd (fst (snd c)) (tp_src_buf tp + of_nat x) = m0 (tp_src_buf tp + of_nat x)"
    and inv: "tp_inv tp"
    using assms exec_inv_lookup [of "fst c" i tp] by (auto simp: on_its_way_def)
  obtain ch where ch: "ch \<in> set (tp_chunks tp)" "chunk_holds ch x"
    using layout assms(4) same(3) by (auto simp: layout_ok_def)
  have "ch_sent ch = ch_size ch"
    using inv ch(1) assms(3)
    by (auto simp: tp_inv_def accounted_def chunk_inv_def states_agree.simps chunk_states_in_def)
  then have "arrived (snd (fst (snd c))) tp x"
    using del ch by (auto simp: delivered_def chunk_holds_def)
  with src show ?thesis by (simp add: arrived_def same)
qed

section \<open>What a submission sets up\<close>

definition buffers_sound :: "submit_options \<Rightarrow> u64 \<Rightarrow> bool" where
  "buffers_sound opts n \<longleftrightarrow> so_src_buf opts \<noteq> 0 \<and> so_dst_buf opts \<noteq> 0 \<and>
     unat (so_src_buf opts) + unat n \<le> 2 ^ 64 \<and> unat (so_dst_buf opts) + unat n \<le> 2 ^ 64 \<and>
     ranges_disjoint (so_src_buf opts) (unat n) (so_dst_buf opts) (unat n)"

text \<open>Chunks that follow one another from byte \<open>b\<close> on.\<close>

fun contiguous :: "nat \<Rightarrow> chunk_path list \<Rightarrow> bool" where
  "contiguous b [] = True"
| "contiguous b (c # cs) \<longleftrightarrow> unat (ck_offset c) = b \<and> contiguous (b + unat (ck_size c)) cs"

lemma length_stripe_chunks [simp]: "length (stripe_chunks g cs off busy) = length cs"
  by (induction g cs off busy rule: stripe_chunks.induct) (simp_all add: Let_def)

lemma stripe_chunks_spans:
  assumes "contiguous (unat off) cs" and "unat off + (\<Sum>c \<leftarrow> cs. unat (ck_size c)) < 2 ^ 64"
  shows "spans (stripe_chunks g cs off busy) = map (\<lambda>c. (ck_offset c, ck_size c)) cs"
  using assms
proof (induction g cs off busy rule: stripe_chunks.induct)
  case (2 g c cs off busy)
  have "unat (off + ck_size c) = unat off + unat (ck_size c)"
    using "2.prems"(2) by (intro unat_add_exact) simp
  moreover have "(if 0 < ck_offset c then ck_offset c else off) = ck_offset c"
    using "2.prems"(1) by (auto simp: word_unat_eq_iff word_gt_0)
  ultimately show ?case using 2 by (simp add: Let_def)
qed simp

lemma contiguous_within:
  "contiguous b cs \<Longrightarrow> c \<in> set cs \<Longrightarrow>
   unat (ck_offset c) + unat (ck_size c) \<le> b + (\<Sum>c \<leftarrow> cs. unat (ck_size c))"
  by (induction b cs rule: contiguous.induct) fastforce+

lemma contiguous_holds:
  "contiguous b cs \<Longrightarrow> b \<le> x \<Longrightarrow> x < b + (\<Sum>c \<leftarrow> cs. unat (ck_size c)) \<Longrightarrow>
   \<exists>c \<in> set cs. unat (ck_offset c) \<le> x \<and> x < unat (ck_offset c) + unat (ck_size c)"
proof (induction b cs rule: contiguous.induct)
  case (2 b c cs)
  show ?case
  proof (cases "x < b + unat (ck_size c)")
    case True
    with 2 show ?thesis by auto
  next
    case False
    with 2 have "\<exists>c \<in> set cs. unat (ck_offset c) \<le> x \<and> x < unat (ck_offset c) + unat (ck_size c)"
      by (intro "2.IH") simp_all
    then show ?thesis by auto
  qed
qed simp

lemma striped_submission_layout:
  assumes "cs \<noteq> []" and "contiguous 0 cs" and "chunks_cover req cs"
    and "buffers_sound opts (size_bytes req)"
  shows "\<exists>tp. map_of (ex_transfers (snd (submit_striped g now req cs opts ex)))
      (fst (submit_striped g now req cs opts ex)) = Some tp \<and> tp_state tp = InFlight \<and>
    tp_bytes_sent tp = 0 \<and> tp_bytes_total tp = size_bytes req \<and>
    tp_src_buf tp = so_src_buf opts \<and> tp_dst_buf tp = so_dst_buf opts \<and> layout_ok tp \<and> length (tp_chunks tp) = length cs"
proof -
  obtain c rest where cs: "cs = c # rest" using assms(1) by (cases cs) auto
  let ?chs = "stripe_chunks g cs 0 (replicate kIbRailCount False)"
  have total: "(\<Sum>c \<leftarrow> cs. unat (ck_size c)) = unat (size_bytes req)"
    using assms(3) by (simp add: chunks_cover_def)
  have spans: "spans ?chs = map (\<lambda>c. (ck_offset c, ck_size c)) cs"
    using assms(2) total unat_u64_less [of "size_bytes req"] by (intro stripe_chunks_spans) simp_all
  have layout: "layout_ok tp" if tp: "tp_src_buf tp = so_src_buf opts" "tp_dst_buf tp = so_dst_buf opts"
    "tp_bytes_total tp = size_bytes req" "tp_chunks tp = ?chs" for tp
  proof -
    have within: "chunk_within tp ch" if "ch \<in> set ?chs" for ch
    proof -
      have "(ch_offset ch, ch_size ch) \<in> set (spans ?chs)"
        unfolding list.set_map by (rule image_eqI [OF _ that]) simp
      then show ?thesis
        unfolding spans chunk_within_def tp using contiguous_within [OF assms(2)] total by auto
    qed
    have "\<exists>ch \<in> set ?chs. chunk_holds ch x" if x: "x < unat (size_bytes req)" for x
    proof -
      obtain c where c: "c \<in> set cs" "unat (ck_offset c) \<le> x" "x < unat (ck_offset c) + unat (ck_size c)"
        using contiguous_holds [OF assms(2), of x] x total by auto
      then have "(ck_offset c, ck_size c) \<in> set (spans ?chs)" unfolding spans by auto
      then obtain ch where "ch \<in> set ?chs" "ch_offset ch = ck_offset c" "ch_size ch = ck_size c"
        by (auto simp del: stripe_chunks.simps)
      with c show ?thesis by (intro bexI [of _ ch]) (simp_all add: chunk_holds_def)
    qed
    with within assms(4) show ?thesis by (simp add: layout_ok_def buffers_ok_def buffers_sound_def tp)
  qed
  show ?thesis
    by (simp add: submit_striped_def cs update_conv' Let_def layout [unfolded cs] default_progress_def
        del: stripe_chunks.simps)
qed

text \<open>
  A striped submission of contiguous chunks that make up the request, with sound buffers, enters a
  transfer under the id it returns that has sent nothing and whose chunks lie within the buffers and
  between them hold every byte of it.
\<close>
theorem striped_submission_sound:
  assumes "cs \<noteq> []" and "contiguous 0 cs" and "chunks_cover req cs"
    and "buffers_sound opts (size_bytes req)"
  shows "\<exists>tp. map_of (ex_transfers (snd (submit_striped g now req cs opts ex)))
      (fst (submit_striped g now req cs opts ex)) = Some tp \<and> tp_state tp = InFlight \<and>
    tp_bytes_sent tp = 0 \<and> tp_bytes_total tp = size_bytes req \<and> layout_ok tp"
  using striped_submission_layout [OF assms] by blast

lemma submit_layout:
  assumes "buffers_sound opts (size_bytes req)"
  shows "\<exists>tp. map_of (ex_transfers (snd (submit g now req path opts ex)))
      (fst (submit g now req path opts ex)) = Some tp \<and> tp_state tp = InFlight \<and> tp_bytes_sent tp = 0 \<and>
    tp_bytes_total tp = size_bytes req \<and>
    tp_src_buf tp = so_src_buf opts \<and> tp_dst_buf tp = so_dst_buf opts \<and> layout_ok tp \<and> length (tp_chunks tp) = 1"
  using assms
  by (simp add: submit_def update_conv' Let_def layout_ok_def buffers_ok_def buffers_sound_def
      chunk_within_def chunk_holds_def default_progress_def)

text \<open>Two chunks of four bytes each, one per rail, from address 16 to address 64.\<close>

definition copy_request :: transfer_request where
  "copy_request = default_request\<lparr>size_bytes := 8, traffic := KVMigration\<rparr>"

definition copy_chunks :: "chunk_path list" where
  "copy_chunks = [\<lparr>ck_seq = 0, ck_edges = [0], ck_size = 4, ck_offset = 0, ck_rail = 0\<rparr>,
                  \<lparr>ck_seq = 1, ck_edges = [1], ck_size = 4, ck_offset = 4, ck_rail = 1\<rparr>]"

definition copy_buffers :: submit_options where
  "copy_buffers = \<lparr>so_src_buf = 16, so_dst_buf = 64\<rparr>"

definition copy_ex :: executor where
  "copy_ex = snd (submit_striped None 0 copy_request copy_chunks copy_buffers executor_fresh)"

lemma copy_ok: "contiguous 0 copy_chunks" "chunks_cover copy_request copy_chunks"
  "buffers_sound copy_buffers (size_bytes copy_request)"
  by (simp_all add: copy_chunks_def copy_request_def copy_buffers_def chunks_cover_def
      buffers_sound_def ranges_disjoint_below)

theorem striped_submission_sound_witness:
  "\<exists>tp. map_of (ex_transfers copy_ex) 1 = Some tp \<and> tp_bytes_total tp = 8 \<and> layout_ok tp"
proof -
  have "copy_chunks \<noteq> []" by (simp add: copy_chunks_def)
  from striped_submission_sound [OF this copy_ok, of None 0 executor_fresh]
  show ?thesis
    by (auto simp: copy_ex_def submit_striped_def copy_chunks_def executor_fresh_def copy_request_def Let_def)
qed

section \<open>Delivery\<close>

lemma fresh_on_its_way:
  assumes "exec_inv ex" and "ib_ready (fst w)" and "map_of (ex_transfers ex) i = Some tp"
    and "layout_ok tp" and "tp_bytes_sent tp = 0"
  shows "on_its_way (snd w) i tp (ex, w, k)"
proof -
  have "total_sent (tp_chunks tp) = 0"
    using exec_inv_lookup [OF assms(1,3)] assms(5) by (auto simp: tp_inv_def accounted_def)
  then have "\<forall>ch \<in> set (tp_chunks tp). unat (ch_sent ch) = 0"
    by (simp add: total_sent_def)
  then have "delivered (snd w) tp (tp_chunks tp)" by (fastforce simp: delivered_def)
  then show ?thesis using assms(1-4) by (simp add: on_its_way_def)
qed

text \<open>
  C5. From a reachable state in which a transfer with sound buffers and layout has sent nothing, on a
  ready transport, take any number of steps of the executor, in any order, in which no other transfer
  writes to its buffers and \<open>drain_ready\<close> is called only while no active transfer has a chunk that
  waits for its rail: once the transfer is completed, every byte of its destination is the byte its
  source held at the start.
\<close>
theorem completed_means_delivered:
  assumes "reachable g cb (ex, w, k)" and "ib_ready (fst w)"
    and "map_of (ex_transfers ex) i = Some tp" and "layout_ok tp" and "tp_bytes_sent tp = 0"
    and "(isolated_step g cb i tp)\<^sup>*\<^sup>* (ex, w, k) (ex', w', k')"
    and "map_of (ex_transfers ex') i = Some tp'" and "tp_state tp' = Completed"
    and "x < unat (tp_bytes_total tp)"
  shows "snd w' (tp_dst_buf tp + of_nat x) = snd w (tp_src_buf tp + of_nat x)"
proof -
  have "exec_inv ex" using reachable_inv [OF assms(1)] by simp
  from fresh_on_its_way [OF this assms(2-5)]
  have "on_its_way (snd w) i tp (ex, w, k)" .
  from on_its_way_completed [OF on_its_way_run [OF assms(6) this], of tp' x] assms(7-9)
  show ?thesis by simp
qed

definition copy_tp :: transfer_progress where
  "copy_tp = default_progress\<lparr>tp_id := 1, tp_state := InFlight, tp_request := copy_request,
     tp_path_edges := [0, 1], tp_bytes_total := 8, tp_bytes_sent := 0, tp_bytes_remaining := 8,
     tp_slack_us := 0, tp_started_ns := 0, tp_preemptible := True, tp_src_buf := 16, tp_dst_buf := 64,
     tp_chunk_quantum := 4,
     tp_chunks := [\<lparr>ch_seq = 0, ch_edges = [0], ch_offset = 0, ch_size = 4, ch_sent = 0,
                     ch_rail = 0, ch_state = InFlight\<rparr>,
                   \<lparr>ch_seq = 1, ch_edges = [1], ch_offset = 4, ch_size = 4, ch_sent = 0,
                     ch_rail = 1, ch_state = InFlight\<rparr>]\<rparr>"

lemma copy_ex_eq: "copy_ex = executor_fresh\<lparr>ex_next_id := 2, ex_transfers := [(1, copy_tp)]\<rparr>"
  by (simp add: copy_ex_def copy_tp_def submit_striped_def copy_chunks_def executor_fresh_def
      copy_request_def rail_slot_def kIbRailCount_def copy_buffers_def default_progress_def
      default_request_def add_edges_def Let_def)

lemma copy_layout: "layout_ok copy_tp"
  by (auto simp: layout_ok_def buffers_ok_def copy_tp_def default_progress_def chunk_within_def
      chunk_holds_def ranges_disjoint_below)

lemma copy_done: "tp_state (ticked None 1 [] 0 copy_tp) = Completed"
  by (simp add: ticked_def is_active_def copy_tp_def default_progress_def settle_chunks_def
      rail_slot_def kIbRailCount_def advanced_def chunk_step_def bytes_for_dt_def bottleneck_gbps_def
      u64_of_real_def concluded_def refresh_aggregate_def Let_def)

theorem completed_means_delivered_witness:
  "\<exists>ids ex' w' k'. ib_tick None None 1 [] (\<lambda>i. 0) copy_ex
      (ibverbs_fresh\<lparr>ib_ready := True\<rparr>, (\<lambda>a. 0)(21 := 9)) () = (ids, ex', w', k') \<and>
    tp_state (get_transfer 1 ex') = Completed \<and> snd w' 69 = 9"
proof -
  let ?w = "(ibverbs_fresh\<lparr>ib_ready := True\<rparr>, (\<lambda>a. 0)(21 := 9)) :: wire"
  obtain ids ex' w' k' where tick: "ib_tick None None 1 [] (\<lambda>i. 0) copy_ex ?w () = (ids, ex', w', k')"
    by (rule prod_cases4)
  have reach: "reachable None None (copy_ex, ?w, ())"
    using reach_step [OF reach_fresh step_striped [OF copy_ok(2)]] unfolding copy_ex_def .
  have layout: "layout_ok copy_tp" using copy_layout .
  have look: "map_of (ex_transfers copy_ex) 1 = Some copy_tp" by (simp add: copy_ex_eq)
  have fresh: "tp_bytes_sent copy_tp = 0" by (simp add: copy_tp_def default_progress_def)
  have "exec_step None None (copy_ex, ?w, ()) (ex', w', k')"
    using step_tick [of None None copy_ex ?w "()" 1 "[]" "\<lambda>i. 0"] by (simp only: tick snd_conv)
  then have run: "(isolated_step None None 1 copy_tp)\<^sup>*\<^sup>* (copy_ex, ?w, ()) (ex', w', k')"
    by (intro r_into_rtranclp isolated_step.intros) (simp_all add: copy_ex_eq isolated_def)
  have ex': "map_of (ex_transfers ex') 1 = Some (ticked None 1 [] 0 copy_tp)"
    using tick_transfers [of ib_transfer_chunk ib_poll32 None None 1 "[]" "\<lambda>i. 0" copy_ex ?w "()"] tick
    by (simp add: ib_tick_def copy_ex_eq)
  from completed_means_delivered [OF reach _ look layout fresh run ex' copy_done, of 5]
  have "snd w' 69 = 9" by (simp add: copy_tp_def)
  with tick ex' copy_done show ?thesis by (simp add: get_transfer_def)
qed

section \<open>A transport that refuses\<close>

context byte_mover
begin

lemma advance_chunks_refused:
  "\<not> usable (te_wire env) \<Longrightarrow>
   mem (te_wire (snd (advance_chunks move g dt utils tp chs env))) = mem (te_wire env)"
proof (induction chs arbitrary: env)
  case (Cons ch chs)
  have "mem (te_wire (snd (advance_chunk move g dt utils tp ch env))) = mem (te_wire env)"
    using Cons.prems by (simp add: advance_chunk_wire maybe_wire_chunk_def refuses)
  with Cons show ?case by (simp add: case_prod_unfold Let_def)
qed simp

lemma tick_transfer_refused:
  "\<not> usable (te_wire env) \<Longrightarrow>
   mem (te_wire (snd (snd (tick_transfer move cb g dt utils now tp env)))) = mem (te_wire env)"
  by (simp add: tick_transfer_wire advance_chunks_refused)

lemma tick_all_refused:
  "\<not> usable (te_wire env) \<Longrightarrow>
   mem (te_wire (snd (snd (tick_all move cb g dt utils clock kvs env)))) = mem (te_wire env)"
proof (induction kvs arbitrary: env)
  case (Cons kv kvs)
  then show ?case by (cases kv) (simp add: case_prod_unfold Let_def tick_transfer_refused)
qed simp

end

text \<open>Two environments that differ at most in the transport.\<close>

definition same_books :: "('s, 'k) tick_env \<Rightarrow> ('s, 'k) tick_env \<Rightarrow> bool" where
  "same_books e e' \<longleftrightarrow> te_bytes e = te_bytes e' \<and> te_completed e = te_completed e' \<and>
     te_suspends e = te_suspends e' \<and> te_cb e = te_cb e'"

lemma advance_chunk_books:
  "same_books e e' \<Longrightarrow> same_books (snd (advance_chunk mv g dt utils tp ch e))
     (snd (advance_chunk mv g dt utils tp ch e'))"
  by (simp add: same_books_def advance_chunk_def Let_def)

lemma advance_chunks_books:
  "same_books e e' \<Longrightarrow> same_books (snd (advance_chunks mv g dt utils tp chs e))
     (snd (advance_chunks mv g dt utils tp chs e'))"
proof (induction chs arbitrary: e e')
  case (Cons ch chs)
  then show ?case by (simp add: case_prod_unfold Let_def advance_chunk_books)
qed simp

lemma tick_transfer_books:
  assumes "same_books e e'"
  shows "same_books (snd (snd (tick_transfer mv cb g dt utils now tp e)))
     (snd (snd (tick_transfer mv cb g dt utils now tp e')))"
  using assms advance_chunks_books [OF assms, of mv g dt utils tp "settle_chunks tp"]
  by (auto simp: tick_transfer_def conclude_transfer_def complete_transfer_def case_prod_unfold
      same_books_def Let_def split: option.split)

lemma tick_all_books:
  "same_books e e' \<Longrightarrow> same_books (snd (snd (tick_all mv cb g dt utils clock kvs e)))
     (snd (snd (tick_all mv cb g dt utils clock kvs e')))"
proof (induction kvs arbitrary: e e')
  case (Cons kv kvs)
  then show ?case by (cases kv) (simp add: case_prod_unfold Let_def tick_transfer_books)
qed simp

text \<open>
  C35. What a tick reports and records does not depend on the transport: with any two transports the
  same transfers complete and the executor and the callback end up the same, so over a transport
  that is not ready transfers complete although no byte of memory has changed.
\<close>
theorem progress_ignores_transport:
  "fst (ib_tick cb g dt utils clock ex w k) = fst (ib_tick cb g dt utils clock ex w2 k) \<and>
   fst (snd (ib_tick cb g dt utils clock ex w k)) = fst (snd (ib_tick cb g dt utils clock ex w2 k)) \<and>
   snd (snd (snd (ib_tick cb g dt utils clock ex w k))) =
     snd (snd (snd (ib_tick cb g dt utils clock ex w2 k))) \<and>
   (\<not> ib_ready (fst w) \<longrightarrow> snd (fst (snd (snd (ib_tick cb g dt utils clock ex w k)))) = snd w)"
proof -
  let ?r = "\<lambda>w. tick_all ib_transfer_chunk cb g dt utils clock (ex_transfers ex) (env_of ex w k)"
  have "same_books (env_of ex w k) (env_of ex w2 k)" by (simp add: same_books_def env_of_def)
  then have "same_books (snd (snd (?r w))) (snd (snd (?r w2)))" by (rule tick_all_books)
  moreover have "snd (te_wire (snd (snd (?r w)))) = snd w" if "\<not> ib_ready (fst w)"
    using ib.tick_all_refused [of "env_of ex w k" cb g dt utils clock "ex_transfers ex"] that
    by (simp add: env_of_def)
  ultimately show ?thesis
    by (simp add: ib_tick_def tick_def case_prod_unfold Let_def tick_all_done tick_all_transfers
        with_env_def same_books_def ib_poll32_def)
qed

theorem progress_ignores_transport_witness:
  "\<exists>ids ex' w' k'. ib_tick None None 1 [] (\<lambda>i. 0) copy_ex (ibverbs_fresh, \<lambda>a. 3) () = (ids, ex', w', k') \<and>
     tp_state (get_transfer 1 ex') = Completed \<and> snd w' = (\<lambda>a. 3)"
proof -
  let ?t = "ib_tick None None 1 [] (\<lambda>i. 0) copy_ex (ibverbs_fresh, \<lambda>a. 3) ()"
  have "snd (fst (snd (snd ?t))) = (\<lambda>a. 3)"
    using progress_ignores_transport [of None None 1 "[]" "\<lambda>i. 0" copy_ex "(ibverbs_fresh, \<lambda>a. 3)" "()"]
    by (simp add: ibverbs_fresh_def)
  moreover have "map_of (ex_transfers (fst (snd ?t))) 1 = Some (ticked None 1 [] 0 copy_tp)"
    by (simp add: ib_tick_def copy_ex_eq tick_transfers)
  ultimately show ?thesis
    using copy_done by (metis get_transfer_def option.simps(5) prod.collapse)
qed

end
