(* ===== verification/Executor_Live.thy ===== *)
theory Executor_Live
  imports Executor_Steps
begin

text \<open>
  Progress of the executor.  The rate a tick works at has a lower and an upper bound whatever the
  utilisation, so a tick of a reasonable length advances every chunk in flight by at least a byte,
  and in a transfer that is in flight some chunk is; hence ticks alone bring every active transfer
  to an end.
\<close>

section \<open>The rate of a tick\<close>

lemma narrowest_le: "narrowest es utils best p \<le> best"
proof (induction es utils best p rule: narrowest.induct)
  case (2 es utils best e p)
  then show ?case by (fastforce simp: Let_def)
qed simp

lemma bottleneck_bounds [range_intros]:
  "0.1 \<le> bottleneck_gbps g p utils" "bottleneck_gbps g p utils \<le> 10 ^ 9"
  using narrowest_le [of _ utils "10 ^ 9" p]
  by (auto simp: bottleneck_gbps_def split: option.split)

lemma rate_bounds:
  assumes "0 \<le> dt" and "dt \<le> 10 ^ 4"
  shows "nat \<lfloor>10 ^ 5 * dt\<rfloor> \<le> unat (bytes_for_dt g p dt utils) \<and>
         unat (bytes_for_dt g p dt utils) \<le> nat \<lfloor>10 ^ 15 * dt\<rfloor>"
proof -
  let ?b = "bottleneck_gbps g p utils * 10 ^ 9 * (dt / 1000)"
  have lo: "10 ^ 5 * dt \<le> ?b"
    using mult_right_mono [OF bottleneck_bounds(1) [of g p utils], of "10 ^ 9 * (dt / 1000)"] assms(1) by simp
  have hi: "?b \<le> 10 ^ 15 * dt"
    using mult_right_mono [OF bottleneck_bounds(2) [of g p utils], of "10 ^ 9 * (dt / 1000)"] assms(1) by simp
  have "0 \<le> 10 ^ 5 * dt" using assms(1) by simp
  then have "0 \<le> ?b" using lo by linarith
  moreover have "?b < 2 ^ 64" using hi assms(2) by simp
  ultimately have "unat (bytes_for_dt g p dt utils) = nat \<lfloor>?b\<rfloor>"
    by (simp add: bytes_for_dt_def u64_of_real_exact)
  then show ?thesis using lo hi by (simp add: nat_mono floor_mono)
qed

text \<open>
  Whatever the path and its utilisation, a tick of \<open>dt\<close> milliseconds, at most ten seconds, moves
  between \<open>10^5 dt\<close> and \<open>10^15 dt\<close> bytes of each chunk in flight: the conversion to 64 bits does not
  wrap, and a tick of at least ten nanoseconds moves at least one byte.
\<close>
theorem tick_rate_bounds:
  assumes "0 \<le> dt" and "dt \<le> 10 ^ 4"
  shows "nat \<lfloor>10 ^ 5 * dt\<rfloor> \<le> unat (bytes_for_dt g p dt utils) \<and>
         unat (bytes_for_dt g p dt utils) \<le> nat \<lfloor>10 ^ 15 * dt\<rfloor>"
  using assms by (rule rate_bounds)

theorem tick_rate_bounds_witness: "100000 \<le> unat (bytes_for_dt None [0, 3] 1 [0.5])"
  using tick_rate_bounds [of 1 None "[0, 3]" "[0.5]"] by simp

text \<open>A tick long enough for \<open>q\<close> bytes at the lowest rate.\<close>

abbreviation long_enough :: "nat \<Rightarrow> real \<Rightarrow> bool" where
  "long_enough q dt \<equiv> 0 < q \<and> real q \<le> 10 ^ 5 * dt \<and> dt \<le> 10 ^ 4"

lemma bytes_for_dt_ge:
  assumes "long_enough q dt"
  shows "q \<le> unat (bytes_for_dt g p dt utils)"
proof -
  have "0 \<le> real q" by simp
  then have "0 \<le> 10 ^ 5 * dt" using assms by linarith
  then have "nat \<lfloor>10 ^ 5 * dt\<rfloor> \<le> unat (bytes_for_dt g p dt utils)"
    using rate_bounds [of dt g p utils] assms by simp
  moreover have "q \<le> nat \<lfloor>10 ^ 5 * dt\<rfloor>" using assms by (simp add: le_nat_floor)
  ultimately show ?thesis by simp
qed

section \<open>The work left\<close>

text \<open>In portions of \<open>q\<close> bytes, and one more step for a chunk that is not completed.\<close>

definition chunk_work :: "nat \<Rightarrow> chunk_progress \<Rightarrow> nat" where
  "chunk_work q ch = (unat (ch_size ch) - unat (ch_sent ch) + (q - 1)) div q + (if ch_state ch = Completed then 0 else 1)"

definition work :: "nat \<Rightarrow> chunk_progress list \<Rightarrow> nat" where
  "work q chs = sum_list (map (chunk_work q) chs)"

lemma portions_less:
  assumes "0 < q" and "0 < r" and "min q r \<le> s" and "s \<le> r"
  shows "(r - s + (q - 1)) div q < (r + (q - 1)) div (q :: nat)"
proof -
  have full: "(r + (q - 1)) div q = Suc ((r - 1) div q)"
    using assms(1,2) div_add_self2 [of q "r - 1"] by simp
  show ?thesis
  proof (cases "q \<le> s")
    case True
    then have "r - s + (q - 1) \<le> r - 1" using assms by arith
    then show ?thesis unfolding full by (simp add: div_le_mono less_Suc_eq_le)
  next
    case False
    then have "s = r" using assms(3,4) by simp
    then show ?thesis unfolding full using assms(1) by simp
  qed
qed

lemma work_simps [simp]: "work q [] = 0" "work q (ch # chs) = chunk_work q ch + work q chs"
  by (simp_all add: work_def)

lemma advanced_work_le:
  assumes "chunk_inv ch"
  shows "chunk_work q (advanced g dt utils ch) \<le> chunk_work q ch"
proof -
  have "unat (ch_size ch) - unat (ch_sent (advanced g dt utils ch)) + (q - 1) \<le>
      unat (ch_size ch) - unat (ch_sent ch) + (q - 1)"
    using advanced_sent_mono [OF assms, of g dt utils] by (simp add: word_le_nat_alt)
  from div_le_mono [OF this, of q] show ?thesis
    using advanced_state [of g dt utils ch] by (auto simp: chunk_work_def)
qed

lemma advanced_work_less:
  assumes inv: "chunk_inv ch" and "ch_state ch = InFlight" and dt: "long_enough q dt"
  shows "chunk_work q (advanced g dt utils ch) < chunk_work q ch"
proof (cases "ch_sent ch = ch_size ch")
  case True
  with assms(2) show ?thesis by (simp add: chunk_work_def advanced_def)
next
  case False
  have le: "ch_sent ch \<le> ch_size ch" using inv by (simp add: chunk_inv_def)
  let ?r = "unat (ch_size ch) - unat (ch_sent ch)" and ?s = "unat (chunk_step g dt utils ch)"
  have rest: "unat (ch_size ch - ch_sent ch) = ?r" using le by (rule unat_minus_le)
  have sent: "unat (ch_sent (advanced g dt utils ch)) = unat (ch_sent ch) + ?s"
    using inv False assms(2) by (simp add: advanced_sent chunk_step_exact(1) [OF le])
  have "unat (ch_sent ch) \<noteq> unat (ch_size ch)" using False by (simp add: word_unat_eq_iff)
  then have "0 < ?r" using le by (simp add: word_le_nat_alt)
  moreover have "min q ?r \<le> ?s"
    using bytes_for_dt_ge [OF dt, of g "ch_edges ch" utils] rest
    by (auto simp: chunk_step_def Let_def)
  moreover have "?s \<le> ?r" using chunk_step_le [of g dt utils ch] rest by (simp add: word_le_nat_alt)
  ultimately have "(?r - ?s + (q - 1)) div q < (?r + (q - 1)) div q" using dt by (intro portions_less) simp_all
  moreover have "chunk_work q (advanced g dt utils ch) \<le> (?r - ?s + (q - 1)) div q + 1"
    unfolding chunk_work_def advanced_fields sent diff_diff_left [symmetric] by simp
  moreover have "chunk_work q ch = (?r + (q - 1)) div q + 1"
    unfolding chunk_work_def using assms(2) by simp
  ultimately show ?thesis by linarith
qed

lemma advanced_list_work:
  assumes "\<forall>ch \<in> set chs. chunk_inv ch" and dt: "long_enough q dt"
  shows "work q (map (advanced g dt utils) chs) \<le> work q chs"
    and "\<exists>ch \<in> set chs. ch_state ch = InFlight \<Longrightarrow> work q (map (advanced g dt utils) chs) < work q chs"
proof -
  show le: "work q (map (advanced g dt utils) chs) \<le> work q chs"
    using assms(1) by (induction chs) (simp_all add: add_mono advanced_work_le)
  show "work q (map (advanced g dt utils) chs) < work q chs" if "\<exists>ch \<in> set chs. ch_state ch = InFlight"
    using that assms(1)
  proof (induction chs)
    case (Cons ch chs)
    have le: "work q (map (advanced g dt utils) chs) \<le> work q chs"
      using Cons.prems(2) by (induction chs) (simp_all add: add_mono advanced_work_le)
    have one: "chunk_work q (advanced g dt utils ch) \<le> chunk_work q ch"
      using Cons.prems(2) by (simp add: advanced_work_le)
    show ?case
    proof (cases "ch_state ch = InFlight")
      case True
      then have "chunk_work q (advanced g dt utils ch) < chunk_work q ch"
        using Cons.prems(2) dt by (intro advanced_work_less) simp_all
      with le show ?thesis by simp
    next
      case False
      with Cons one show ?thesis by (simp add: add_le_less_mono)
    qed
  qed simp
qed

lemma promote_work: "work q (promote busy chs) = work q chs"
  by (induction busy chs rule: promote.induct) (simp_all add: chunk_work_def Let_def)

lemma settle_work: "work q (settle_chunks tp) = work q (tp_chunks tp)"
proof -
  have "work q (map park_chunk chs) = work q chs" for chs
    by (induction chs) (simp_all add: chunk_work_def park_chunk_def)
  then show ?thesis by (simp add: settle_chunks_def promote_work)
qed

section \<open>Some chunk moves\<close>

lemma inflight_in_promote: "ch \<in> set chs \<Longrightarrow> ch_state ch = InFlight \<Longrightarrow> ch \<in> set (promote busy chs)"
  by (induction busy chs rule: promote.induct) (auto simp: Let_def)

lemma pending_after_promote:
  "ch \<in> set (promote busy chs) \<Longrightarrow> ch_state ch = Pending \<Longrightarrow>
   busy ! rail_slot (ch_rail ch) \<or> (\<exists>c \<in> set (promote busy chs). ch_state c = InFlight)"
  by (induction busy chs rule: promote.induct) (auto simp: Let_def split: if_splits)

lemma settle_pending:
  assumes "\<not> tp_suspend_at_boundary tp" and "ch \<in> set (settle_chunks tp)" and "ch_state ch = Pending"
  shows "\<exists>c \<in> set (settle_chunks tp). ch_state c = InFlight"
proof -
  let ?busy = "rails_busy (replicate kIbRailCount False) (tp_chunks tp)"
  have settle: "settle_chunks tp = promote ?busy (tp_chunks tp)" using assms(1) by (simp add: settle_chunks_def)
  from pending_after_promote [OF assms(2) [unfolded settle] assms(3)] show ?thesis
  proof
    assume "?busy ! rail_slot (ch_rail ch)"
    then have "0 < inflight_on (rail_slot (ch_rail ch)) (tp_chunks tp)"
      using rail_slot_less by (simp add: rails_busy_nth)
    then obtain c where "c \<in> set (tp_chunks tp)" "ch_state c = InFlight"
      by (auto simp: inflight_on_def filter_empty_conv)
    then show ?thesis unfolding settle by (intro bexI inflight_in_promote)
  qed (simp add: settle)
qed

lemma concluded_work: "is_active (concluded now tp) \<Longrightarrow> work q (tp_chunks (concluded now tp)) = work q (tp_chunks tp)"
  by (auto simp: concluded_def is_active_def Let_def)

lemma concluded_idle:
  assumes "tp_suspend_at_boundary tp" and "\<forall>ch \<in> set (tp_chunks tp). ch_state ch \<noteq> InFlight"
  shows "\<not> is_active (concluded now tp)"
  using assms by (auto simp: concluded_def is_active_def list_ex_iff Let_def)

lemma ticked_work:
  assumes inv: "tp_inv tp" and active: "is_active tp" and dt: "long_enough q dt"
    and still: "is_active (ticked g dt utils now tp)"
  shows "work q (tp_chunks (ticked g dt utils now tp)) < work q (tp_chunks tp)"
proof -
  let ?tp = "tp\<lparr>tp_chunks := map (advanced g dt utils) (settle_chunks tp)\<rparr>"
  have ticked: "ticked g dt utils now tp = concluded now ?tp" using active by (simp add: ticked_def)
  have chs: "\<forall>ch \<in> set (settle_chunks tp). chunk_inv ch" and agree: "states_agree tp"
    and size: "total_size (tp_chunks tp) = unat (tp_bytes_total tp)"
    using inv settle_inv [of tp] by (simp_all add: tp_inv_def accounted_def)
  have "\<exists>ch \<in> set (settle_chunks tp). ch_state ch = InFlight"
  proof (rule ccontr)
    assume none: "\<not> ?thesis"
    then have idle: "map (advanced g dt utils) (settle_chunks tp) = settle_chunks tp"
      by (intro map_idI) (simp add: advanced_def)
    show False
    proof (cases "tp_suspend_at_boundary tp")
      case True
      then have "\<not> is_active (concluded now ?tp)"
        using none by (intro concluded_idle) (auto simp: idle)
      with still show False by (simp add: ticked)
    next
      case False
      then have "chunk_states_in {Pending, InFlight, Completed} (settle_chunks tp)"
        using settle_states [OF agree active] by simp
      then have "\<forall>ch \<in> set (settle_chunks tp). ch_state ch = Completed"
        using none settle_pending [OF False] by (auto simp: chunk_states_in_def)
      then have "total_sent (settle_chunks tp) = total_size (settle_chunks tp)"
        using chs unfolding total_sent_def total_size_def
        by (intro arg_cong [where f = sum_list] map_cong) (simp_all add: chunk_inv_def)
      then have "tp_state (concluded now ?tp) = Completed"
        using chs size active by (subst concluded_completes_iff) (simp_all add: idle is_active_def)
      with still show False by (simp add: ticked is_active_def)
    qed
  qed
  then have "work q (map (advanced g dt utils) (settle_chunks tp)) < work q (tp_chunks tp)"
    using advanced_list_work(2) [OF chs dt, of g utils] settle_work [of q tp] by simp
  then show ?thesis using concluded_work [of now ?tp] still by (simp add: ticked)
qed

section \<open>Ticks alone finish a transfer\<close>

type_synonym tick_input = "real \<times> real list \<times> (transfer_id \<Rightarrow> real)"

fun run_ticks :: "graph_edge list option \<Rightarrow> 'k completion_fn \<Rightarrow> tick_input list \<Rightarrow> 'k world \<Rightarrow> 'k world" where
  "run_ticks g cb [] c = c"
| "run_ticks g cb ((dt, utils, clock) # xs) (ex, w, k) =
     run_ticks g cb xs (snd (ib_tick cb g dt utils clock ex w k))"

fun ticks_of :: "graph_edge list option \<Rightarrow> transfer_id \<Rightarrow> tick_input list \<Rightarrow> transfer_progress \<Rightarrow> transfer_progress" where
  "ticks_of g i [] tp = tp"
| "ticks_of g i ((dt, utils, clock) # xs) tp = ticks_of g i xs (ticked g dt utils (clock i) tp)"

lemma run_ticks_lookup:
  "map_of (ex_transfers (fst (run_ticks g cb xs c))) i =
   map_option (ticks_of g i xs) (map_of (ex_transfers (fst c)) i)"
proof (induction xs arbitrary: c)
  case Nil
  then show ?case by (cases "map_of (ex_transfers (fst c)) i") simp_all
next
  case (Cons x xs)
  obtain dt utils clock where x: "x = (dt, utils, clock)" by (rule prod_cases3)
  obtain ex w k where c: "c = (ex, w, k)" by (rule prod_cases3)
  show ?case
    by (simp add: x c Cons.IH ib_tick_def tick_transfers lookup_mapped option.map_comp comp_def)
qed

definition ticks_in_range :: "tick_input list \<Rightarrow> bool" where
  "ticks_in_range xs \<longleftrightarrow> (\<forall>x \<in> set xs. 1 / 10 ^ 5 \<le> fst x \<and> fst x \<le> 10 ^ 4)"

lemma ticks_of_inactive: "\<not> is_active tp \<Longrightarrow> ticks_of g i xs tp = tp"
  by (induction xs) (auto simp: ticked_def)

lemma ticks_of_finish:
  assumes "tp_inv tp" and "ticks_in_range xs" and "work 1 (tp_chunks tp) < length xs"
  shows "\<not> is_active (ticks_of g i xs tp)"
  using assms
proof (induction xs arbitrary: tp)
  case (Cons x xs)
  obtain dt utils clock where x: "x = (dt, utils, clock)" by (rule prod_cases3)
  let ?tp = "ticked g dt utils (clock i) tp"
  have dt: "long_enough 1 dt" using Cons.prems(2) by (auto simp: ticks_in_range_def x)
  show ?case
  proof (cases "is_active tp \<and> is_active ?tp")
    case True
    then have "work 1 (tp_chunks ?tp) < work 1 (tp_chunks tp)" using ticked_work Cons.prems(1) dt by blast
    with Cons.prems have "\<not> is_active (ticks_of g i xs ?tp)"
      by (intro Cons.IH ticked_inv) (simp_all add: ticks_in_range_def)
    then show ?thesis by (simp add: x)
  next
    case False
    then have "\<not> is_active ?tp" by (auto simp: ticked_def)
    then show ?thesis by (simp add: x ticks_of_inactive)
  qed
qed simp

lemma ticks_of_settles: "tp_inv tp \<Longrightarrow> settles (tp_state tp) (tp_state (ticks_of g i xs tp))"
proof (induction xs arbitrary: tp)
  case (Cons x xs)
  obtain dt utils clock where x: "x = (dt, utils, clock)" by (rule prod_cases3)
  have "settles (tp_state tp) (tp_state (ticked g dt utils (clock i) tp))"
    using Cons.prems by (rule ticked_settles)
  moreover have "settles (tp_state (ticked g dt utils (clock i) tp)) (tp_state (ticks_of g i (x # xs) tp))"
    using Cons.IH [OF ticked_inv [OF Cons.prems]] by (simp add: x)
  ultimately show ?case by (auto simp: settles_def)
qed (simp add: settles_def)

lemma portions_add: "a div q + b div q \<le> (a + b) div (q :: nat)"
  by (cases "q = 0") (simp_all add: less_eq_div_iff_mult_less_eq add_mult_distrib add_mono)

lemma work_bound:
  assumes "\<forall>ch \<in> set chs. chunk_inv ch"
  shows "work q chs \<le> (total_size chs - total_sent chs + length chs * (q - 1)) div q + length chs"
  using assms
proof (induction chs)
  case (Cons ch chs)
  let ?r = "unat (ch_size ch) - unat (ch_sent ch)" and ?R = "total_size chs - total_sent chs"
  have "unat (ch_sent ch) \<le> unat (ch_size ch)" "total_sent chs \<le> total_size chs"
    using Cons.prems total_sent_le_size by (simp_all add: chunk_inv_def word_le_nat_alt)
  then have "total_size (ch # chs) - total_sent (ch # chs) + length (ch # chs) * (q - 1) =
      (?r + (q - 1)) + (?R + length chs * (q - 1))" by simp
  then have "(?r + (q - 1)) div q + (?R + length chs * (q - 1)) div q \<le>
      (total_size (ch # chs) - total_sent (ch # chs) + length (ch # chs) * (q - 1)) div q"
    using portions_add by metis
  moreover have "work q chs \<le> (?R + length chs * (q - 1)) div q + length chs" using Cons by simp
  ultimately show ?case by (simp add: chunk_work_def)
qed simp

lemma work_remaining:
  assumes "tp_inv tp" and "tp_state tp \<notin> {Completed, Cancelled}"
  shows "work q (tp_chunks tp) \<le>
    (unat (tp_bytes_remaining tp) + length (tp_chunks tp) * (q - 1)) div q + length (tp_chunks tp)"
proof -
  have acc: "\<forall>ch \<in> set (tp_chunks tp). chunk_inv ch"
    "total_size (tp_chunks tp) = unat (tp_bytes_total tp)"
    "total_sent (tp_chunks tp) = unat (tp_bytes_sent tp)"
    using assms(1) by (simp_all add: tp_inv_def accounted_def)
  have "tp_bytes_remaining tp = tp_bytes_total tp - tp_bytes_sent tp"
    using assms by (auto simp: tp_inv_def accounted_def)
  moreover have "tp_bytes_sent tp \<le> tp_bytes_total tp"
    using total_sent_le_size [OF acc(1)] acc by (simp add: word_le_nat_alt)
  ultimately show ?thesis using work_bound [OF acc(1)] acc(2,3) by (simp add: unat_minus_le)
qed

text \<open>
  Progress: from any reachable state, ticks of between ten nanoseconds and ten seconds bring every
  active transfer to an end, whatever the graph, the utilisation and the transport: after one tick
  more than the bytes left plus the number of chunks, a transfer that was in flight is completed and
  one that was being suspended is completed or paused.
\<close>
theorem ticks_finish_transfers:
  assumes "reachable g cb c" and "map_of (ex_transfers (fst c)) i = Some tp" and "is_active tp"
    and "ticks_in_range xs"
    and "unat (tp_bytes_remaining tp) + length (tp_chunks tp) < length xs"
  shows "\<exists>tp'. map_of (ex_transfers (fst (run_ticks g cb xs c))) i = Some tp' \<and>
    (tp_state tp' = Completed \<or> tp_state tp = SuspendPending \<and> tp_state tp' = Paused)"
proof -
  have inv: "tp_inv tp" using reachable_lookup [OF assms(1,2)] by simp
  then have "work 1 (tp_chunks tp) \<le> unat (tp_bytes_remaining tp) + length (tp_chunks tp)"
    using assms(3) work_remaining [of tp 1] by (auto simp: is_active_def)
  then have "\<not> is_active (ticks_of g i xs tp)"
    using assms(4,5) inv by (intro ticks_of_finish) simp_all
  moreover have "settles (tp_state tp) (tp_state (ticks_of g i xs tp))"
    using inv by (rule ticks_of_settles)
  ultimately show ?thesis
    using assms(2,3) by (auto simp: run_ticks_lookup settles_def is_active_def)
qed

theorem ticks_finish_transfers_witness:
  "\<exists>c :: unit world. \<exists>tp'. reachable None None c \<and>
     map_of (ex_transfers (fst (run_ticks None None (replicate 9 (1, [], \<lambda>i. 0)) c))) 1 = Some tp' \<and>
     tp_state tp' = Completed"
proof -
  let ?req = "default_request\<lparr>size_bytes := 7\<rparr>" and ?opts = "\<lparr>so_src_buf = 0, so_dst_buf = 0\<rparr>"
  let ?ex = "snd (submit None 0 ?req no_path ?opts executor_fresh)"
  let ?c = "(?ex, (ibverbs_fresh, \<lambda>a. 0), ()) :: unit world"
  have reach: "reachable None None ?c" by (rule reach_step [OF reach_fresh step_submit])
  obtain tp where tp: "map_of (ex_transfers (fst ?c)) 1 = Some tp" "tp_state tp = InFlight"
      "tp_bytes_remaining tp = 7" "length (tp_chunks tp) = 1"
    by (simp add: submit_def executor_fresh_def default_progress_def Let_def)
  have range: "ticks_in_range (replicate 9 (1, [], \<lambda>i. 0))" by (simp add: ticks_in_range_def)
  from ticks_finish_transfers [OF reach tp(1) _ range] tp(2-4) reach
  show ?thesis by (auto simp: is_active_def)
qed

end
