(* ===== verification/Lstm.thy ===== *)
theory Lstm
  imports Model
begin

text \<open>
  The LSTM predictor, \<open>lstm/lstm_predictor.hpp\<close> and \<open>lstm/lstm_predictor.cpp\<close>: quantised weights,
  the forward pass, the online update, the per-edge prediction caches and the rolling sample window.
  Weight files are in \<open>Lstm_File\<close>.

  A \<open>float\<close> or \<open>double\<close> is a real number here: rounding is not modelled.  An \<open>int8_t\<close> is an 8-bit word
  read as a signed number.  Indexing a vector out of its range is undefined in C++ and unspecified
  here; \<open>wf_lstm\<close> states the sizes under which it does not happen.
\<close>

section \<open>Data\<close>

type_synonym i8 = "8 word"

definition HIDDEN_SIZE :: nat where "HIDDEN_SIZE = 32"
definition NUM_LAYERS :: nat where "NUM_LAYERS = 2"
definition HISTORY_LEN :: nat where "HISTORY_LEN = 16"
definition PREDICT_AHEAD_MS :: real where "PREDICT_AHEAD_MS = 5"
definition GATES :: nat where "GATES = 4"
definition ADA_EPS :: real where "ADA_EPS = 1 / 10 ^ 8"
definition ADA_LR :: real where "ADA_LR = 1 / 10 ^ 3"

lemmas lstm_sizes = HIDDEN_SIZE_def NUM_LAYERS_def HISTORY_LEN_def GATES_def

record lstm_layer =
  w_ih :: "i8 list"
  w_hh :: "i8 list"
  b_ih :: "real list"
  b_hh :: "real list"
  scale_ih :: real
  scale_hh :: real
  input_size :: u32

record lstm =
  lm_layers :: "lstm_layer list"
  head_w :: "i8 list"
  head_scale :: real
  head_b :: real
  weights_loaded :: bool
  ada_head :: "real list"
  ada_w_ih0 :: "real list"
  prediction_cache :: "real list"
  current_util_cache :: "real list"
  edge_history :: "real list list"
  edge_hist_count :: "nat list"

text \<open>\<open>std::vector::resize\<close>.\<close>

definition resize :: "nat \<Rightarrow> 'a \<Rightarrow> 'a list \<Rightarrow> 'a list" where
  "resize n v xs = take n xs @ replicate (n - length xs) v"

section \<open>Default weights\<close>

definition default_layer :: lstm_layer where
  "default_layer = \<lparr>w_ih = [], w_hh = [], b_ih = [], b_hh = [], scale_ih = 0.01, scale_hh = 0.01,
                    input_size = 1\<rparr>"

definition init_layer :: "nat \<Rightarrow> lstm_layer" where
  "init_layer L =
     (let in_sz = (if L = 0 then 1 else HIDDEN_SIZE); rows = GATES * HIDDEN_SIZE
      in \<lparr>w_ih = map (\<lambda>i. word_of_int (int ((i * 17 + L * 3) mod 11) - 5)) [0..<rows * in_sz],
          w_hh = map (\<lambda>i. word_of_int (int ((i * 13 + L * 7) mod 9) - 4)) [0..<rows * HIDDEN_SIZE],
          b_ih = map (\<lambda>r. if HIDDEN_SIZE \<le> r \<and> r < 2 * HIDDEN_SIZE then 1 else 0) [0..<rows],
          b_hh = replicate rows 0, scale_ih = 0.02, scale_hh = 0.02, input_size = of_nat in_sz\<rparr>)"

definition init_default_weights :: "lstm \<Rightarrow> lstm" where
  "init_default_weights p =
     p\<lparr>lm_layers := map init_layer [0..<NUM_LAYERS],
       head_w := map (\<lambda>i. word_of_int (int i mod 7 - 3)) [0..<HIDDEN_SIZE],
       head_scale := 0.05, head_b := 0, ada_head := replicate HIDDEN_SIZE 0,
       ada_w_ih0 := replicate (length (w_ih (init_layer 0))) 0, weights_loaded := False\<rparr>"

definition lstm_blank :: lstm where
  "lstm_blank = \<lparr>lm_layers = [], head_w = [], head_scale = 0.01, head_b = 0, weights_loaded = False,
     ada_head = [], ada_w_ih0 = [], prediction_cache = [], current_util_cache = [],
     edge_history = [], edge_hist_count = []\<rparr>"

definition lstm_fresh :: lstm where
  "lstm_fresh = init_default_weights lstm_blank"

section \<open>The forward pass\<close>

definition sigmoid :: "real \<Rightarrow> real" where
  "sigmoid x = 1 / (1 + exp (- clamp x (-20) 20))"

definition i8_real :: "i8 \<Rightarrow> real" where
  "i8_real w = real_of_int (sint w)"

definition gate_sum :: "lstm_layer \<Rightarrow> real list \<Rightarrow> real list \<Rightarrow> nat \<Rightarrow> real" where
  "gate_sum layer x h r =
     (let in_sz = unat (input_size layer)
      in b_ih layer ! r + b_hh layer ! r
         + (\<Sum>i \<leftarrow> [0..<in_sz]. x ! i * (i8_real (w_ih layer ! (r * in_sz + i)) * scale_ih layer))
         + (\<Sum>j \<leftarrow> [0..<HIDDEN_SIZE]. h ! j * (i8_real (w_hh layer ! (r * HIDDEN_SIZE + j)) * scale_hh layer)))"

text \<open>Cell state and output of one hidden unit from the four gate sums.\<close>

definition cell_state :: "real list \<Rightarrow> real list \<Rightarrow> nat \<Rightarrow> real" where
  "cell_state gates c hid =
     sigmoid (gates ! (HIDDEN_SIZE + hid)) * c ! hid
     + sigmoid (gates ! hid) * tanh (gates ! (2 * HIDDEN_SIZE + hid))"

definition lstm_layer_forward ::
  "lstm \<Rightarrow> nat \<Rightarrow> real list \<Rightarrow> real list \<times> real list \<Rightarrow> real list \<times> real list"
where
  "lstm_layer_forward p layer_idx x hc =
     (let (h, c) = hc;
          gates = map (gate_sum (lm_layers p ! layer_idx) x h) [0..<GATES * HIDDEN_SIZE];
          c' = map (cell_state gates c) [0..<HIDDEN_SIZE];
          h' = map (\<lambda>hid. sigmoid (gates ! (3 * HIDDEN_SIZE + hid)) * tanh (c' ! hid)) [0..<HIDDEN_SIZE]
      in (h', c'))"

definition head_forward :: "lstm \<Rightarrow> real list \<Rightarrow> real" where
  "head_forward p h =
     sigmoid (head_b p + (\<Sum>i \<leftarrow> [0..<HIDDEN_SIZE]. h ! i * (i8_real (head_w p ! i) * head_scale p)))"

type_synonym lstm_memory = "(real list \<times> real list) \<times> (real list \<times> real list)"

definition lstm_step :: "lstm \<Rightarrow> real \<Rightarrow> lstm_memory \<Rightarrow> lstm_memory" where
  "lstm_step p v s =
     (let hc0 = lstm_layer_forward p 0 [v] (fst s)
      in (hc0, lstm_layer_forward p 1 (fst hc0) (snd s)))"

definition lstm_zero :: lstm_memory where
  "lstm_zero = ((replicate HIDDEN_SIZE 0, replicate HIDDEN_SIZE 0),
                (replicate HIDDEN_SIZE 0, replicate HIDDEN_SIZE 0))"

definition predict :: "lstm \<Rightarrow> real list \<Rightarrow> real" where
  "predict p history =
     (let s = fold (lstm_step p) (map (\<lambda>t. history ! t) [0..<HISTORY_LEN]) lstm_zero
      in clamp (head_forward p (fst (snd s))) 0 1)"

section \<open>Online update\<close>

text \<open>\<open>std::lround\<close>, which rounds half away from zero.\<close>

definition lround :: "real \<Rightarrow> int" where
  "lround x = (if 0 \<le> x then \<lfloor>x + 1 / 2\<rfloor> else - \<lfloor>- x + 1 / 2\<rfloor>)"

definition quantise :: "int \<Rightarrow> i8" where
  "quantise q = word_of_int (max (-127) (min 127 q))"

text \<open>One round of the loop over the head weights.\<close>

definition update_head :: "real \<Rightarrow> nat \<Rightarrow> lstm \<Rightarrow> lstm" where
  "update_head err i p =
     (let a = ada_head p ! i + err * err;
          step = ADA_LR * err / (sqrt a + ADA_EPS);
          w = i8_real (head_w p ! i) * head_scale p + step;
          new_scale = max (head_scale p) (\<bar>w\<bar> / 127 + 1 / 10 ^ 8)
      in p\<lparr>ada_head := (ada_head p)[i := a], head_scale := new_scale,
           head_w := (head_w p)[i := quantise (lround (w / new_scale))]\<rparr>)"

text \<open>
  \<open>static_cast<int>\<close> of a \<open>long\<close> keeps the low 32 bits.  A quotient beyond 64 bits and a scale of zero,
  for which \<open>std::lround\<close> has no specified value, are outside the model, as is a sum beyond 32 bits; with
  any value the stored weight lies between -127 and 127.
\<close>

definition int_cast :: "int \<Rightarrow> int" where
  "int_cast n = sint (word_of_int n :: 32 word)"

definition update_input :: "real \<Rightarrow> nat \<Rightarrow> lstm \<Rightarrow> lstm" where
  "update_input err i p =
     (let layer = lm_layers p ! 0;
          g = err * 0.1;
          a = ada_w_ih0 p ! i + g * g;
          step = ADA_LR * g / (sqrt a + ADA_EPS);
          q = sint (w_ih layer ! i) + int_cast (lround (step / scale_ih layer))
      in p\<lparr>ada_w_ih0 := (ada_w_ih0 p)[i := a],
           lm_layers := (lm_layers p)[0 := layer\<lparr>w_ih := (w_ih layer)[i := quantise q]\<rparr>]\<rparr>)"

definition online_update :: "real list \<Rightarrow> real \<Rightarrow> lstm \<Rightarrow> lstm" where
  "online_update history target p =
     (if length history < HISTORY_LEN then p
      else
        let err = target - predict p (take HISTORY_LEN history);
            p1 = fold (update_head err) [0..<HIDDEN_SIZE] p;
            p2 = p1\<lparr>head_b := head_b p1 + ADA_LR * err\<rparr>
        in fold (update_input err)
             [0..<min (length (w_ih (lm_layers p2 ! 0))) (length (ada_w_ih0 p2))] p2)"

section \<open>Caches and windows\<close>

text \<open>The new size is computed in 32 bits.\<close>

definition update_cache :: "u32 \<Rightarrow> real \<Rightarrow> real \<Rightarrow> lstm \<Rightarrow> lstm" where
  "update_cache e current predicted p =
     (let p1 = (if length (prediction_cache p) \<le> unat e
                then p\<lparr>prediction_cache := resize (unat (e + 1)) 0 (prediction_cache p),
                       current_util_cache := resize (unat (e + 1)) 0 (current_util_cache p)\<rparr>
                else p)
      in p1\<lparr>current_util_cache := (current_util_cache p1)[unat e := current],
            prediction_cache := (prediction_cache p1)[unat e := predicted]\<rparr>)"

definition cached_prediction :: "lstm \<Rightarrow> u32 \<Rightarrow> real" where
  "cached_prediction p e =
     (if length (prediction_cache p) \<le> unat e then 0 else prediction_cache p ! unat e)"

definition effective_util :: "lstm \<Rightarrow> u32 \<Rightarrow> real \<Rightarrow> real \<Rightarrow> real" where
  "effective_util p e current dur_ms =
     (let weight = min (dur_ms / PREDICT_AHEAD_MS) 1;
          blended = cached_prediction p e * weight + current * (1 - weight)
      in max current blended)"

text \<open>
  A freshly resized history holds an array whose contents are then set to zero, as are the arrays of
  all edges without samples.
\<close>

definition grow_history :: "u32 \<Rightarrow> lstm \<Rightarrow> lstm" where
  "grow_history e p =
     (if length (edge_history p) \<le> unat e
      then
        let hist = resize (unat (e + 1)) (replicate HISTORY_LEN 0) (edge_history p);
            cnt = resize (unat (e + 1)) 0 (edge_hist_count p)
        in p\<lparr>edge_history := map (\<lambda>i. if cnt ! i = 0 then replicate HISTORY_LEN 0 else hist ! i) [0..<length hist],
             edge_hist_count := cnt\<rparr>
      else p)"

definition push_sample :: "u32 \<Rightarrow> real \<Rightarrow> lstm \<Rightarrow> lstm" where
  "push_sample e util p =
     (let p1 = grow_history e p;
          hist = edge_history p1 ! unat e;
          n = edge_hist_count p1 ! unat e
      in if n < HISTORY_LEN
         then p1\<lparr>edge_history := (edge_history p1)[unat e := hist[n := util]],
                 edge_hist_count := (edge_hist_count p1)[unat e := n + 1]\<rparr>
         else p1\<lparr>edge_history := (edge_history p1)[unat e := tl hist @ [util]]\<rparr>)"

definition predict_edge :: "lstm \<Rightarrow> u32 \<Rightarrow> real" where
  "predict_edge p e =
     predict p (if unat e < length (edge_history p) then edge_history p ! unat e
                else replicate HISTORY_LEN 0)"

end
