(* ===== verification/Lstm_Props.thy ===== *)
theory Lstm_Props
  imports Lstm
begin

text \<open>
  Properties of the predictor: the hidden state and the prediction stay within fixed bounds whatever
  the weights, the caches behave as maps, the effective utilisation is between the current and the
  predicted one, the rolling window of an edge is the last samples pushed for it, and the online
  update keeps the sizes and the range of the quantised weights.
\<close>

section \<open>Bounds of the forward pass\<close>

lemma sigmoid_bounds [range_intros]: "0 < sigmoid x" "sigmoid x < 1"
  by (simp_all add: sigmoid_def add_pos_pos)

lemma tanh_abs_less: "\<bar>tanh x\<bar> < (1 :: real)"
  using tanh_real_lt_1 [of x] tanh_real_gt_neg1 [of x] by (simp add: abs_less_iff)

definition memory_bounded :: "real \<Rightarrow> real list \<times> real list \<Rightarrow> bool" where
  "memory_bounded B hc \<longleftrightarrow> length (fst hc) = HIDDEN_SIZE \<and> length (snd hc) = HIDDEN_SIZE \<and>
     (\<forall>i < HIDDEN_SIZE. \<bar>fst hc ! i\<bar> < 1 \<and> \<bar>snd hc ! i\<bar> \<le> B)"

lemma cell_state_bounded:
  assumes "\<bar>c ! i\<bar> \<le> B"
  shows "\<bar>cell_state gates c i\<bar> \<le> B + 1"
proof -
  let ?f = "sigmoid (gates ! (HIDDEN_SIZE + i))" and ?i = "sigmoid (gates ! i)"
    and ?g = "tanh (gates ! (2 * HIDDEN_SIZE + i))"
  have "\<bar>?f * c ! i\<bar> \<le> 1 * B"
    unfolding abs_mult using sigmoid_bounds [of "gates ! (HIDDEN_SIZE + i)"] assms
    by (intro mult_mono) simp_all
  moreover have "\<bar>?i * ?g\<bar> \<le> 1 * 1"
    unfolding abs_mult using sigmoid_bounds [of "gates ! i"] tanh_abs_less [of "gates ! (2 * HIDDEN_SIZE + i)"]
    by (intro mult_mono) simp_all
  ultimately show ?thesis
    unfolding cell_state_def using abs_triangle_ineq [of "?f * c ! i" "?i * ?g"] by linarith
qed

lemma forward_bounded:
  assumes "memory_bounded B hc"
  shows "memory_bounded (B + 1) (lstm_layer_forward p L x hc)"
proof -
  obtain h c where hc: "hc = (h, c)" by (cases hc)
  have "\<bar>sigmoid a * tanh b\<bar> < 1" for a b
  proof -
    have "\<bar>sigmoid a * tanh b\<bar> \<le> 1 * \<bar>tanh b\<bar>"
      unfolding abs_mult using sigmoid_bounds [of a] by (intro mult_right_mono) simp_all
    then show ?thesis using tanh_abs_less [of b] by simp
  qed
  then show ?thesis
    using assms cell_state_bounded [of c _ B]
    by (simp add: memory_bounded_def hc lstm_layer_forward_def Let_def)
qed

lemma steps_bounded:
  "memory_bounded B (fst s) \<Longrightarrow> memory_bounded B (snd s) \<Longrightarrow>
   memory_bounded (B + length xs) (fst (fold (lstm_step p) xs s)) \<and>
   memory_bounded (B + length xs) (snd (fold (lstm_step p) xs s))"
proof (induction xs arbitrary: B s)
  case (Cons x xs)
  let ?s = "lstm_step p x s"
  have "memory_bounded (B + 1) (fst ?s)" "memory_bounded (B + 1) (snd ?s)"
    using Cons.prems by (simp_all add: lstm_step_def Let_def forward_bounded)
  from Cons.IH [OF this] show ?case by (simp add: algebra_simps)
qed simp

text \<open>
  C26. Whatever the weights and the samples, after \<open>n\<close> samples every hidden output of both layers is
  strictly between -1 and 1 and every cell state is at most \<open>n\<close> in size, and a prediction is strictly
  between 0 and 1, so that the final clamp never changes it.
\<close>
theorem prediction_bounded:
  "memory_bounded (length xs) (fst (fold (lstm_step p) xs lstm_zero)) \<and>
   memory_bounded (length xs) (snd (fold (lstm_step p) xs lstm_zero)) \<and>
   0 < predict p history \<and> predict p history < 1 \<and>
   predict p history =
     head_forward p (fst (snd (fold (lstm_step p) (map (\<lambda>t. history ! t) [0..<HISTORY_LEN]) lstm_zero)))"
proof -
  have zero: "memory_bounded 0 (fst lstm_zero)" "memory_bounded 0 (snd lstm_zero)"
    by (simp_all add: memory_bounded_def lstm_zero_def)
  have "0 < head_forward p h" "head_forward p h < 1" for h
    unfolding head_forward_def by (rule sigmoid_bounds)+
  then show ?thesis
    using steps_bounded [OF zero, of xs p]
    by (auto simp: predict_def Let_def clamp_def not_less intro: less_imp_le)
qed

section \<open>Caches\<close>

definition caches_ok :: "lstm \<Rightarrow> bool" where
  "caches_ok p \<longleftrightarrow> length (current_util_cache p) = length (prediction_cache p)"

lemma length_resize [simp]: "length (resize n v xs) = n"
  by (simp add: resize_def)

lemma nth_resize: "i < n \<Longrightarrow> resize n v xs ! i = (if i < length xs then xs ! i else v)"
  by (simp add: resize_def nth_append)

lemma unat_suc:
  assumes "(e :: u32) \<noteq> - 1"
  shows "unat (e + 1) = Suc (unat e)"
proof -
  have "unat e \<noteq> unat (- 1 :: u32)" using assms word_unat_eq_iff by blast
  moreover have "unat e < 2 ^ 32" using unsigned_less [of e] by simp
  moreover have "unat (- 1 :: u32) = 4294967295" by (simp add: unsigned_minus_1_eq_mask mask_eq_exp_minus_1)
  ultimately show ?thesis by (subst unat_add_exact) simp_all
qed

text \<open>
  The prediction cache is a map: storing a prediction for an edge, any but the last index of 32
  bits, makes exactly that edge answer with it and leaves every other edge's answer alone, whether
  or not the cache has to grow; edges never stored answer 0.
\<close>
theorem cache_is_map:
  assumes "caches_ok p" and "e \<noteq> - 1"
  shows "cached_prediction (update_cache e current predicted p) e' =
      (if e' = e then predicted else cached_prediction p e') \<and>
    caches_ok (update_cache e current predicted p) \<and>
    current_util_cache (update_cache e current predicted p) ! unat e = current \<and>
    cached_prediction lstm_fresh e' = 0"
proof -
  have "unat e' = unat e \<longleftrightarrow> e' = e" by (simp add: word_unat_eq_iff)
  then show ?thesis
    using assms unat_suc [OF assms(2)]
    by (auto simp: update_cache_def cached_prediction_def caches_ok_def nth_resize nth_list_update
        lstm_fresh_def init_default_weights_def lstm_blank_def Let_def)
qed

theorem cache_is_map_witness:
  "cached_prediction (update_cache 3 0.5 0.75 lstm_fresh) 3 = 0.75 \<and>
   cached_prediction (update_cache 3 0.5 0.75 lstm_fresh) 1 = 0"
proof -
  have "caches_ok lstm_fresh"
    by (simp add: caches_ok_def lstm_fresh_def init_default_weights_def lstm_blank_def)
  from cache_is_map [OF this, of 3 "0.5" "0.75" 3] cache_is_map [OF this, of 3 "0.5" "0.75" 1]
  show ?thesis by simp
qed

text \<open>
  The effective utilisation is never below the current one; for a transfer of some duration it is
  at most the larger of the current and the predicted utilisation, and it is that larger one once
  the transfer lasts as long as the prediction looks ahead.
\<close>
theorem effective_util_between:
  assumes "0 \<le> dur"
  shows "current \<le> effective_util p e current dur \<and>
    effective_util p e current dur \<le> max current (cached_prediction p e) \<and>
    (PREDICT_AHEAD_MS \<le> dur \<longrightarrow> effective_util p e current dur = max current (cached_prediction p e))"
proof -
  define w where "w = min (dur / PREDICT_AHEAD_MS) 1"
  have w: "0 \<le> w" "w \<le> 1" and full: "PREDICT_AHEAD_MS \<le> dur \<Longrightarrow> w = 1"
    using assms by (auto simp: w_def PREDICT_AHEAD_MS_def)
  let ?c = "cached_prediction p e"
  have "?c * w + current * (1 - w) \<le> max current ?c * w + max current ?c * (1 - w)"
    using w by (intro add_mono mult_right_mono) simp_all
  also have "\<dots> = max current ?c" by (simp add: algebra_simps)
  finally show ?thesis
    using full by (auto simp: effective_util_def w_def [symmetric] Let_def)
qed

theorem effective_util_between_witness:
  "effective_util (update_cache 0 0.2 0.8 lstm_fresh) 0 0.2 10 =
     max 0.2 (cached_prediction (update_cache 0 0.2 0.8 lstm_fresh) 0)"
  using effective_util_between [of 10 "0.2" "update_cache 0 0.2 0.8 lstm_fresh" 0]
  by (simp add: PREDICT_AHEAD_MS_def)

section \<open>The rolling window\<close>

definition window :: "real list \<Rightarrow> real list" where
  "window us = (if length us \<le> HISTORY_LEN then us @ replicate (HISTORY_LEN - length us) 0
                else drop (length us - HISTORY_LEN) us)"

definition samples_of :: "nat \<Rightarrow> (u32 \<times> real) list \<Rightarrow> real list" where
  "samples_of i ops = map snd (filter (\<lambda>op. unat (fst op) = i) ops)"

definition push_all :: "(u32 \<times> real) list \<Rightarrow> lstm \<Rightarrow> lstm" where
  "push_all ops p = fold (\<lambda>(e, u). push_sample e u) ops p"

definition history_at :: "lstm \<Rightarrow> nat \<Rightarrow> real list" where
  "history_at p i = (if i < length (edge_history p) then edge_history p ! i else replicate HISTORY_LEN 0)"

definition count_at :: "lstm \<Rightarrow> nat \<Rightarrow> nat" where
  "count_at p i = (if i < length (edge_hist_count p) then edge_hist_count p ! i else 0)"

definition windows_ok :: "(nat \<Rightarrow> real list) \<Rightarrow> lstm \<Rightarrow> bool" where
  "windows_ok us p \<longleftrightarrow> length (edge_hist_count p) = length (edge_history p) \<and>
     (\<forall>i. history_at p i = window (us i) \<and> count_at p i = min HISTORY_LEN (length (us i)))"

lemma window_length [simp]: "length (window us) = HISTORY_LEN"
  by (simp add: window_def)

lemma window_nil: "window [] = replicate HISTORY_LEN 0"
  by (simp add: window_def)

lemma window_snoc:
  "window (us @ [u]) =
     (if length us < HISTORY_LEN then (window us)[length us := u] else tl (window us) @ [u])"
proof (cases "length us < HISTORY_LEN")
  case True
  then have "replicate (HISTORY_LEN - length us) (0 :: real) = 0 # replicate (HISTORY_LEN - Suc (length us)) 0"
    by (simp add: Suc_diff_Suc flip: replicate_Suc)
  with True show ?thesis by (simp add: window_def list_update_append)
next
  case False
  then have "length us + 1 - HISTORY_LEN = Suc (length us - HISTORY_LEN)" by simp
  moreover have "window us = drop (length us - HISTORY_LEN) us" using False by (simp add: window_def)
  moreover have "Suc 0 - HISTORY_LEN = 0" by (simp add: lstm_sizes)
  ultimately show ?thesis
    using False by (simp add: window_def tl_drop drop_Suc)
qed

lemma grow_history_windows:
  assumes "windows_ok us p" and "e \<noteq> - 1"
  shows "windows_ok us (grow_history e p)" and "unat e < length (edge_history (grow_history e p))"
proof -
  have zero: "window (us i) = replicate HISTORY_LEN 0" if "0 = min HISTORY_LEN (length (us i))" for i
    using that by (simp add: min_def window_nil lstm_sizes split: if_splits)
  have len: "length (edge_hist_count p) = length (edge_history p)"
    and at: "\<And>i. history_at p i = window (us i)" "\<And>i. count_at p i = min HISTORY_LEN (length (us i))"
    using assms(1) by (simp_all add: windows_ok_def)
  have "history_at (grow_history e p) i = history_at p i" "count_at (grow_history e p) i = count_at p i" for i
    using zero [of i] at(1) [of i] at(2) [of i] len unat_suc [OF assms(2)]
    by (auto simp: grow_history_def history_at_def count_at_def nth_resize Let_def
        simp del: upt_Suc split: if_splits)
  with assms(1) show "windows_ok us (grow_history e p)"
    by (simp add: windows_ok_def) (simp add: grow_history_def Let_def)
  show "unat e < length (edge_history (grow_history e p))"
    using unat_suc [OF assms(2)] by (simp add: grow_history_def Let_def)
qed

lemma push_sample_windows:
  assumes "windows_ok us p" and "e \<noteq> - 1"
  shows "windows_ok (us(unat e := us (unat e) @ [u])) (push_sample e u p)"
proof -
  let ?p = "grow_history e p"
  have ok: "windows_ok us ?p" and e: "unat e < length (edge_history ?p)"
    using grow_history_windows [OF assms] by simp_all
  then have len: "length (edge_hist_count ?p) = length (edge_history ?p)"
    and at: "\<And>i. history_at ?p i = window (us i)" "\<And>i. count_at ?p i = min HISTORY_LEN (length (us i))"
    by (simp_all add: windows_ok_def)
  have here: "edge_history ?p ! unat e = window (us (unat e))"
    "edge_hist_count ?p ! unat e = min HISTORY_LEN (length (us (unat e)))"
    using at [of "unat e"] e len by (simp_all add: history_at_def count_at_def)
  have "history_at (push_sample e u p) i = (if i = unat e then window (us (unat e) @ [u]) else history_at ?p i)"
    "count_at (push_sample e u p) i = (if i = unat e then min HISTORY_LEN (length (us (unat e) @ [u])) else count_at ?p i)" for i
    using here e len
    by (auto simp: push_sample_def history_at_def count_at_def nth_list_update window_snoc Let_def)
  moreover have "length (edge_hist_count (push_sample e u p)) = length (edge_history (push_sample e u p))"
    using len by (simp add: push_sample_def Let_def)
  ultimately show ?thesis using at by (simp add: windows_ok_def)
qed

lemma push_all_windows:
  "windows_ok us p \<Longrightarrow> \<forall>op \<in> set ops. fst op \<noteq> - 1 \<Longrightarrow>
   windows_ok (\<lambda>i. us i @ samples_of i ops) (push_all ops p)"
proof (induction ops arbitrary: us p)
  case Nil
  then show ?case by (simp add: push_all_def samples_of_def)
next
  case (Cons op ops)
  obtain e u where op: "op = (e, u)" by (cases op)
  have "windows_ok (us(unat e := us (unat e) @ [u])) (push_sample e u p)"
    using Cons.prems by (intro push_sample_windows) (simp_all add: op)
  from Cons.IH [OF this] Cons.prems(2)
  have "windows_ok (\<lambda>i. (us(unat e := us (unat e) @ [u])) i @ samples_of i ops) (push_all (op # ops) p)"
    by (simp add: op push_all_def)
  moreover have "(\<lambda>i. (us(unat e := us (unat e) @ [u])) i @ samples_of i ops) =
      (\<lambda>i. us i @ samples_of i (op # ops))"
    by (auto simp: samples_of_def op)
  ultimately show ?case by simp
qed

text \<open>Only the weights matter for a prediction, and pushing samples keeps them.\<close>

definition same_weights :: "lstm \<Rightarrow> lstm \<Rightarrow> bool" where
  "same_weights p q \<longleftrightarrow> lm_layers p = lm_layers q \<and> head_w p = head_w q \<and>
     head_scale p = head_scale q \<and> head_b p = head_b q"

lemma predict_same_weights: "same_weights p q \<Longrightarrow> predict p h = predict q h"
proof -
  assume same: "same_weights p q"
  have "lstm_step p = lstm_step q"
    using same by (intro ext) (simp add: lstm_step_def lstm_layer_forward_def same_weights_def Let_def)
  then show ?thesis
    using same by (simp add: predict_def head_forward_def same_weights_def)
qed

lemma push_all_weights: "same_weights (push_all ops p) p"
proof (induction ops arbitrary: p)
  case (Cons op ops)
  have "same_weights (push_sample e u p) p" for e u
    by (simp add: same_weights_def push_sample_def grow_history_def Let_def)
  with Cons show ?case
    by (cases op) (auto simp: push_all_def same_weights_def)
qed (simp add: push_all_def same_weights_def)

text \<open>
  C25. Whatever samples are pushed for whatever edges, in any interleaving, predicting an edge runs the
  network on that edge's own last sixteen samples in order, padded with zeros at the end while
  there are fewer; samples of other edges and growth of the tables have no effect.
\<close>
theorem predict_edge_window:
  assumes "\<forall>op \<in> set ops. fst op \<noteq> - 1" and "edge_history p = []" and "edge_hist_count p = []"
  shows "predict_edge (push_all ops p) e = predict p (window (samples_of (unat e) ops))"
proof -
  have "windows_ok (\<lambda>i. []) p"
    using assms(2,3) by (simp add: windows_ok_def history_at_def count_at_def window_nil)
  from push_all_windows [OF this assms(1)]
  have "history_at (push_all ops p) (unat e) = window (samples_of (unat e) ops)"
    by (simp add: windows_ok_def)
  then show ?thesis
    using predict_same_weights [OF push_all_weights] by (simp add: predict_edge_def history_at_def)
qed

theorem predict_edge_window_witness:
  "predict_edge (push_all [(2, 0.5), (0, 0.25), (2, 0.75)] lstm_fresh) 2 =
   predict lstm_fresh ([0.5, 0.75] @ replicate 14 0)"
  using predict_edge_window [of "[(2, 0.5), (0, 0.25), (2, 0.75)]" lstm_fresh 2]
  by (simp add: lstm_fresh_def init_default_weights_def lstm_blank_def window_def samples_of_def lstm_sizes)

section \<open>The online update\<close>

definition wf_layer :: "nat \<Rightarrow> lstm_layer \<Rightarrow> bool" where
  "wf_layer in_sz layer \<longleftrightarrow> unat (input_size layer) = in_sz \<and>
     length (w_ih layer) = GATES * HIDDEN_SIZE * in_sz \<and>
     length (w_hh layer) = GATES * HIDDEN_SIZE * HIDDEN_SIZE \<and>
     length (b_ih layer) = GATES * HIDDEN_SIZE \<and> length (b_hh layer) = GATES * HIDDEN_SIZE"

text \<open>The sizes under which no vector is indexed out of range.\<close>

definition wf_lstm :: "lstm \<Rightarrow> bool" where
  "wf_lstm p \<longleftrightarrow> length (lm_layers p) = NUM_LAYERS \<and> wf_layer 1 (lm_layers p ! 0) \<and>
     wf_layer HIDDEN_SIZE (lm_layers p ! 1) \<and> length (head_w p) = HIDDEN_SIZE \<and>
     length (ada_head p) = HIDDEN_SIZE \<and> length (ada_w_ih0 p) = length (w_ih (lm_layers p ! 0))"

lemma wf_init_layer: "wf_layer (if L = 0 then 1 else HIDDEN_SIZE) (init_layer L)"
  by (simp add: wf_layer_def init_layer_def Let_def lstm_sizes del: upt_rec_numeral)

lemma wf_lstm_fresh: "wf_lstm lstm_fresh"
  using wf_init_layer [of 0] wf_init_layer [of 1]
  by (simp add: wf_lstm_def lstm_fresh_def init_default_weights_def numeral_2_eq_2 NUM_LAYERS_def
      HIDDEN_SIZE_def del: upt_rec_numeral)

lemma quantise_range: "\<bar>sint (quantise q)\<bar> \<le> 127"
proof -
  have "sint (quantise q) = max (-127) (min 127 q)"
    unfolding quantise_def by (simp add: signed_of_int) (rule signed_take_bit_int_eq_self; simp)
  then show ?thesis by simp
qed

text \<open>What the two loops change, and the range of the weights they have passed.\<close>

definition head_passed :: "nat \<Rightarrow> lstm \<Rightarrow> lstm \<Rightarrow> bool" where
  "head_passed k p q \<longleftrightarrow> lm_layers q = lm_layers p \<and> head_b q = head_b p \<and>
     ada_w_ih0 q = ada_w_ih0 p \<and> length (ada_head q) = length (ada_head p) \<and>
     length (head_w q) = length (head_w p) \<and> head_scale p \<le> head_scale q \<and>
     (\<forall>i < k. \<bar>sint (head_w q ! i)\<bar> \<le> 127)"

lemma head_step:
  "head_passed k p q \<Longrightarrow> k < length (head_w p) \<Longrightarrow> head_passed (Suc k) p (update_head err k q)"
  by (auto simp: head_passed_def update_head_def nth_list_update less_Suc_eq quantise_range Let_def)

lemma head_loop:
  "k \<le> length (head_w p) \<Longrightarrow> head_passed k p (fold (update_head err) [0..<k] p)"
  by (induction k) (simp add: head_passed_def, simp add: head_step)

definition input_passed :: "nat \<Rightarrow> lstm \<Rightarrow> lstm \<Rightarrow> bool" where
  "input_passed k p q \<longleftrightarrow> head_w q = head_w p \<and> head_scale q = head_scale p \<and>
     head_b q = head_b p \<and> ada_head q = ada_head p \<and> length (ada_w_ih0 q) = length (ada_w_ih0 p) \<and>
     length (lm_layers q) = length (lm_layers p) \<and> lm_layers q ! 1 = lm_layers p ! 1 \<and>
     length (w_ih (lm_layers q ! 0)) = length (w_ih (lm_layers p ! 0)) \<and>
     wf_layer 1 (lm_layers q ! 0) = wf_layer 1 (lm_layers p ! 0) \<and>
     (\<forall>i < k. \<bar>sint (w_ih (lm_layers q ! 0) ! i)\<bar> \<le> 127)"

lemma input_step:
  assumes "input_passed k p q" and "k < length (w_ih (lm_layers p ! 0))" and "lm_layers p \<noteq> []"
  shows "input_passed (Suc k) p (update_input err k q)"
proof -
  have "0 < length (lm_layers q)" using assms by (simp add: input_passed_def)
  with assms show ?thesis
    by (auto simp: input_passed_def update_input_def nth_list_update less_Suc_eq quantise_range
        wf_layer_def Let_def)
qed

lemma input_loop:
  "k \<le> length (w_ih (lm_layers p ! 0)) \<Longrightarrow> lm_layers p \<noteq> [] \<Longrightarrow>
   input_passed k p (fold (update_input err) [0..<k] p)"
  by (induction k) (simp add: input_passed_def, simp add: input_step)

text \<open>
  C27. An online update with a full history keeps every size the network relies on, leaves all head and
  input weights between -127 and 127, never shrinks the head's scale, leaves the second layer alone
  and moves the head's bias by the learning rate times the prediction error; with a shorter history
  it changes nothing.
\<close>
theorem online_update_sound:
  assumes "wf_lstm p"
  shows "wf_lstm (online_update history target p) \<and>
    (if length history < HISTORY_LEN then online_update history target p = p
     else (\<forall>w \<in> set (head_w (online_update history target p)). \<bar>sint w\<bar> \<le> 127) \<and>
          (\<forall>w \<in> set (w_ih (lm_layers (online_update history target p) ! 0)). \<bar>sint w\<bar> \<le> 127) \<and>
          head_scale p \<le> head_scale (online_update history target p) \<and>
          lm_layers (online_update history target p) ! 1 = lm_layers p ! 1 \<and>
          head_b (online_update history target p) =
            head_b p + ADA_LR * (target - predict p (take HISTORY_LEN history)))"
proof (cases "length history < HISTORY_LEN")
  case True
  with assms show ?thesis by (simp add: online_update_def)
next
  case False
  define err where "err = target - predict p (take HISTORY_LEN history)"
  define p1 where "p1 = fold (update_head err) [0..<HIDDEN_SIZE] p"
  define p2 where "p2 = p1\<lparr>head_b := head_b p1 + ADA_LR * err\<rparr>"
  define n where "n = length (w_ih (lm_layers p ! 0))"
  define p3 where "p3 = fold (update_input err) [0..<n] p2"
  have sizes: "length (head_w p) = HIDDEN_SIZE" "length (ada_w_ih0 p) = n" "lm_layers p \<noteq> []"
    using assms by (auto simp: wf_lstm_def n_def NUM_LAYERS_def)
  have h: "head_passed HIDDEN_SIZE p p1" unfolding p1_def using sizes by (intro head_loop) simp
  then have l1: "lm_layers p1 = lm_layers p" "ada_w_ih0 p1 = ada_w_ih0 p" by (simp_all add: head_passed_def)
  then have l2: "lm_layers p2 = lm_layers p" "ada_w_ih0 p2 = ada_w_ih0 p" by (simp_all add: p2_def)
  have i: "input_passed n p2 p3" unfolding p3_def using sizes by (intro input_loop) (simp_all add: l2 n_def)
  have run: "online_update history target p = p3"
    using False sizes
    by (simp add: online_update_def err_def [symmetric] p1_def [symmetric] p2_def [symmetric] l1
        n_def [symmetric] p3_def Let_def)
  have head: "length (head_w p3) = HIDDEN_SIZE" "\<forall>i < HIDDEN_SIZE. \<bar>sint (head_w p3 ! i)\<bar> \<le> 127"
    "head_scale p \<le> head_scale p3" "length (ada_head p3) = length (ada_head p)"
    "head_b p3 = head_b p + ADA_LR * err"
    using h i sizes by (simp_all add: head_passed_def input_passed_def p2_def)
  have layer: "length (w_ih (lm_layers p3 ! 0)) = n" "\<forall>i < n. \<bar>sint (w_ih (lm_layers p3 ! 0) ! i)\<bar> \<le> 127"
    "lm_layers p3 ! 1 = lm_layers p ! 1" "length (lm_layers p3) = length (lm_layers p)"
    "wf_layer 1 (lm_layers p3 ! 0) = wf_layer 1 (lm_layers p ! 0)" "length (ada_w_ih0 p3) = n"
    using i sizes by (simp_all add: input_passed_def l2 n_def)
  have "wf_lstm p3" using assms head layer by (simp add: wf_lstm_def)
  with False head layer show ?thesis
    by (simp add: run err_def [symmetric] all_set_conv_all_nth)
qed

theorem online_update_sound_witness:
  "wf_lstm (online_update (replicate 16 0.5) 0.75 lstm_fresh) \<and>
   head_scale lstm_fresh \<le> head_scale (online_update (replicate 16 0.5) 0.75 lstm_fresh)"
  using online_update_sound [OF wf_lstm_fresh, of "replicate 16 0.5" "0.75"] by (simp add: HISTORY_LEN_def)

end
