(* ===== verification/Lstm_File.thy ===== *)
theory Lstm_File
  imports Lstm_Props
begin

text \<open>
  The weight files of the predictor: \<open>save_weights\<close> and \<open>load_weights\<close> of
  \<open>lstm/lstm_predictor.cpp\<close>, both the current format (\<open>HICSLSTM\<close>, version 2) and the older one.

  A file is its bytes.  Numbers are stored in the byte order of the machine, here little endian.  How
  a \<open>float\<close> is stored as 32 bits is an argument, \<open>enc\<close> with its inverse \<open>dec\<close>, because floats are
  real numbers in this model.  Reading is \<open>std::istream::read\<close>: a read past the end stores the bytes
  there are and makes the stream fail, and a failed stream stores nothing more.
\<close>

section \<open>Bytes\<close>

definition u32_bytes :: "u32 \<Rightarrow> u8 list" where
  "u32_bytes w = [ucast w, ucast (drop_bit 8 w), ucast (drop_bit 16 w), ucast (drop_bit 24 w)]"

definition bytes_u32 :: "u8 list \<Rightarrow> u32" where
  "bytes_u32 bs = ucast (bs ! 0) OR push_bit 8 (ucast (bs ! 1)) OR push_bit 16 (ucast (bs ! 2))
                  OR push_bit 24 (ucast (bs ! 3))"

lemma length_u32_bytes [simp]: "length (u32_bytes w) = 4"
  by (simp add: u32_bytes_def)

lemma u32_bytes_inverse [simp]: "bytes_u32 (u32_bytes w) = w"
proof (rule bit_word_eqI)
  fix n assume "n < LENGTH(32)"
  then consider "n < 8" | "8 \<le> n" "n < 16" | "16 \<le> n" "n < 24" | "24 \<le> n" "n < 32" by fastforce
  then show "bit (bytes_u32 (u32_bytes w)) n = bit w n"
    by cases (auto simp: bytes_u32_def u32_bytes_def bit_or_iff bit_push_bit_iff bit_unsigned_iff
        bit_drop_bit_eq)
qed

definition LSTM_WEIGHT_MAGIC :: "u8 list" where
  "LSTM_WEIGHT_MAGIC = map of_char ''HICSLSTM''"

definition LSTM_WEIGHT_VERSION :: u32 where "LSTM_WEIGHT_VERSION = 2"

section \<open>Saving\<close>

type_synonym f32_enc = "real \<Rightarrow> u32"
type_synonym f32_dec = "u32 \<Rightarrow> real"

definition f32_bytes :: "f32_enc \<Rightarrow> real list \<Rightarrow> u8 list" where
  "f32_bytes enc xs = concat (map (\<lambda>x. u32_bytes (enc x)) xs)"

definition save_layer :: "f32_enc \<Rightarrow> lstm_layer \<Rightarrow> u8 list" where
  "save_layer enc layer =
     u32_bytes (input_size layer) @ u32_bytes (of_nat (GATES * HIDDEN_SIZE)) @
     w_ih layer @ f32_bytes enc [scale_ih layer] @ w_hh layer @ f32_bytes enc [scale_hh layer] @
     f32_bytes enc (b_ih layer) @ f32_bytes enc (b_hh layer)"

definition weight_file :: "f32_enc \<Rightarrow> lstm \<Rightarrow> u8 list" where
  "weight_file enc p =
     LSTM_WEIGHT_MAGIC @ u32_bytes LSTM_WEIGHT_VERSION @ u32_bytes (of_nat HIDDEN_SIZE) @
     u32_bytes (of_nat NUM_LAYERS) @ u32_bytes (of_nat HISTORY_LEN) @
     concat (map (save_layer enc) (lm_layers p)) @
     u32_bytes (of_nat HIDDEN_SIZE) @ head_w p @ f32_bytes enc [head_scale p] @ f32_bytes enc [head_b p]"

text \<open>
  The file on disk: \<open>None\<close> when it cannot be opened for writing, otherwise what writing bytes to it
  answers, the state of the stream at the end and what the file then holds.
\<close>

type_synonym weight_sink = "(u8 list \<Rightarrow> bool \<times> u8 list) option"

definition save_weights :: "f32_enc \<Rightarrow> weight_sink \<Rightarrow> lstm \<Rightarrow> bool \<times> u8 list option" where
  "save_weights enc sink p =
     (case sink of
        None \<Rightarrow> (False, None)
      | Some write \<Rightarrow> (let (ok, bs) = write (weight_file enc p) in (ok, Some bs)))"

section \<open>Loading\<close>

text \<open>A stream is what is left of the file and whether every read so far has succeeded.\<close>

type_synonym istream = "u8 list \<times> bool"

definition good :: "istream \<Rightarrow> bool" where
  "good f = snd f"

definition read_into :: "u8 list \<Rightarrow> istream \<Rightarrow> u8 list \<times> istream" where
  "read_into buf f =
     (if \<not> good f then (buf, f)
      else if length buf \<le> length (fst f)
           then (take (length buf) (fst f), (drop (length buf) (fst f), True))
           else (fst f @ drop (length (fst f)) buf, ([], False)))"

definition read_u32 :: "u32 \<Rightarrow> istream \<Rightarrow> u32 \<times> istream" where
  "read_u32 old f = (let (b, f') = read_into (u32_bytes old) f in (bytes_u32 b, f'))"

fun decode_f32s :: "f32_dec \<Rightarrow> u8 list \<Rightarrow> real list" where
  "decode_f32s dec (a # b # c # d # bs) = dec (bytes_u32 [a, b, c, d]) # decode_f32s dec bs"
| "decode_f32s dec _ = []"

definition read_f32s :: "f32_enc \<Rightarrow> f32_dec \<Rightarrow> real list \<Rightarrow> istream \<Rightarrow> real list \<times> istream" where
  "read_f32s enc dec old f =
     (let (b, f') = read_into (f32_bytes enc old) f
      in (if good f then decode_f32s dec b else old, f'))"

definition read_f32 :: "f32_enc \<Rightarrow> f32_dec \<Rightarrow> real \<Rightarrow> istream \<Rightarrow> real \<times> istream" where
  "read_f32 enc dec old f = (let (xs, f') = read_f32s enc dec [old] f in (hd xs, f'))"

text \<open>One layer of the current format, read over a default layer, with its early returns.\<close>

definition load_layer :: "f32_enc \<Rightarrow> f32_dec \<Rightarrow> lstm_layer \<Rightarrow> istream \<Rightarrow> bool \<times> lstm_layer \<times> istream" where
  "load_layer enc dec layer f0 =
     (let (in_sz, f1) = read_u32 0 f0
      in if \<not> good f1 then (False, layer, f1) else
      let (rows, f2) = read_u32 0 f1
      in if \<not> good f2 then (False, layer, f2) else
      let l1 = layer\<lparr>input_size := in_sz,
                 w_ih := resize (unat rows * unat in_sz) 0 (w_ih layer),
                 w_hh := resize (unat rows * HIDDEN_SIZE) 0 (w_hh layer),
                 b_ih := resize (unat rows) 0 (b_ih layer), b_hh := resize (unat rows) 0 (b_hh layer)\<rparr>;
          (wi, f3) = read_into (w_ih l1) f2;
          (si, f4) = read_f32 enc dec (scale_ih l1) f3;
          l2 = l1\<lparr>w_ih := wi, scale_ih := si\<rparr>
      in if \<not> good f4 then (False, l2, f4) else
      let (wh, f5) = read_into (w_hh l2) f4;
          (sh, f6) = read_f32 enc dec (scale_hh l2) f5;
          l3 = l2\<lparr>w_hh := wh, scale_hh := sh\<rparr>
      in if \<not> good f6 then (False, l3, f6) else
      let (bi, f7) = read_f32s enc dec (b_ih l3) f6;
          (bh, f8) = read_f32s enc dec (b_hh l3) f7;
          l4 = l3\<lparr>b_ih := bi, b_hh := bh\<rparr>
      in (good f8, l4, f8))"

fun load_layers :: "f32_enc \<Rightarrow> f32_dec \<Rightarrow> nat list \<Rightarrow> lstm \<Rightarrow> istream \<Rightarrow> bool \<times> lstm \<times> istream" where
  "load_layers enc dec [] p f = (True, p, f)"
| "load_layers enc dec (L # Ls) p f =
     (let (ok, layer, f') = load_layer enc dec (lm_layers p ! L) f;
          p' = p\<lparr>lm_layers := (lm_layers p)[L := layer]\<rparr>
      in if \<not> ok then (False, p', f') else load_layers enc dec Ls p' f')"

definition load_head :: "f32_enc \<Rightarrow> f32_dec \<Rightarrow> lstm \<Rightarrow> istream \<Rightarrow> bool \<times> lstm" where
  "load_head enc dec p f0 =
     (let (n, f1) = read_u32 0 f0
      in if \<not> good f1 \<or> n \<noteq> of_nat HIDDEN_SIZE then (False, p) else
      let (w, f2) = read_into (resize HIDDEN_SIZE 0 (head_w p)) f1;
          (s, f3) = read_f32 enc dec (head_scale p) f2;
          p1 = p\<lparr>head_w := w, head_scale := s\<rparr>
      in if \<not> good f3 then (False, p1) else
      let (b, f4) = read_f32 enc dec (head_b p1) f3;
          p2 = p1\<lparr>head_b := b\<rparr>
      in if \<not> good f4 then (False, p2)
         else (True, p2\<lparr>ada_head := replicate HIDDEN_SIZE 0,
                        ada_w_ih0 := replicate (length (w_ih (lm_layers p2 ! 0))) 0,
                        weights_loaded := True\<rparr>))"

definition load_v2 :: "f32_enc \<Rightarrow> f32_dec \<Rightarrow> istream \<Rightarrow> lstm \<Rightarrow> bool \<times> lstm" where
  "load_v2 enc dec f0 p =
     (let (version, f1) = read_u32 0 f0; (hidden, f2) = read_u32 0 f1;
          (nlayers, f3) = read_u32 0 f2; (history, f4) = read_u32 0 f3
      in if \<not> good f4 then (False, p)
         else if version \<noteq> LSTM_WEIGHT_VERSION \<or> hidden \<noteq> of_nat HIDDEN_SIZE \<or> nlayers \<noteq> of_nat NUM_LAYERS
         then (False, p) else
      let p1 = p\<lparr>lm_layers := replicate NUM_LAYERS default_layer\<rparr>;
          (ok, p2, f5) = load_layers enc dec [0..<NUM_LAYERS] p1 f4
      in if \<not> ok then (False, p2) else load_head enc dec p2 f5)"

definition load_legacy :: "f32_enc \<Rightarrow> f32_dec \<Rightarrow> istream \<Rightarrow> lstm \<Rightarrow> bool \<times> lstm" where
  "load_legacy enc dec f0 p =
     (let layer = lm_layers p ! 0;
          (wi, f1) = read_into (w_ih layer) f0;
          (wh, f2) = read_into (w_hh layer) f1;
          l1 = layer\<lparr>w_ih := wi, w_hh := wh\<rparr>;
          (si, f3) = read_f32 enc dec 0.01 f2;
          (sh, f4) = read_f32 enc dec 0.01 f3
      in if \<not> good f4 then (False, p\<lparr>lm_layers := (lm_layers p)[0 := l1]\<rparr>)
         else (True, p\<lparr>lm_layers := (lm_layers p)[0 := l1\<lparr>scale_ih := si, scale_hh := sh\<rparr>],
                       weights_loaded := True\<rparr>))"

text \<open>\<open>None\<close> is a file that cannot be opened.\<close>

definition load_weights :: "f32_enc \<Rightarrow> f32_dec \<Rightarrow> u8 list option \<Rightarrow> lstm \<Rightarrow> bool \<times> lstm" where
  "load_weights enc dec file p =
     (case file of
        None \<Rightarrow> (False, p)
      | Some bs \<Rightarrow>
          let (magic, f) = read_into (replicate 8 0) (bs, True)
          in if magic \<noteq> LSTM_WEIGHT_MAGIC then load_legacy enc dec (bs, True) p
             else load_v2 enc dec f p)"

section \<open>Reading back what was written\<close>

lemma read_into_exact:
  "length buf = length xs \<Longrightarrow> read_into buf (xs @ ys, True) = (xs, (ys, True))"
  by (simp add: read_into_def good_def)

lemma read_u32_exact: "read_u32 old (u32_bytes w @ ys, True) = (w, (ys, True))"
  by (simp add: read_u32_def read_into_exact)

lemma length_f32_bytes [simp]: "length (f32_bytes enc xs) = 4 * length xs"
  by (induction xs) (simp_all add: f32_bytes_def)

lemma decode_f32_bytes: "decode_f32s dec (f32_bytes enc xs) = map (\<lambda>x. dec (enc x)) xs"
proof (induction xs)
  case (Cons x xs)
  have "decode_f32s dec (u32_bytes w @ bs) = dec w # decode_f32s dec bs" for w bs
    using u32_bytes_inverse [of w] by (simp add: u32_bytes_def)
  with Cons show ?case by (simp add: f32_bytes_def)
qed (simp add: f32_bytes_def)

lemma read_f32s_exact:
  assumes "length old = length xs" and "\<forall>x \<in> set xs. dec (enc x) = x"
  shows "read_f32s enc dec old (f32_bytes enc xs @ ys, True) = (xs, (ys, True))"
proof -
  have "map (\<lambda>x. dec (enc x)) xs = xs" using assms(2) by (intro map_idI) simp
  then show ?thesis
    using assms(1) by (simp add: read_f32s_def read_into_exact decode_f32_bytes good_def)
qed

lemma read_f32_exact:
  "dec (enc x) = x \<Longrightarrow> read_f32 enc dec old (f32_bytes enc [x] @ ys, True) = (x, (ys, True))"
  by (simp add: read_f32_def read_f32s_exact)

text \<open>Every float of the weights survives being stored.\<close>

definition layer_floats :: "lstm_layer \<Rightarrow> real set" where
  "layer_floats layer = {scale_ih layer, scale_hh layer} \<union> set (b_ih layer) \<union> set (b_hh layer)"

definition storable :: "f32_enc \<Rightarrow> f32_dec \<Rightarrow> lstm \<Rightarrow> bool" where
  "storable enc dec p \<longleftrightarrow> (\<forall>x \<in> {head_scale p, head_b p} \<union> (\<Union>l \<in> set (lm_layers p). layer_floats l).
     dec (enc x) = x)"

lemma load_layer_exact:
  assumes "wf_layer n layer" and "\<forall>x \<in> layer_floats layer. dec (enc x) = x"
  shows "load_layer enc dec old (save_layer enc layer @ ys, True) = (True, layer, (ys, True))"
proof -
  have rows: "unat (of_nat (GATES * HIDDEN_SIZE) :: u32) = GATES * HIDDEN_SIZE"
    by (rule unat_of_nat_small) (simp add: lstm_sizes)
  have dec: "dec (enc (scale_ih layer)) = scale_ih layer" "dec (enc (scale_hh layer)) = scale_hh layer"
    "\<forall>x \<in> set (b_ih layer). dec (enc x) = x" "\<forall>x \<in> set (b_hh layer). dec (enc x) = x"
    using assms(2) by (simp_all add: layer_floats_def)
  have len: "length (w_ih layer) = GATES * HIDDEN_SIZE * unat (input_size layer)"
    "length (w_hh layer) = GATES * HIDDEN_SIZE * HIDDEN_SIZE"
    "length (b_ih layer) = GATES * HIDDEN_SIZE" "length (b_hh layer) = GATES * HIDDEN_SIZE"
    using assms(1) by (auto simp: wf_layer_def)
  have good: "good (zs, True)" for zs by (simp add: good_def)
  show ?thesis
    unfolding load_layer_def save_layer_def append_assoc read_u32_exact Let_def case_prod_conv good rows
    by (simp add: read_into_exact read_f32_exact read_f32s_exact len dec good rows del: of_nat_mult)
qed

text \<open>
  C20. Saving and loading round trip: saving a well-formed predictor whose floats are storable answers
  failure and writes nothing when the file does not open; when it opens and takes what is written it
  answers success, and the file loads into any predictor, answers success, and gives it exactly the
  written layers and head, reset accumulators and the loaded flag, leaving its caches alone.
\<close>
theorem save_load_roundtrip:
  assumes "wf_lstm p" and "storable enc dec p"
  shows "save_weights enc None p = (False, None) \<and>
    (\<exists>file. save_weights enc (Some (\<lambda>bs. (True, bs))) p = (True, Some file) \<and>
       load_weights enc dec (Some file) q =
         (True, q\<lparr>lm_layers := lm_layers p, head_w := head_w p, head_scale := head_scale p, head_b := head_b p,
                  ada_head := replicate HIDDEN_SIZE 0,
                  ada_w_ih0 := replicate (length (w_ih (lm_layers p ! 0))) 0, weights_loaded := True\<rparr>))"
proof -
  obtain l0 l1 where layers: "lm_layers p = [l0, l1]" and wf: "wf_layer 1 l0" "wf_layer HIDDEN_SIZE l1"
    and head: "length (head_w p) = HIDDEN_SIZE"
    using assms(1) by (auto simp: wf_lstm_def NUM_LAYERS_def numeral_2_eq_2 length_Suc_conv)
  have dec: "\<forall>x \<in> layer_floats l0. dec (enc x) = x" "\<forall>x \<in> layer_floats l1. dec (enc x) = x"
    "dec (enc (head_scale p)) = head_scale p" "dec (enc (head_b p)) = head_b p"
    using assms(2) by (simp_all add: storable_def layers)
  have good: "good (zs, True)" for zs by (simp add: good_def)
  let ?tail = "u32_bytes (of_nat HIDDEN_SIZE) @ head_w p @ f32_bytes enc [head_scale p] @ f32_bytes enc [head_b p]"
  have magic: "read_into (replicate 8 0) (LSTM_WEIGHT_MAGIC @ ys, True) = (LSTM_WEIGHT_MAGIC, (ys, True))" for ys
    by (rule read_into_exact) (simp add: LSTM_WEIGHT_MAGIC_def)
  have "load_layers enc dec [0..<NUM_LAYERS] (q\<lparr>lm_layers := replicate NUM_LAYERS default_layer\<rparr>)
      (concat (map (save_layer enc) (lm_layers p)) @ ?tail, True) = (True, q\<lparr>lm_layers := [l0, l1]\<rparr>, (?tail, True))"
    using load_layer_exact [OF wf(1) dec(1)] load_layer_exact [OF wf(2) dec(2)]
    by (simp add: layers NUM_LAYERS_def numeral_2_eq_2 upt_rec)
  moreover have "load_head enc dec (q\<lparr>lm_layers := [l0, l1]\<rparr>) (?tail, True) =
      (True, q\<lparr>lm_layers := lm_layers p, head_w := head_w p, head_scale := head_scale p, head_b := head_b p,
             ada_head := replicate HIDDEN_SIZE 0,
             ada_w_ih0 := replicate (length (w_ih (lm_layers p ! 0))) 0, weights_loaded := True\<rparr>)"
    using read_f32_exact [where dec = dec and enc = enc and x = "head_b p" and ys = "[]", OF dec(4)]
    by (simp add: load_head_def read_u32_exact read_into_exact read_f32_exact dec head good layers)
  ultimately show ?thesis
    by (simp add: load_weights_def save_weights_def weight_file_def magic load_v2_def read_u32_exact good)
qed

definition sample_enc :: f32_enc where
  "sample_enc x = (if x = 0.02 then 1 else if x = 1 then 2 else if x = 0.05 then 3 else 0)"

definition sample_dec :: f32_dec where
  "sample_dec w = (if w = 1 then 0.02 else if w = 2 then 1 else if w = 3 then 0.05 else 0)"

lemma init_layer_floats: "layer_floats (init_layer L) \<subseteq> {0, 1, 0.02}"
  by (auto simp: layer_floats_def init_layer_def Let_def simp del: upt_rec_numeral split: if_splits)

theorem save_load_roundtrip_witness:
  "\<exists>file. save_weights sample_enc (Some (\<lambda>bs. (True, bs))) lstm_fresh = (True, Some file) \<and>
     fst (load_weights sample_enc sample_dec (Some file) lstm_blank) \<and>
     lm_layers (snd (load_weights sample_enc sample_dec (Some file) lstm_blank)) = lm_layers lstm_fresh"
proof -
  have dec: "sample_dec (sample_enc x) = x" if "x \<in> {0, 1, 0.02, 0.05}" for x
    using that by (auto simp: sample_dec_def sample_enc_def)
  have "head_scale lstm_fresh = 0.05" "head_b lstm_fresh = 0"
    and layers: "lm_layers lstm_fresh = map init_layer [0..<NUM_LAYERS]"
    by (simp_all add: lstm_fresh_def init_default_weights_def)
  moreover have "(\<Union>l \<in> set (lm_layers lstm_fresh). layer_floats l) \<subseteq> {0, 1, 0.02, 0.05}"
  proof (rule UN_least)
    fix l assume "l \<in> set (lm_layers lstm_fresh)"
    then obtain L where "l = init_layer L" unfolding layers by auto
    with init_layer_floats [of L] show "layer_floats l \<subseteq> {0, 1, 0.02, 0.05}" by blast
  qed
  ultimately have "{head_scale lstm_fresh, head_b lstm_fresh} \<union>
      (\<Union>l \<in> set (lm_layers lstm_fresh). layer_floats l) \<subseteq> {0, 1, 0.02, 0.05}" by simp
  then have "storable sample_enc sample_dec lstm_fresh"
    unfolding storable_def by (intro ballI dec) (rule subsetD)
  from save_load_roundtrip [OF wf_lstm_fresh this, of lstm_blank] show ?thesis by auto
qed

section \<open>What loading does not check\<close>

definition v2_header :: "u8 list" where
  "v2_header = LSTM_WEIGHT_MAGIC @ u32_bytes LSTM_WEIGHT_VERSION @ u32_bytes (of_nat HIDDEN_SIZE) @
     u32_bytes (of_nat NUM_LAYERS) @ u32_bytes (of_nat HISTORY_LEN)"

text \<open>A file whose layers have no rows.\<close>

definition rowless_file :: "u8 list" where
  "rowless_file = v2_header @ concat (replicate NUM_LAYERS (u32_bytes 1 @ u32_bytes 0 @ replicate 8 0)) @
     u32_bytes (of_nat HIDDEN_SIZE) @ replicate (HIDDEN_SIZE + 8) 0"

lemma load_v2_file:
  "load_weights enc dec (Some (v2_header @ bs)) p =
     (let (ok, p2, f5) = load_layers enc dec [0..<NUM_LAYERS]
            (p\<lparr>lm_layers := replicate NUM_LAYERS default_layer\<rparr>) (bs, True)
      in if \<not> ok then (False, p2) else load_head enc dec p2 f5)"
proof -
  have "read_into (replicate 8 0) (LSTM_WEIGHT_MAGIC @ ys, True) = (LSTM_WEIGHT_MAGIC, (ys, True))" for ys
    by (rule read_into_exact) (simp add: LSTM_WEIGHT_MAGIC_def)
  moreover have "good (zs, True)" for zs by (simp add: good_def)
  ultimately show ?thesis
    by (simp add: load_weights_def v2_header_def load_v2_def read_u32_exact)
qed

text \<open>
  Loading checks neither before it writes nor what it reads: a file that breaks off after its
  header answers failure but has already thrown the predictor's layers away, leaving two without any
  weights, and a file whose layers declare no rows is accepted though the network then has no
  weights to index.
\<close>
theorem load_leaves_unusable_layers:
  "load_weights enc dec (Some v2_header) p = (False, p\<lparr>lm_layers := replicate NUM_LAYERS default_layer\<rparr>) \<and>
   fst (load_weights enc dec (Some rowless_file) p) \<and>
   w_ih (lm_layers (snd (load_weights enc dec (Some rowless_file) p)) ! 0) = [] \<and>
   \<not> wf_lstm (p\<lparr>lm_layers := replicate NUM_LAYERS default_layer\<rparr>) \<and>
   \<not> wf_lstm (snd (load_weights enc dec (Some rowless_file) p))"
proof -
  have two: "[0..<NUM_LAYERS] = [0, 1]" "replicate NUM_LAYERS x = [x, x]" for x :: 'b
    by (simp_all add: NUM_LAYERS_def numeral_2_eq_2)
  have head: "load_weights enc dec (Some v2_header) p = (False, p\<lparr>lm_layers := replicate NUM_LAYERS default_layer\<rparr>)"
    using load_v2_file [of enc dec "[]" p]
    by (simp add: two load_layer_def read_u32_def read_into_def good_def)
  let ?layer = "\<lparr>w_ih = [], w_hh = [], b_ih = [], b_hh = [], scale_ih = dec 0, scale_hh = dec 0, input_size = 1\<rparr>"
  have zeros: "bytes_u32 [0, 0, 0, 0] = 0" by (simp add: bytes_u32_def)
  have skip: "read_f32 enc dec old (0 # 0 # 0 # 0 # ys, True) = (dec 0, (ys, True))" for old ys
    by (simp add: read_f32_def read_f32s_def read_into_def good_def zeros)
  have layer: "load_layer enc dec default_layer ((u32_bytes 1 @ u32_bytes 0 @ replicate 8 0) @ ys, True) =
      (True, ?layer, (ys, True))" for ys
  proof -
    have "(u32_bytes 1 @ u32_bytes 0 @ replicate 8 (0 :: u8)) @ ys = u32_bytes 1 @ u32_bytes 0 @
        0 # 0 # 0 # 0 # 0 # 0 # 0 # 0 # ys" by (simp add: numeral_eq_Suc)
    then show ?thesis
      by (simp only: load_layer_def read_u32_exact Let_def case_prod_conv)
        (simp add: good_def read_u32_exact default_layer_def resize_def read_into_def skip read_f32s_def f32_bytes_def)
  qed
  have "fst (load_weights enc dec (Some rowless_file) p) \<and>
      w_ih (lm_layers (snd (load_weights enc dec (Some rowless_file) p)) ! 0) = []"
  proof -
    let ?head = "u32_bytes (of_nat HIDDEN_SIZE) @ replicate HIDDEN_SIZE (0 :: u8) @ 0 # 0 # 0 # 0 # 0 # 0 # 0 # 0 # []"
    have contents: "rowless_file = v2_header @ (u32_bytes 1 @ u32_bytes 0 @ replicate 8 0) @
        (u32_bytes 1 @ u32_bytes 0 @ replicate 8 0) @ ?head"
      by (simp add: rowless_file_def two replicate_add) (simp add: numeral_eq_Suc)
    have "load_head enc dec q (?head, True) = (True, q\<lparr>head_w := replicate HIDDEN_SIZE 0, head_scale := dec 0,
        head_b := dec 0, ada_head := replicate HIDDEN_SIZE 0,
        ada_w_ih0 := replicate (length (w_ih (lm_layers q ! 0))) 0, weights_loaded := True\<rparr>)" for q
      by (simp add: load_head_def read_u32_exact read_into_exact good_def skip)
    then show ?thesis
      unfolding contents load_v2_file by (simp add: two layer del: append_assoc)
  qed
  with head show ?thesis by (simp add: wf_lstm_def wf_layer_def two default_layer_def lstm_sizes)
qed

end
