(* ===== verification/Path_Engine.thy ===== *)
theory Path_Engine
  imports Search Executor Lstm
begin

text \<open>
  The path selection engine, \<open>path_engine/path_engine.hpp\<close> and \<open>path_engine/path_engine.cpp\<close>: which
  paths a traffic class may use, what a path costs under the predicted utilisation, the choice of a
  path, the striping of a KV migration over the rails, preemption and the reroutes that follow it.

  The engine works on the graph (whose path cache \<open>paths\<close> fills), on its own members and on the
  executor it points to (\<open>None\<close> for the null pointer); \<open>path_world\<close> holds the three.  The predictor is
  only read.  \<open>g\<close> is the graph the executor points to and \<open>now\<close> the clock, as in \<open>Executor\<close>.
\<close>

section \<open>Data\<close>

record kv_flow =
  kf_id :: transfer_id
  kf_src :: u32
  kf_dst :: u32
  kf_bytes_remaining :: u64
  kf_slack_us :: real
  kf_paused :: bool
  kf_edges :: edge_path

record pending_reroute =
  pr_id :: transfer_id
  pr_avoid_edges :: edge_path

record chunk_dispatch =
  cd_seq :: u32
  cd_edges :: edge_path
  cd_size :: u64
  cd_offset :: u64
  cd_rail :: int

record engine =
  en_utils :: "real list"
  en_preempt_events :: u64
  en_reroute_events :: u64
  en_kv_flows :: "kv_flow list"
  en_pending :: "pending_reroute list"

record path_world =
  pw_graph :: topology_graph
  pw_engine :: engine
  pw_executor :: "executor option"

definition engine_fresh :: engine where
  "engine_fresh = \<lparr>en_utils = [], en_preempt_events = 0, en_reroute_events = 0, en_kv_flows = [],
                   en_pending = []\<rparr>"

section \<open>Paths and their cost\<close>

definition path_rail_id :: "graph_edge list \<Rightarrow> edge_path \<Rightarrow> int" where
  "path_rail_id es p = (case first_rail es p of None \<Rightarrow> -1 | Some r \<Rightarrow> r)"

definition path_mean_util :: "edge_path \<Rightarrow> real list \<Rightarrow> real" where
  "path_mean_util path utils =
     (if path = [] then 1
      else
        let us = map (\<lambda>e. utils ! unat e) (filter (\<lambda>e. unat e < length utils) path)
        in if us \<noteq> [] then sum_list us / real (length us) else 0)"

fun fabric_allowed :: "traffic_class \<Rightarrow> fabric_type \<Rightarrow> bool" where
  "fabric_allowed TensorParallel f = (f = NVLink \<or> f = InfiniBand)"
| "fabric_allowed PipelineParallel f = True"
| "fabric_allowed KVMigration f = (f \<noteq> PCIe)"

definition path_allowed :: "graph_edge list \<Rightarrow> traffic_class \<Rightarrow> edge_path \<Rightarrow> bool" where
  "path_allowed es cls p \<longleftrightarrow> list_all (\<lambda>e. fabric_allowed cls (fabric (attrs (es ! unat e)))) p"

definition flexibility_set ::
  "topology_graph \<Rightarrow> u32 \<Rightarrow> u32 \<Rightarrow> traffic_class \<Rightarrow> edge_path list \<times> topology_graph"
where
  "flexibility_set g src dst cls =
     (let (all_paths, g') = paths g src dst;
          admissible_paths = filter (path_allowed (edges g) cls) all_paths
      in (if admissible_paths = [] \<and> cls = KVMigration then all_paths else admissible_paths, g'))"

text \<open>\<open>eff\<close> is the predictor's \<open>effective_util\<close>.\<close>

definition path_cost_of ::
  "(u32 \<Rightarrow> real \<Rightarrow> real \<Rightarrow> real) \<Rightarrow> graph_edge list \<Rightarrow> real list \<Rightarrow> edge_path \<Rightarrow> u64 \<Rightarrow> real \<Rightarrow> real"
where
  "path_cost_of eff es utils p nbytes dur_ms =
     (\<Sum>e \<leftarrow> p. edge_latency_us (attrs (es ! unat e)) nbytes
        (eff e (if unat e < length utils then utils ! unat e else 0) dur_ms))"

text \<open>The loop that keeps the cheapest candidate seen so far.\<close>

fun cheapest :: "(edge_path \<Rightarrow> real) \<Rightarrow> edge_path list \<Rightarrow> path_cost \<Rightarrow> path_cost" where
  "cheapest cost [] best = best"
| "cheapest cost (p # ps) best =
     cheapest cost ps (if cost p < pc_latency_us best then \<lparr>edge_indices = p, pc_latency_us = cost p\<rparr> else best)"

section \<open>Bookkeeping of KV flows and preemption\<close>

definition register_kv_flow ::
  "transfer_id \<Rightarrow> u32 \<Rightarrow> u32 \<Rightarrow> u64 \<Rightarrow> real \<Rightarrow> edge_path \<Rightarrow> engine \<Rightarrow> engine"
where
  "register_kv_flow i src dst bytes slack es en =
     en\<lparr>en_kv_flows := en_kv_flows en @ [\<lparr>kf_id = i, kf_src = src, kf_dst = dst,
          kf_bytes_remaining = bytes, kf_slack_us = slack, kf_paused = False, kf_edges = es\<rparr>]\<rparr>"

definition unregister_kv_flow :: "transfer_id \<Rightarrow> engine \<Rightarrow> engine" where
  "unregister_kv_flow i en = en\<lparr>en_kv_flows := filter (\<lambda>f. kf_id f \<noteq> i) (en_kv_flows en)\<rparr>"

definition flow_hit :: "edge_path \<Rightarrow> kv_flow \<Rightarrow> bool" where
  "flow_hit shared f \<longleftrightarrow> \<not> (kf_paused f \<or> kf_bytes_remaining f = 0) \<and> list_ex (\<lambda>e. e \<in> set shared) (kf_edges f)"

text \<open>
  Without an executor only the engine's own list is marked; \<open>std::sort\<close> again leaves the order of
  equal slacks open.
\<close>

definition preempt_kv_migrations ::
  "edge_path \<Rightarrow> bool \<Rightarrow> path_world \<Rightarrow> transfer_id list \<times> path_world"
where
  "preempt_kv_migrations path_edges do_reroute w =
     (case pw_executor w of
        Some ex \<Rightarrow>
          let (ids, ex') = preempt_sharing path_edges 8 ex; en = pw_engine w
          in (ids, w\<lparr>pw_executor := Some ex',
                pw_engine := en\<lparr>en_preempt_events := en_preempt_events en + of_nat (length ids),
                  en_pending := (if do_reroute
                    then en_pending en @ map (\<lambda>i. \<lparr>pr_id = i, pr_avoid_edges = path_edges\<rparr>) ids
                    else en_pending en)\<rparr>\<rparr>)
      | None \<Rightarrow>
          let en = pw_engine w;
              flows = sort_key (\<lambda>f. - kf_slack_us f) (en_kv_flows en);
              ids = map kf_id (filter (flow_hit path_edges) flows)
          in (ids, w\<lparr>pw_engine := en\<lparr>
                en_kv_flows := map (\<lambda>f. if flow_hit path_edges f then f\<lparr>kf_paused := True\<rparr> else f) flows,
                en_preempt_events := en_preempt_events en + of_nat (length ids)\<rparr>\<rparr>))"

section \<open>Path selection\<close>

definition est_dur_ms :: "u64 \<Rightarrow> real" where
  "est_dur_ms n = real (unat n) / 10 ^ 9 / 50 * 1000"

definition candidate_cost :: "lstm \<Rightarrow> graph_edge list \<Rightarrow> real list \<Rightarrow> transfer_request \<Rightarrow> edge_path \<Rightarrow> real" where
  "candidate_cost lm es utils req p =
     path_cost_of (effective_util lm) es utils p (size_bytes req) (est_dur_ms (size_bytes req))
     * (if traffic req = KVMigration then 0.75 + 0.5 * path_mean_util p utils else 1)"

definition select_path :: "lstm \<Rightarrow> transfer_request \<Rightarrow> real list \<Rightarrow> path_world \<Rightarrow> path_cost \<times> path_world" where
  "select_path lm req utils w0 =
     (let w1 = w0\<lparr>pw_engine := (pw_engine w0)\<lparr>en_utils := utils\<rparr>\<rparr>;
          src = vertex_of (pw_graph w1) (rq_source req);
          dst = vertex_of (pw_graph w1) (rq_dest req)
      in if src = UINT32_MAX \<or> dst = UINT32_MAX then (no_path, w1) else
      let (candidates, graph') = flexibility_set (pw_graph w1) src dst (traffic req);
          w2 = w1\<lparr>pw_graph := graph'\<rparr>;
          es = edges graph';
          cost = path_cost_of (effective_util lm) es utils
      in case candidates of
           [] \<Rightarrow> (no_path, w2)
         | [p] \<Rightarrow>
             let dur_ms = cost p (size_bytes req) 1 / 1000
             in (\<lparr>edge_indices = p, pc_latency_us = cost p (size_bytes req) dur_ms\<rparr>, w2)
         | _ \<Rightarrow>
             let best = cheapest (candidate_cost lm es utils req) candidates no_path
             in if traffic req = TensorParallel \<and> deadline_us req < pc_latency_us best
                then (best, snd (preempt_kv_migrations (edge_indices best) True w2))
                else (best, w2))"

section \<open>Striping\<close>

definition stripe_cost ::
  "lstm \<Rightarrow> graph_edge list \<Rightarrow> real list \<Rightarrow> real list \<Rightarrow> u64 \<Rightarrow> real \<Rightarrow> u32 \<Rightarrow> edge_path \<Rightarrow> real"
where
  "stripe_cost lm es utils current this_chunk dur_ms seq p =
     (let cost = path_cost_of (effective_util lm) es utils p this_chunk dur_ms
                 * (0.75 + 0.5 * path_mean_util p current);
          rail = path_rail_id es p
      in if 0 \<le> rail \<and> seq mod of_nat kIbRailCount = word_of_int rail then cost * 0.92 else cost)"

definition heat :: "real \<Rightarrow> edge_path \<Rightarrow> real list \<Rightarrow> real list" where
  "heat d p utils =
     fold (\<lambda>e us. if unat e < length us then us[unat e := min 0.99 (us ! unat e + d)] else us) p utils"

text \<open>
  The loop over the chunks; \<open>utils\<close> are the engine's utilisations, heated after each chunk.  The chunk
  size is positive where the loop is entered; the test makes it a total function.
\<close>

function stripe_loop ::
  "lstm \<Rightarrow> graph_edge list \<Rightarrow> edge_path list \<Rightarrow> real list \<Rightarrow> u64 \<Rightarrow> real \<Rightarrow>
   u64 \<Rightarrow> u32 \<Rightarrow> u64 \<Rightarrow> real list \<Rightarrow> chunk_dispatch list \<times> real list"
where
  "stripe_loop lm es candidates current chunk dur_ms remaining seq offset utils =
     (if remaining = 0 \<or> chunk = 0 then ([], utils)
      else
        let this_chunk = min remaining chunk;
            best0 = cheapest (stripe_cost lm es utils current this_chunk dur_ms seq) candidates no_path;
            best = (if edge_indices best0 = [] then \<lparr>edge_indices = candidates ! 0, pc_latency_us = 0\<rparr> else best0);
            d = \<lparr>cd_seq = seq, cd_edges = edge_indices best, cd_size = this_chunk, cd_offset = offset,
                 cd_rail = path_rail_id es (edge_indices best)\<rparr>;
            (ds, utils') = stripe_loop lm es candidates current chunk dur_ms (remaining - this_chunk)
                             (seq + 1) (offset + this_chunk) (heat 0.05 (edge_indices best) utils)
        in (d # ds, utils'))"
  by pat_completeness auto

termination
proof (relation "measure (\<lambda>(lm, es, candidates, current, chunk, dur, remaining, seq, offset, utils). unat remaining)")
  fix remaining chunk :: u64
  assume "\<not> (remaining = 0 \<or> chunk = 0)"
  then have "unat (remaining - min remaining chunk) < unat remaining"
    by (auto simp: min_def unat_sub word_le_nat_alt unat_gt_0 intro!: diff_less)
  then show "((lm, es, candidates, current, chunk, dur, remaining - this_chunk, seq', offset', utils'),
      (lm, es, candidates, current, chunk, dur, remaining, seq, offset, utils))
      \<in> measure (\<lambda>(lm, es, candidates, current, chunk, dur, remaining, seq, offset, utils). unat remaining)"
    if "this_chunk = min remaining chunk"
    for lm :: lstm and es candidates current dur seq offset utils this_chunk seq' offset' utils'
    using that by simp
qed auto

declare stripe_loop.simps [simp del]

definition stripe_kv_migration ::
  "lstm \<Rightarrow> transfer_request \<Rightarrow> real list \<Rightarrow> u64 \<Rightarrow> path_world \<Rightarrow> chunk_dispatch list \<times> path_world"
where
  "stripe_kv_migration lm req utils chunk_size0 w =
     (let chunk_size = (if chunk_size0 = 0 then kKvChunkBytes else chunk_size0);
          src = vertex_of (pw_graph w) (rq_source req);
          dst = vertex_of (pw_graph w) (rq_dest req);
          (candidates, graph') = flexibility_set (pw_graph w) src dst (traffic req);
          w1 = w\<lparr>pw_graph := graph'\<rparr>
      in if candidates = [] then ([], w1)
         else
           let (ds, utils') = stripe_loop lm (edges graph') candidates utils chunk_size
                                (est_dur_ms chunk_size) (size_bytes req) 0 0 utils
           in (ds, w1\<lparr>pw_engine := (pw_engine w1)\<lparr>en_utils := utils'\<rparr>\<rparr>))"

section \<open>Reroutes after a suspension\<close>

definition reroute_cost ::
  "lstm \<Rightarrow> graph_edge list \<Rightarrow> real list \<Rightarrow> edge_path \<Rightarrow> u64 \<Rightarrow> edge_path \<Rightarrow> real"
where
  "reroute_cost lm es utils avoid remain p =
     (let c0 = path_cost_of (effective_util lm) es utils p remain (est_dur_ms remain);
          c1 = (if list_ex (\<lambda>e. e \<in> set avoid) p then c0 else c0 * 0.5);
          busy_rail = path_rail_id es avoid;
          rail = path_rail_id es p;
          c2 = (if 0 \<le> busy_rail \<and> 0 \<le> rail \<and> rail \<noteq> busy_rail then c1 * 0.6 else c1)
      in c2 * (0.75 + 0.5 * path_mean_util p utils))"

definition reroute_flow :: "transfer_id \<Rightarrow> path_cost \<Rightarrow> u64 \<Rightarrow> real \<Rightarrow> kv_flow \<Rightarrow> kv_flow" where
  "reroute_flow i best remain deadline f =
     (if kf_id f = i
      then f\<lparr>kf_paused := False, kf_edges := edge_indices best, kf_bytes_remaining := remain,
             kf_slack_us := (if 0 < pc_latency_us best then deadline - pc_latency_us best else kf_slack_us f)\<rparr>
      else f)"

text \<open>One pending entry; the flag says whether it is done with.\<close>

definition drain_one ::
  "lstm \<Rightarrow> graph_edge list option \<Rightarrow> real list \<Rightarrow> pending_reroute \<Rightarrow> path_world \<Rightarrow> bool \<times> path_world"
where
  "drain_one lm g current pr w =
     (case pw_executor w of
        None \<Rightarrow> (False, w)
      | Some ex \<Rightarrow>
          let prog = get_transfer (pr_id pr) ex
          in if tp_state prog = Completed \<or> tp_state prog = Cancelled then (True, w)
             else if tp_state prog \<noteq> Paused then (False, w)
             else if tp_bytes_remaining prog = 0 then (True, w)
             else
               let req = tp_request prog;
                   remain = tp_bytes_remaining prog;
                   utils = heat 0.5 (pr_avoid_edges pr) current;
                   s = vertex_of (pw_graph w) (rq_source req);
                   d = vertex_of (pw_graph w) (rq_dest req);
                   (candidates, graph') = flexibility_set (pw_graph w) s d (traffic req);
                   en = (if candidates = [] then pw_engine w else (pw_engine w)\<lparr>en_utils := utils\<rparr>);
                   best = cheapest (reroute_cost lm (edges graph') utils (pr_avoid_edges pr) remain)
                            candidates no_path;
                   (ok, ex') = (if edge_indices best = [] then (False, ex) else reroute g (pr_id pr) best ex)
               in (ok, \<lparr>pw_graph = graph',
                    pw_engine = (if ok then en\<lparr>en_reroute_events := en_reroute_events en + 1,
                        en_kv_flows := map (reroute_flow (pr_id pr) best remain (deadline_us req)) (en_kv_flows en)\<rparr>
                      else en),
                    pw_executor = Some ex'\<rparr>))"

fun drain_pending ::
  "lstm \<Rightarrow> graph_edge list option \<Rightarrow> real list \<Rightarrow> pending_reroute list \<Rightarrow> path_world \<Rightarrow>
   nat \<times> pending_reroute list \<times> path_world"
where
  "drain_pending lm g current [] w = (0, [], w)"
| "drain_pending lm g current (pr # prs) w =
     (let (fin, w1) = drain_one lm g current pr w;
          (n, still, w2) = drain_pending lm g current prs w1
      in if fin then (Suc n, still, w2) else (n, pr # still, w2))"

definition drain_boundary_reroutes ::
  "lstm \<Rightarrow> graph_edge list option \<Rightarrow> real list \<Rightarrow> path_world \<Rightarrow> nat \<times> path_world"
where
  "drain_boundary_reroutes lm g current w =
     (if pw_executor w = None \<or> en_pending (pw_engine w) = [] then (0, w)
      else
        let (n, still, w1) = drain_pending lm g current (en_pending (pw_engine w)) w
        in (n, w1\<lparr>pw_engine := (pw_engine w1)\<lparr>en_pending := still\<rparr>\<rparr>))"

section \<open>Scheduling\<close>

definition to_chunk_path :: "chunk_dispatch \<Rightarrow> chunk_path" where
  "to_chunk_path d = \<lparr>ck_seq = cd_seq d, ck_edges = cd_edges d, ck_size = cd_size d,
                      ck_offset = cd_offset d, ck_rail = cd_rail d\<rparr>"

definition schedule_and_execute ::
  "lstm \<Rightarrow> graph_edge list option \<Rightarrow> real \<Rightarrow> transfer_request \<Rightarrow> real list \<Rightarrow> submit_options \<Rightarrow>
   path_world \<Rightarrow> transfer_id \<times> path_world"
where
  "schedule_and_execute lm g now req utils opts w =
     (case pw_executor w of
        None \<Rightarrow> (0, w)
      | Some ex \<Rightarrow>
          if traffic req = KVMigration \<and> kKvChunkBytes < size_bytes req
          then
            let (ds, w1) = stripe_kv_migration lm req utils kKvChunkBytes w;
                (i, ex') = submit_striped g now req (map to_chunk_path ds) opts ex;
                src = vertex_of (pw_graph w1) (rq_source req);
                dst = vertex_of (pw_graph w1) (rq_dest req)
            in (i, w1\<lparr>pw_executor := Some ex',
                   pw_engine := register_kv_flow i src dst (size_bytes req) (deadline_us req)
                                  (concat (map cd_edges ds)) (pw_engine w1)\<rparr>)
          else
            let (path, w1) = select_path lm req utils w;
                (i, ex') = submit g now req path opts (the (pw_executor w1));
                src = vertex_of (pw_graph w1) (rq_source req);
                dst = vertex_of (pw_graph w1) (rq_dest req);
                w2 = w1\<lparr>pw_executor := Some ex'\<rparr>
            in (i, if traffic req = KVMigration
                   then w2\<lparr>pw_engine := register_kv_flow i src dst (size_bytes req)
                             (deadline_us req - pc_latency_us path) (edge_indices path) (pw_engine w2)\<rparr>
                   else w2))"

end
