(* ===== verification/Path_Props.thy ===== *)
theory Path_Props
  imports Path_Engine Executor_Data Executor_Props
begin

text \<open>
  Properties of the path engine: the admissible paths of a traffic class, the cost of a path against
  its cost at the current utilisation (for any predictor that never lowers it, interpreted on the
  LSTM predictor), the choice of a path, the partition of a striped migration, and that scheduling
  and rerouting keep the executor's invariant.
\<close>

section \<open>Flexibility sets\<close>

definition graph_ok :: "topology_graph \<Rightarrow> bool" where
  "graph_ok g \<longleftrightarrow> cache_ok g \<and> length (edges g) \<le> 2 ^ 32 \<and> costs_ok (edges g)"

lemma flexibility_graph [simp]:
  "edges (snd (flexibility_set g s d cls)) = edges g"
  "vertices (snd (flexibility_set g s d cls)) = vertices g"
  "default_k (snd (flexibility_set g s d cls)) = default_k g"
  "default_max_hops (snd (flexibility_set g s d cls)) = default_max_hops g"
  by (simp_all add: flexibility_set_def case_prod_unfold Let_def)

lemma flexibility_cache_ok: "cache_ok g \<Longrightarrow> cache_ok (snd (flexibility_set g s d cls))"
  by (simp add: flexibility_set_def case_prod_unfold Let_def paths_cache_ok)

lemma allowed_fabrics:
  "path_allowed es TensorParallel = (\<lambda>p. \<forall>e \<in> set p. fabric (attrs (es ! unat e)) \<in> {NVLink, InfiniBand})"
  "path_allowed es PipelineParallel = (\<lambda>p. True)"
  "path_allowed es KVMigration = (\<lambda>p. \<forall>e \<in> set p. fabric (attrs (es ! unat e)) \<noteq> PCIe)"
  by (auto simp: path_allowed_def list_all_iff fun_eq_iff)

lemma flexibility_paths:
  assumes "graph_ok g"
  shows "fst (flexibility_set g s d cls) =
    (let ys = yen_k_shortest (edges g) s d (default_k g) (default_max_hops g);
         zs = filter (path_allowed (edges g) cls) ys
     in if zs = [] \<and> cls = KVMigration then ys else zs)"
proof -
  have "fst (paths g s d) = yen_k_shortest (edges g) s d (default_k g) (default_max_hops g)"
    using assms by (simp add: graph_ok_def paths_result)
  then show ?thesis by (cases cls) (simp_all add: flexibility_set_def case_prod_unfold Let_def)
qed

text \<open>
  C17. The paths offered to a traffic class are, in order of weight, those of the \<open>k\<close> cheapest that the
  class may use: tensor parallel traffic keeps to NVLink and InfiniBand, pipeline parallel traffic may
  use them all, and KV migrations avoid PCIe unless every path crosses it, when all are offered.  Each
  is an admissible walk, and asking leaves the graph as it was with a coherent cache.
\<close>
theorem flexibility_set_sound:
  assumes "graph_ok g" and "flexibility_set g s d cls = (ps, g')"
    and all_paths: "ys = yen_k_shortest (edges g) s d (default_k g) (default_max_hops g)"
  shows "graph_ok g' \<and> edges g' = edges g \<and> vertices g' = vertices g \<and>
    (\<forall>p \<in> set ps. admissible (edges g) (unat (default_max_hops g)) s d p) \<and>
    ps = (case cls of
        TensorParallel \<Rightarrow> filter (\<lambda>p. \<forall>e \<in> set p. fabric (attrs (edges g ! unat e)) \<in> {NVLink, InfiniBand}) ys
      | PipelineParallel \<Rightarrow> ys
      | KVMigration \<Rightarrow>
          (if \<forall>p \<in> set ys. \<exists>e \<in> set p. fabric (attrs (edges g ! unat e)) = PCIe then ys
           else filter (\<lambda>p. \<forall>e \<in> set p. fabric (attrs (edges g ! unat e)) \<noteq> PCIe) ys))"
proof (intro conjI)
  have g': "g' = snd (flexibility_set g s d cls)" and ps: "ps = fst (flexibility_set g s d cls)"
    using assms(2) by simp_all
  show "graph_ok g'" using assms(1) flexibility_cache_ok by (simp add: g' graph_ok_def)
  show "edges g' = edges g" "vertices g' = vertices g" by (simp_all add: g')
  note ps' = flexibility_paths [OF assms(1), of s d cls, folded ps all_paths]
  then have "set ps \<subseteq> set ys" by (auto simp: Let_def)
  then show "\<forall>p \<in> set ps. admissible (edges g) (unat (default_max_hops g)) s d p"
    using yen_admissible assms(1) unfolding all_paths graph_ok_def by blast
  show "ps = (case cls of
        TensorParallel \<Rightarrow> filter (\<lambda>p. \<forall>e \<in> set p. fabric (attrs (edges g ! unat e)) \<in> {NVLink, InfiniBand}) ys
      | PipelineParallel \<Rightarrow> ys
      | KVMigration \<Rightarrow>
          (if \<forall>p \<in> set ys. \<exists>e \<in> set p. fabric (attrs (edges g ! unat e)) = PCIe then ys
           else filter (\<lambda>p. \<forall>e \<in> set p. fabric (attrs (edges g ! unat e)) \<noteq> PCIe) ys))"
    using ps' by (cases cls) (simp_all add: allowed_fabrics filter_empty_conv Let_def)
qed

text \<open>Two GPUs joined by NVLink and, through a host, by two PCIe edges.\<close>

definition pc_edge :: "u32 \<Rightarrow> u32 \<Rightarrow> graph_edge" where
  "pc_edge s d = \<lparr>src_vertex = s, dst_vertex = d, attrs = default_fabric_attrs PCIe (-1)\<rparr>"

definition small_graph :: topology_graph where
  "small_graph = \<lparr>vertices = [\<lparr>node_id = 0, local_id = 0, ep_type = GPU\<rparr>, \<lparr>node_id = 0, local_id = 1, ep_type = GPU\<rparr>,
       \<lparr>node_id = 0, local_id = 0, ep_type = CPU\<rparr>],
     edges = [nv_edge 0 1, pc_edge 0 2, pc_edge 2 1], path_cache = (\<lambda>k. None), default_k = 6, default_max_hops = 5\<rparr>"

lemma small_graph_ok: "graph_ok small_graph"
  by (simp add: graph_ok_def cache_ok_def small_graph_def costs_ok_def nv_edge_def pc_edge_def)

theorem flexibility_set_sound_witness:
  "\<exists>ps g' qs g''. flexibility_set small_graph 0 1 TensorParallel = (ps, g') \<and> ps = [[0]] \<and> graph_ok g' \<and>
     flexibility_set small_graph 0 2 KVMigration = (qs, g'') \<and> qs = [[1]]"
proof -
  obtain ps g' where f: "flexibility_set small_graph 0 1 TensorParallel = (ps, g')" by (rule prod.exhaust)
  obtain qs g'' where k: "flexibility_set small_graph 0 2 KVMigration = (qs, g'')" by (rule prod.exhaust)
  let ?yen = "\<lambda>d. yen_k_shortest (edges small_graph) 0 d (default_k small_graph) (default_max_hops small_graph)"
  have yen: "?yen 1 = [[0], [1, 2]]" "?yen 2 = [[1]]" by code_simp+
  have "ps = [[0]]" "graph_ok g'"
    using flexibility_set_sound [OF small_graph_ok f refl] unfolding yen
    by (auto simp: small_graph_def nv_edge_def pc_edge_def)
  moreover have "qs = [[1]]"
    using flexibility_set_sound [OF small_graph_ok k refl] unfolding yen
    by (auto simp: small_graph_def nv_edge_def pc_edge_def)
  ultimately show ?thesis using f k by blast
qed

section \<open>The cost of a path\<close>

text \<open>What the engine needs of a predictor: the effective utilisation is never below the current one.\<close>

locale utilisation_blend =
  fixes eff :: "u32 \<Rightarrow> real \<Rightarrow> real \<Rightarrow> real"
  assumes blend_ge: "u \<le> eff e u dur"
begin

lemma path_cost_ge:
  assumes "\<forall>e \<in> set p. attrs_ok (attrs (es ! unat e))"
  shows "path_cost_of (\<lambda>e u dur. u) es utils p n dur \<le> path_cost_of eff es utils p n dur"
  unfolding path_cost_of_def
  by (rule sum_list_mono) (use assms in \<open>auto intro!: edge_latency_mono blend_ge\<close>)

lemma path_cost_nonneg:
  assumes "\<forall>e \<in> set p. attrs_ok (attrs (es ! unat e))"
  shows "0 \<le> path_cost_of eff es utils p n dur"
  unfolding path_cost_of_def
  by (rule sum_list_nonneg) (use assms in \<open>auto intro: edge_latency_nonneg\<close>)

end

interpretation blend: utilisation_blend "effective_util lm" for lm
  by unfold_locales (simp add: effective_util_def Let_def)

text \<open>
  On any path whose edges have sound attributes the predicted cost is at least the sum of the
  edges' latencies at the current utilisation, which is at least the sum of their unloaded latencies:
  a prediction never makes a path look better than it is now.
\<close>
theorem path_cost_at_least_current:
  assumes "\<forall>e \<in> set p. attrs_ok (attrs (es ! unat e))"
  shows "(\<Sum>e \<leftarrow> p. latency_us (attrs (es ! unat e))) \<le> path_cost_of (\<lambda>e u dur. u) es utils p n dur \<and>
    path_cost_of (\<lambda>e u dur. u) es utils p n dur \<le> path_cost_of (effective_util lm) es utils p n dur"
proof -
  have "(\<Sum>e \<leftarrow> p. latency_us (attrs (es ! unat e))) \<le> path_cost_of (\<lambda>e u dur. u) es utils p n dur"
    unfolding path_cost_of_def by (rule sum_list_mono) (use assms in \<open>auto intro: edge_latency_ge_base\<close>)
  then show ?thesis using blend.path_cost_ge [OF assms] by simp
qed

theorem path_cost_at_least_current_witness:
  "8 \<le> path_cost_of (effective_util lstm_fresh) (edges small_graph) [0, 0.5, 0.9] [1, 2] 1000 2 + 2"
proof -
  have "\<forall>e \<in> set [1 :: u32, 2]. attrs_ok (attrs (edges small_graph ! unat e))"
    by (simp add: small_graph_def pc_edge_def)
  from path_cost_at_least_current [OF this, of "[0, 0.5, 0.9]" 1000 2 lstm_fresh]
  show ?thesis by (simp add: small_graph_def pc_edge_def default_fabric_attrs.simps)
qed

section \<open>Choosing the cheapest\<close>

lemma cheapest_le: "pc_latency_us (cheapest cost ps best) \<le> pc_latency_us best"
  by (induction cost ps best rule: cheapest.induct) (auto split: if_splits intro: order_trans)

lemma cheapest_least: "p \<in> set ps \<Longrightarrow> pc_latency_us (cheapest cost ps best) \<le> cost p"
proof (induction cost ps best rule: cheapest.induct)
  case (2 cost q ps best)
  have "pc_latency_us (cheapest cost ps (if cost q < pc_latency_us best
      then \<lparr>edge_indices = q, pc_latency_us = cost q\<rparr> else best)) \<le> cost q"
    using cheapest_le [of cost ps "\<lparr>edge_indices = q, pc_latency_us = cost q\<rparr>"]
      cheapest_le [of cost ps best] by auto
  with 2 show ?case by auto
qed simp

lemma cheapest_origin:
  "cheapest cost ps best = best \<or>
   edge_indices (cheapest cost ps best) \<in> set ps \<and>
   pc_latency_us (cheapest cost ps best) = cost (edge_indices (cheapest cost ps best))"
proof (induction cost ps best rule: cheapest.induct)
  case (2 cost p ps best)
  then show ?case by (cases "cost p < pc_latency_us best") fastforce+
qed simp

lemma preempt_graph [simp]: "pw_graph (snd (preempt_kv_migrations es r w)) = pw_graph w"
  by (simp add: preempt_kv_migrations_def case_prod_unfold Let_def split: option.split)

text \<open>
  C16. Selecting a path for a request whose endpoints exist answers the only candidate when there is
  one, \<open>no_path\<close> when there is none, and otherwise a candidate whose biased predicted cost is least of
  all (or \<open>no_path\<close> when every candidate costs as much as the largest double); the executor is touched
  only to preempt for a tensor parallel request that misses its deadline and had a choice of paths.
\<close>
theorem select_path_least:
  assumes "s = vertex_of (pw_graph w) (rq_source req)" and "s \<noteq> UINT32_MAX"
    and "d = vertex_of (pw_graph w) (rq_dest req)" and "d \<noteq> UINT32_MAX"
    and cands: "cands = fst (flexibility_set (pw_graph w) s d (traffic req))"
    and cost: "cost = candidate_cost lm (edges (pw_graph w)) utils req"
    and sel: "select_path lm req utils w = (best, w')"
  shows "(case cands of [] \<Rightarrow> best = no_path | [p] \<Rightarrow> edge_indices best = p
     | _ \<Rightarrow> (\<forall>p \<in> set cands. pc_latency_us best \<le> cost p) \<and>
            (best = no_path \<or> edge_indices best \<in> set cands \<and> pc_latency_us best = cost (edge_indices best))) \<and>
    (traffic req = TensorParallel \<and> 2 \<le> length cands \<and> deadline_us req < pc_latency_us best \<or>
       pw_executor w' = pw_executor w)"
proof -
  obtain g' where flex: "flexibility_set (pw_graph w) s d (traffic req) = (cands, g')"
    by (simp add: cands prod_eq_iff)
  have g': "edges g' = edges (pw_graph w)"
    using flexibility_graph(1) [of "pw_graph w" s d "traffic req"] by (simp add: flex)
  let ?best = "cheapest cost cands no_path"
  show ?thesis
  proof (cases cands)
    case Nil
    with sel assms(2,4) show ?thesis
      by (auto simp: select_path_def Let_def assms(1,3) [symmetric] flex)
  next
    case (Cons p ps)
    show ?thesis
    proof (cases ps)
      case Nil
      with Cons sel assms(2,4) show ?thesis
        by (auto simp: select_path_def Let_def assms(1,3) [symmetric] flex)
    next
      case (Cons q qs)
      with \<open>cands = p # ps\<close> sel assms(2,4) have "best = ?best"
        "traffic req = TensorParallel \<and> deadline_us req < pc_latency_us best \<or> pw_executor w' = pw_executor w"
        by (auto simp: select_path_def Let_def assms(1,3) [symmetric] flex g' cost split: if_splits)
      then show ?thesis
        using cheapest_least [of _ cands cost no_path] cheapest_origin [of cost cands no_path]
          Cons \<open>cands = p # ps\<close> by auto
    qed
  qed
qed

definition small_request :: transfer_request where
  "small_request = \<lparr>rq_source = \<lparr>node_id = 0, local_id = 0, ep_type = GPU\<rparr>,
     rq_dest = \<lparr>node_id = 0, local_id = 1, ep_type = GPU\<rparr>, size_bytes = 600000000,
     traffic = KVMigration, deadline_us = 100\<rparr>"

definition small_world :: path_world where
  "small_world = \<lparr>pw_graph = small_graph, pw_engine = engine_fresh, pw_executor = Some executor_fresh\<rparr>"

lemma small_vertices: "vertex_of small_graph (rq_source small_request) = 0"
  "vertex_of small_graph (rq_dest small_request) = 1"
  by (simp_all add: vertex_of_def small_graph_def small_request_def)

lemma small_candidates:
  "fst (flexibility_set small_graph 0 1 PipelineParallel) = [[0], [1, 2]]"
  "fst (flexibility_set small_graph 0 1 KVMigration) = [[0]]"
proof -
  have yen: "yen_k_shortest (edges small_graph) 0 1 (default_k small_graph) (default_max_hops small_graph) = [[0], [1, 2]]"
    by code_simp
  have "fst (paths small_graph 0 1) = [[0], [1, 2]]"
    using small_graph_ok paths_result [of small_graph 0 1] yen by (simp add: graph_ok_def)
  then show "fst (flexibility_set small_graph 0 1 PipelineParallel) = [[0], [1, 2]]"
    "fst (flexibility_set small_graph 0 1 KVMigration) = [[0]]"
    by (simp_all add: flexibility_set_def case_prod_unfold Let_def path_allowed_def)
      (simp_all add: small_graph_def nv_edge_def pc_edge_def default_fabric_attrs.simps)
qed

theorem select_path_least_witness:
  "\<exists>best w'. select_path lstm_fresh (small_request\<lparr>traffic := PipelineParallel\<rparr>) [0, 0, 0] small_world = (best, w') \<and>
     pc_latency_us best \<le> candidate_cost lstm_fresh (edges small_graph) [0, 0, 0]
       (small_request\<lparr>traffic := PipelineParallel\<rparr>) [1, 2] \<and> pw_executor w' = Some executor_fresh"
proof -
  let ?req = "small_request\<lparr>traffic := PipelineParallel\<rparr>"
  obtain best w' where sel: "select_path lstm_fresh ?req [0, 0, 0] small_world = (best, w')" by (rule prod.exhaust)
  have v: "vertex_of (pw_graph small_world) (rq_source ?req) = 0" "vertex_of (pw_graph small_world) (rq_dest ?req) = 1"
    using small_vertices by (simp_all add: small_world_def)
  have c: "fst (flexibility_set (pw_graph small_world) 0 1 (traffic ?req)) = [[0], [1, 2]]"
    using small_candidates by (simp add: small_world_def)
  from select_path_least [OF v(1) [symmetric] _ v(2) [symmetric] _ c [symmetric] refl sel] sel
  show ?thesis by (simp add: small_world_def UINT32_MAX_def)
qed

section \<open>Striping\<close>

lemma no_path_edges [simp]: "edge_indices no_path = []"
  by (simp add: no_path_def)

lemma cheapest_in:
  assumes "ps \<noteq> []" and "edge_indices best = []"
  shows "(if edge_indices (cheapest cost ps best) = [] then ps ! 0 else edge_indices (cheapest cost ps best)) \<in> set ps"
  using cheapest_origin [of cost ps best] assms by auto

lemma stripe_step_exact:
  assumes "(remaining :: u64) \<noteq> 0"
  shows "unat (remaining - min remaining chunk) = unat remaining - unat (min remaining chunk)"
    and "unat (min remaining chunk) \<le> unat remaining"
  by (auto simp: unat_minus_le min_def word_le_nat_alt)

text \<open>A list of dispatches that cuts \<open>remaining\<close> bytes from \<open>offset\<close> on into chunks.\<close>

definition cuts ::
  "graph_edge list \<Rightarrow> edge_path list \<Rightarrow> u64 \<Rightarrow> u64 \<Rightarrow> u32 \<Rightarrow> u64 \<Rightarrow> chunk_dispatch list \<Rightarrow> bool"
where
  "cuts es candidates chunk remaining seq offset ds \<longleftrightarrow>
    contiguous (unat offset) (map to_chunk_path ds) \<and>
    (\<Sum>d \<leftarrow> ds. unat (cd_size d)) = unat remaining \<and>
    map cd_seq ds = map (\<lambda>i. seq + of_nat i) [0..<length ds] \<and>
    (\<forall>d \<in> set ds. cd_size d \<noteq> 0 \<and> cd_size d \<le> chunk \<and> cd_edges d \<in> set candidates \<and>
       cd_rail d = path_rail_id es (cd_edges d)) \<and>
    (\<forall>d \<in> set (butlast ds). cd_size d = chunk) \<and> (ds = [] \<longleftrightarrow> remaining = 0)"

lemma stripe_loop_cuts:
  assumes "chunk \<noteq> 0" and "candidates \<noteq> []" and "unat offset + unat remaining < 2 ^ 64"
  shows "cuts es candidates chunk remaining seq offset
    (fst (stripe_loop lm es candidates current chunk dur remaining seq offset utils))"
  using assms
proof (induction lm es candidates current chunk dur remaining seq offset utils rule: stripe_loop.induct)
  case (1 lm es candidates current chunk dur remaining seq offset utils)
  show ?case
  proof (cases "remaining = 0")
    case True
    then show ?thesis by (simp add: stripe_loop.simps cuts_def)
  next
    case False
    define this_chunk where "this_chunk = min remaining chunk"
    define best0 where "best0 = cheapest (stripe_cost lm es utils current this_chunk dur seq) candidates no_path"
    define best where "best = (if edge_indices best0 = [] then \<lparr>edge_indices = candidates ! 0, pc_latency_us = 0\<rparr> else best0)"
    define d where "d = \<lparr>cd_seq = seq, cd_edges = edge_indices best, cd_size = this_chunk, cd_offset = offset,
        cd_rail = path_rail_id es (edge_indices best)\<rparr>"
    define ds where "ds = fst (stripe_loop lm es candidates current chunk dur (remaining - this_chunk)
        (seq + 1) (offset + this_chunk) (heat 0.05 (edge_indices best) utils))"
    have loop: "fst (stripe_loop lm es candidates current chunk dur remaining seq offset utils) = d # ds"
      using False "1.prems"(1)
      by (subst stripe_loop.simps)
        (simp add: d_def ds_def best_def best0_def this_chunk_def case_prod_unfold Let_def)
    have step: "unat (remaining - this_chunk) = unat remaining - unat this_chunk"
      "unat this_chunk \<le> unat remaining" "this_chunk \<noteq> 0" "this_chunk \<le> chunk"
      using stripe_step_exact [OF False] False "1.prems"(1) by (auto simp: this_chunk_def min_def)
    have off: "unat (offset + this_chunk) = unat offset + unat this_chunk"
      using "1.prems"(3) step(2) by (intro unat_add_exact) simp
    have guard: "\<not> (remaining = 0 \<or> chunk = 0)" using False "1.prems"(1) by simp
    have bound: "unat (offset + this_chunk) + unat (remaining - this_chunk) < 2 ^ 64"
      using "1.prems"(3) step(1,2) off by simp
    note ih = "1.IH" [OF guard this_chunk_def best0_def best_def d_def "1.prems"(1,2) bound,
        folded ds_def, unfolded cuts_def]
    have best_in: "edge_indices best \<in> set candidates"
      using cheapest_in [OF "1.prems"(2), of no_path "stripe_cost lm es utils current this_chunk dur seq"]
      by (auto simp: best_def best0_def [symmetric] no_path_edges split: if_splits)
    have last: "cd_size d = chunk" if "ds \<noteq> []"
    proof -
      have "remaining - this_chunk \<noteq> 0" using ih that by simp
      then show ?thesis by (auto simp: d_def this_chunk_def min_def)
    qed
    have seqs: "map cd_seq (d # ds) = map (\<lambda>i. seq + of_nat i) [0..<length (d # ds)]"
    proof -
      have "map (\<lambda>i. seq + of_nat i) [0..<Suc (length ds)] =
          seq # map (\<lambda>i. seq + 1 + of_nat i) [0..<length ds]"
        by (simp add: upt_conv_Cons map_Suc_upt [symmetric] add.assoc del: upt_Suc)
      then show ?thesis using ih by (simp add: d_def del: upt_Suc)
    qed
    show ?thesis
      unfolding loop cuts_def using False ih seqs last best_in step off
      by (auto simp: d_def to_chunk_path_def)
  qed
qed

lemma stripe_kv_cuts:
  assumes "cands = fst (flexibility_set (pw_graph w) (vertex_of (pw_graph w) (rq_source req))
      (vertex_of (pw_graph w) (rq_dest req)) (traffic req))" and "cands \<noteq> []"
  shows "cuts (edges (pw_graph w)) cands (if chunk = 0 then kKvChunkBytes else chunk) (size_bytes req) 0 0
    (fst (stripe_kv_migration lm req utils chunk w))"
proof -
  have "unat (0 :: u64) + unat (size_bytes req) < 2 ^ 64" using unat_u64_less [of "size_bytes req"] by simp
  from stripe_loop_cuts [OF _ assms(2) this] show ?thesis
    using assms by (simp add: stripe_kv_migration_def case_prod_unfold Let_def)
qed

text \<open>
  C13. Striping a request that has a path cuts it into chunks that follow one another without gap or
  overlap and add up to the request, numbered from 0, none empty, all of the chunk size but the last,
  which is no larger; each chunk goes over one of the paths open to its traffic class and is labelled
  with that path's rail.
\<close>
theorem striping_partitions:
  assumes "cands = fst (flexibility_set (pw_graph w) (vertex_of (pw_graph w) (rq_source req))
      (vertex_of (pw_graph w) (rq_dest req)) (traffic req))" and "cands \<noteq> []" and "chunk \<noteq> 0"
    and "stripe_kv_migration lm req utils chunk w = (ds, w')"
  shows "contiguous 0 (map to_chunk_path ds) \<and> chunks_cover req (map to_chunk_path ds) \<and>
    map cd_seq ds = map of_nat [0..<length ds] \<and>
    (\<forall>d \<in> set ds. cd_size d \<noteq> 0 \<and> cd_size d \<le> chunk \<and> cd_edges d \<in> set cands \<and>
       cd_rail d = path_rail_id (edges (pw_graph w)) (cd_edges d)) \<and>
    (\<forall>d \<in> set (butlast ds). cd_size d = chunk) \<and> (ds = [] \<longleftrightarrow> size_bytes req = 0)"
  using stripe_kv_cuts [OF assms(1,2), of chunk lm utils] assms(3,4)
  by (simp add: cuts_def chunks_cover_def to_chunk_path_def comp_def)

theorem striping_partitions_witness:
  "\<exists>ds w'. stripe_kv_migration lstm_fresh small_request [0, 0, 0] kKvChunkBytes small_world = (ds, w') \<and>
     chunks_cover small_request (map to_chunk_path ds) \<and> ds \<noteq> []"
proof -
  obtain ds w' where run: "stripe_kv_migration lstm_fresh small_request [0, 0, 0] kKvChunkBytes small_world = (ds, w')"
    by (rule prod.exhaust)
  have c: "[[0]] = fst (flexibility_set (pw_graph small_world) (vertex_of (pw_graph small_world) (rq_source small_request))
      (vertex_of (pw_graph small_world) (rq_dest small_request)) (traffic small_request))"
    using small_candidates(2) by (simp add: small_world_def small_vertices) (simp add: small_request_def)
  from striping_partitions [OF c _ kKvChunkBytes_nonzero run] run
  show ?thesis by (simp add: small_request_def)
qed

section \<open>The engine and the executor's invariant\<close>

definition world_ok :: "path_world \<Rightarrow> bool" where
  "world_ok w \<longleftrightarrow> (case pw_executor w of None \<Rightarrow> True | Some ex \<Rightarrow> exec_inv ex)"

lemma world_ok_fields [simp]:
  "world_ok (w\<lparr>pw_engine := e\<rparr>) = world_ok w" "world_ok (w\<lparr>pw_graph := g\<rparr>) = world_ok w"
  "world_ok (w\<lparr>pw_executor := Some ex\<rparr>) = exec_inv ex"
  by (simp_all add: world_ok_def)

lemma preempt_world [wf_intros]: "world_ok w \<Longrightarrow> world_ok (snd (preempt_kv_migrations es r w))"
  using preempt_inv [of "the (pw_executor w)" es 8]
  by (auto simp: preempt_kv_migrations_def world_ok_def case_prod_unfold Let_def split: option.split)

lemma preempt_executor: "pw_executor (snd (preempt_kv_migrations es r w)) = None \<longleftrightarrow> pw_executor w = None"
  by (auto simp: preempt_kv_migrations_def case_prod_unfold Let_def split: option.split)

lemma select_world [wf_intros]: "world_ok w \<Longrightarrow> world_ok (snd (select_path lm req utils w))"
  by (auto simp: select_path_def case_prod_unfold Let_def preempt_world split: list.split)

lemma select_executor: "pw_executor (snd (select_path lm req utils w)) = None \<longleftrightarrow> pw_executor w = None"
  by (auto simp: select_path_def case_prod_unfold Let_def preempt_executor split: list.split)

lemma stripe_executor [simp]: "pw_executor (snd (stripe_kv_migration lm req utils chunk w)) = pw_executor w"
  by (auto simp: stripe_kv_migration_def case_prod_unfold Let_def)

lemma stripe_none:
  "fst (flexibility_set (pw_graph w) (vertex_of (pw_graph w) (rq_source req))
      (vertex_of (pw_graph w) (rq_dest req)) (traffic req)) = [] \<Longrightarrow>
   fst (stripe_kv_migration lm req utils chunk w) = []"
  by (simp add: stripe_kv_migration_def case_prod_unfold Let_def)

lemma striped_chunks:
  defines "cs lm req utils w \<equiv> map to_chunk_path (fst (stripe_kv_migration lm req utils kKvChunkBytes w))"
  shows "cs lm req utils w = [] \<or> contiguous 0 (cs lm req utils w) \<and> chunks_cover req (cs lm req utils w)"
proof (cases "fst (flexibility_set (pw_graph w) (vertex_of (pw_graph w) (rq_source req))
      (vertex_of (pw_graph w) (rq_dest req)) (traffic req)) = []")
  case True
  then show ?thesis by (simp add: cs_def stripe_none)
next
  case False
  from stripe_kv_cuts [OF refl this, of kKvChunkBytes lm utils] show ?thesis
    by (simp add: cs_def cuts_def chunks_cover_def to_chunk_path_def comp_def)
qed

lemma submit_chunks_inv:
  assumes "exec_inv ex" and "cs = [] \<or> chunks_cover req cs"
  shows "exec_inv (snd (submit_striped g now req cs opts ex))"
proof (cases "cs = []")
  case True
  then show ?thesis using submit_inv [OF assms(1)] by (simp add: submit_striped_def)
qed (use assms submit_striped_inv in blast)

lemma schedule_world [wf_intros]:
  assumes "world_ok w"
  shows "world_ok (snd (schedule_and_execute lm g now req utils opts w))"
proof (cases "pw_executor w")
  case None
  then show ?thesis using assms by (simp add: schedule_and_execute_def)
next
  case (Some ex)
  then have ex: "exec_inv ex" using assms by (simp add: world_ok_def)
  have "exec_inv (the (pw_executor (snd (select_path lm req utils w))))"
    using select_world [OF assms, of lm req utils] select_executor [of lm req utils w] Some
    by (auto simp: world_ok_def)
  then show ?thesis
    using submit_chunks_inv [OF ex] striped_chunks [of lm req utils w] submit_inv Some
    by (auto simp: schedule_and_execute_def case_prod_unfold Let_def)
qed

lemma drain_one_world [wf_intros]: "world_ok w \<Longrightarrow> world_ok (snd (drain_one lm g cur pr w))"
  using reroute_exec_inv [of "the (pw_executor w)" g]
  by (auto simp: drain_one_def world_ok_def case_prod_unfold Let_def split: option.split)

lemma drain_pending_world: "world_ok w \<Longrightarrow> world_ok (snd (snd (drain_pending lm g cur prs w)))"
  by (induction prs arbitrary: w) (simp_all add: case_prod_unfold Let_def drain_one_world)

lemma drain_world [wf_intros]: "world_ok w \<Longrightarrow> world_ok (snd (drain_boundary_reroutes lm g cur w))"
  by (auto simp: drain_boundary_reroutes_def case_prod_unfold Let_def drain_pending_world)

text \<open>
  Everything the engine does to the executor, scheduling any request, with or without a path, over
  any number of chunks, preempting and rerouting after a suspension, keeps the executor's invariant:
  bytes accounted for, one chunk per rail, states in agreement.
\<close>
theorem engine_keeps_executor_invariant:
  assumes "world_ok w"
  shows "world_ok (snd (schedule_and_execute lm g now req utils opts w)) \<and>
    world_ok (snd (drain_boundary_reroutes lm g utils w)) \<and>
    world_ok (snd (preempt_kv_migrations es do_reroute w)) \<and>
    world_ok (snd (select_path lm req utils w))"
  using assms by (intro conjI wf_intros)

theorem engine_keeps_executor_invariant_witness:
  "world_ok (snd (schedule_and_execute lstm_fresh None 0 small_request [0.5, 0.1] no_buffers small_world))"
proof -
  have "world_ok small_world" by (simp add: world_ok_def small_world_def executor_fresh_inv)
  from engine_keeps_executor_invariant [OF this] show ?thesis by simp
qed

section \<open>What is scheduled\<close>

text \<open>A transfer has one chunk, or no more than are needed at 256 MiB each.\<close>

definition chunk_limit :: "u64 \<Rightarrow> nat" where
  "chunk_limit n = max 1 ((unat n + (unat kKvChunkBytes - 1)) div unat kKvChunkBytes)"

lemma cuts_length:
  assumes "cuts es cands chunk n seq off ds" and "chunk \<noteq> 0"
  shows "length ds \<le> (unat n + (unat chunk - 1)) div unat chunk"
proof (cases ds rule: rev_cases)
  case (snoc ds' d)
  have pos: "0 < unat chunk" "0 < unat (cd_size d)"
    using assms by (auto simp: cuts_def snoc unat_gt_0)
  have "(\<Sum>d \<leftarrow> ds'. unat (cd_size d)) = (\<Sum>d \<leftarrow> ds'. unat chunk)"
    using assms(1) by (intro arg_cong [where f = sum_list] map_cong) (auto simp: cuts_def snoc butlast_append)
  then have "unat n = length ds' * unat chunk + unat (cd_size d)"
    using assms(1) by (simp add: cuts_def snoc sum_list_triv)
  then have "length ds * unat chunk \<le> unat n + (unat chunk - 1)" using pos by (simp add: snoc)
  then show ?thesis using pos by (simp add: less_eq_div_iff_mult_less_eq)
qed simp

lemma stripe_limit:
  "length (fst (stripe_kv_migration lm req utils kKvChunkBytes w)) \<le> chunk_limit (size_bytes req)"
proof (cases "fst (flexibility_set (pw_graph w) (vertex_of (pw_graph w) (rq_source req))
      (vertex_of (pw_graph w) (rq_dest req)) (traffic req)) = []")
  case True
  then show ?thesis by (simp add: stripe_none)
next
  case False
  from cuts_length [OF stripe_kv_cuts [OF refl this, of kKvChunkBytes lm utils]] show ?thesis
    by (simp add: chunk_limit_def)
qed

lemma schedule_layout:
  assumes "pw_executor w = Some ex" and "buffers_sound opts (size_bytes req)"
    and "schedule_and_execute lm g now req utils opts w = (i, w')"
  shows "\<exists>ex' tp. pw_executor w' = Some ex' \<and> map_of (ex_transfers ex') i = Some tp \<and>
    tp_state tp = InFlight \<and> tp_bytes_sent tp = 0 \<and> tp_bytes_total tp = size_bytes req \<and>
    tp_src_buf tp = so_src_buf opts \<and> tp_dst_buf tp = so_dst_buf opts \<and> layout_ok tp \<and>
    length (tp_chunks tp) \<le> chunk_limit (size_bytes req)"
proof -
  let ?Q = "\<lambda>tp. tp_state tp = InFlight \<and> tp_bytes_sent tp = 0 \<and> tp_bytes_total tp = size_bytes req \<and>
    tp_src_buf tp = so_src_buf opts \<and> tp_dst_buf tp = so_dst_buf opts \<and> layout_ok tp \<and>
    length (tp_chunks tp) \<le> chunk_limit (size_bytes req)"
  have plain: "\<exists>tp. map_of (ex_transfers (snd (submit g now req path opts e))) (fst (submit g now req path opts e)) = Some tp \<and>
      ?Q tp"
    for path e
    using submit_layout [OF assms(2), of g now path e] by (fastforce simp: chunk_limit_def)
  show ?thesis
  proof (cases "traffic req = KVMigration \<and> kKvChunkBytes < size_bytes req")
    case True
    define cs where "cs = map to_chunk_path (fst (stripe_kv_migration lm req utils kKvChunkBytes w))"
    have "\<exists>tp. map_of (ex_transfers (snd (submit_striped g now req cs opts ex))) (fst (submit_striped g now req cs opts ex)) = Some tp \<and>
      ?Q tp"
    proof (cases "cs = []")
      case True
      then show ?thesis using plain by (simp add: submit_striped_def)
    next
      case False
      with striped_chunks [of lm req utils w] have "contiguous 0 cs" "chunks_cover req cs"
        by (auto simp: cs_def)
      from striped_submission_layout [OF False this assms(2), of g now ex] stripe_limit [of lm req utils w]
      show ?thesis by (fastforce simp: cs_def)
    qed
    with True assms(1,3) show ?thesis
      by (auto simp: schedule_and_execute_def cs_def [symmetric] case_prod_unfold Let_def)
  next
    case False
    with assms(1,3) plain show ?thesis
      by (auto simp: schedule_and_execute_def case_prod_unfold Let_def split: if_splits)
  qed
qed

text \<open>
  C14. Scheduling over a sound executor any request with sound buffers enters a transfer under the id it
  answers that is in flight between the buffers of the request, in this direction, has sent nothing,
  and whose chunks lie within the buffers and hold every byte of the request.  It is delivered: after
  any steps of the executor in which no other transfer writes to the buffers, on a ready transport,
  once it is completed its destination buffer holds what the source buffer held at the start.
\<close>
theorem schedule_enters_sound_transfer:
  assumes "pw_executor w = Some ex" and "world_ok w" and "buffers_sound opts (size_bytes req)"
    and "schedule_and_execute lm g now req utils opts w = (i, w')"
  shows "\<exists>ex' tp. pw_executor w' = Some ex' \<and> map_of (ex_transfers ex') i = Some tp \<and>
    tp_state tp = InFlight \<and> tp_bytes_sent tp = 0 \<and> tp_bytes_total tp = size_bytes req \<and>
    tp_src_buf tp = so_src_buf opts \<and> tp_dst_buf tp = so_dst_buf opts \<and> layout_ok tp \<and>
    (\<forall>wire k c' tp' x. ib_ready (fst wire) \<longrightarrow> (isolated_step g' cb i tp)\<^sup>*\<^sup>* (ex', wire, k) c' \<longrightarrow>
       map_of (ex_transfers (fst c')) i = Some tp' \<longrightarrow> tp_state tp' = Completed \<longrightarrow> x < unat (size_bytes req) \<longrightarrow>
       snd (fst (snd c')) (so_dst_buf opts + of_nat x) = snd wire (so_src_buf opts + of_nat x))"
proof -
  obtain ex' tp where ex': "pw_executor w' = Some ex'" and tp: "map_of (ex_transfers ex') i = Some tp"
    and new: "tp_state tp = InFlight" "tp_bytes_sent tp = 0" "tp_bytes_total tp = size_bytes req"
      "tp_src_buf tp = so_src_buf opts" "tp_dst_buf tp = so_dst_buf opts" "layout_ok tp"
    using schedule_layout [OF assms(1,3,4)] by blast
  have inv: "exec_inv ex'"
    using schedule_world [OF assms(2), of lm g now req utils opts] by (simp add: assms(4) world_ok_def ex')
  have "snd (fst (snd c')) (so_dst_buf opts + of_nat x) = snd wire (so_src_buf opts + of_nat x)"
    if "ib_ready (fst wire)" "(isolated_step g' cb i tp)\<^sup>*\<^sup>* (ex', wire, k) c'"
      "map_of (ex_transfers (fst c')) i = Some tp'" "tp_state tp' = Completed" "x < unat (size_bytes req)"
    for wire k c' tp' x
  proof -
    have "on_its_way (snd wire) i tp (ex', wire, k)" by (rule fresh_on_its_way [OF inv that(1) tp new(6,2)])
    from on_its_way_completed [OF on_its_way_run [OF that(2) this] that(3,4), of x] that(5) show ?thesis
      by (simp add: new)
  qed
  with ex' tp new show ?thesis by blast
qed

lemma select_kv_executor:
  "traffic req = KVMigration \<Longrightarrow> pw_executor (snd (select_path lm req utils w)) = pw_executor w"
  by (auto simp: select_path_def case_prod_unfold Let_def split: list.split)

theorem schedule_enters_sound_transfer_witness:
  "\<exists>i w' ex' ids ex'' wire'' k''.
     schedule_and_execute lstm_fresh None 0 (small_request\<lparr>size_bytes := 8\<rparr>) [] copy_buffers small_world = (i, w') \<and>
     pw_executor w' = Some ex' \<and> ib_tick None None 1 [] (\<lambda>i. 0) ex'
       (ibverbs_fresh\<lparr>ib_ready := True\<rparr>, (\<lambda>a. 0)(21 := 9)) () = (ids, ex'', wire'', k'') \<and>
     tp_state (get_transfer i ex'') = Completed \<and> snd wire'' 69 = 9"
proof -
  let ?req = "small_request\<lparr>size_bytes := 8\<rparr>" and ?wire = "(ibverbs_fresh\<lparr>ib_ready := True\<rparr>, (\<lambda>a. 0)(21 := 9)) :: wire"
  obtain i w' where run: "schedule_and_execute lstm_fresh None 0 ?req [] copy_buffers small_world = (i, w')"
    by (rule prod.exhaust)
  have ok: "pw_executor small_world = Some executor_fresh" "world_ok small_world"
    by (simp_all add: small_world_def world_ok_def executor_fresh_inv)
  have "buffers_sound copy_buffers (size_bytes ?req)" using copy_ok(3) by (simp add: copy_request_def)
  from schedule_enters_sound_transfer [OF ok this run, of None "None :: unit completion_fn"]
  obtain ex' tp where ex': "pw_executor w' = Some ex'" and tp: "map_of (ex_transfers ex') i = Some tp"
    and deliver: "\<And>wire k c' tp' x. ib_ready (fst wire) \<Longrightarrow> (isolated_step None (None :: unit completion_fn) i tp)\<^sup>*\<^sup>* (ex', wire, k) c' \<Longrightarrow>
      map_of (ex_transfers (fst c')) i = Some tp' \<Longrightarrow> tp_state tp' = Completed \<Longrightarrow> x < unat (size_bytes ?req) \<Longrightarrow>
      snd (fst (snd c')) (so_dst_buf copy_buffers + of_nat x) = snd wire (so_src_buf copy_buffers + of_nat x)"
    by blast
  obtain path where sub: "submit None 0 ?req path copy_buffers executor_fresh = (i, ex')"
    using run ex' ok(1) select_kv_executor [of ?req lstm_fresh "[]" small_world]
    by (auto simp: schedule_and_execute_def case_prod_unfold Let_def small_request_def kKvChunkBytes_def)
  obtain ids ex'' wire'' k'' where tick: "ib_tick None None 1 [] (\<lambda>i. 0) ex' ?wire () = (ids, ex'', wire'', k'')"
    by (rule prod_cases4)
  let ?tp = "ticked None 1 [] 0 tp"
  have look: "map_of (ex_transfers ex'') i = Some ?tp"
    using ib_tick_transfers [of None None 1 "[]" "\<lambda>i. 0" ex' ?wire "()"] tick tp by (simp add: lookup_mapped)
  have fin: "tp_state ?tp = Completed"
    using sub tp by (auto simp: submit_def executor_fresh_def Let_def ticked_def is_active_def default_progress_def
        settle_chunks_def rail_slot_def kIbRailCount_def advanced_def chunk_step_def bytes_for_dt_def
        bottleneck_gbps_def u64_of_real_def concluded_def refresh_aggregate_def)
  have "exec_step None None (ex', ?wire, ()) (ex'', wire'', k'')"
    using step_tick [of None None ex' ?wire "()" 1 "[]" "\<lambda>i. 0"] by (simp only: tick snd_conv)
  then have "(isolated_step None None i tp)\<^sup>*\<^sup>* (ex', ?wire, ()) (ex'', wire'', k'')"
    using sub by (intro r_into_rtranclp isolated_step.intros)
      (auto simp: submit_def executor_fresh_def isolated_def Let_def)
  from deliver [OF _ this _ fin, of 5] look have "snd wire'' 69 = 9" by (simp add: copy_buffers_def)
  moreover have "tp_state (get_transfer i ex'') = Completed" using look fin by (simp add: get_transfer_def)
  ultimately show ?thesis using run ex' tick by blast
qed

text \<open>A walk from or to a vertex that no edge touches is empty.\<close>

lemma walk_untouched:
  assumes "walk es u p v" and "u = n \<or> v = n" and "\<forall>e \<in> set es. src_vertex e \<noteq> n \<and> dst_vertex e \<noteq> n"
  shows "p = []"
  using assms(1,2)
proof (induction p arbitrary: u)
  case (Cons e p)
  then have "es ! unat e \<in> set es" by simp
  with Cons assms(3) show ?case by (cases p) auto
qed simp

lemma unroutable_candidates:
  assumes "graph_ok g" and "\<forall>e \<in> set (edges g). src_vertex e \<noteq> UINT32_MAX \<and> dst_vertex e \<noteq> UINT32_MAX"
    and "s = UINT32_MAX \<or> d = UINT32_MAX \<or> fst (flexibility_set g s d cls) = []"
    and p: "p \<in> set (fst (flexibility_set g s d cls))"
  shows "p = []"
proof -
  have "p \<in> set (yen_k_shortest (edges g) s d (default_k g) (default_max_hops g))"
    using p by (auto simp: flexibility_paths [OF assms(1)] Let_def split: if_splits)
  then have "walk (edges g) s p d"
    using yen_admissible assms(1) unfolding graph_ok_def partial_path_def by blast
  then show ?thesis using walk_untouched [OF _ _ assms(2)] assms(3) p by auto
qed

lemma no_edges_added: "\<forall>c \<in> set cs. ck_edges c = [] \<Longrightarrow> fold (\<lambda>c acc. add_edges acc (ck_edges c)) cs es = es"
  by (induction cs) (simp_all add: add_edges_def)

lemma striped_pathless:
  assumes "\<forall>c \<in> set cs. ck_edges c = []"
  shows "\<exists>ex' tp. submit_striped g now req cs opts ex = (ex_next_id ex, ex') \<and>
    map_of (ex_transfers ex') (ex_next_id ex) = Some tp \<and> tp_state tp = InFlight \<and> tp_bytes_sent tp = 0 \<and>
    tp_bytes_total tp = size_bytes req \<and> tp_path_edges tp = []"
proof (cases cs)
  case (Cons c cs')
  then show ?thesis
    using no_edges_added [OF assms, of "[]"] by (simp add: submit_striped_def update_conv' default_progress_def Let_def)
qed (simp add: submit_striped_def submit_def update_conv' default_progress_def Let_def)

text \<open>
  C33. A request without a path is scheduled all the same, whatever its size and class: when its source
  or its destination is not a vertex of the graph, or no path is open to its class, path selection
  answers that there is none, but the request is entered for all its bytes over the empty path and the
  id of a transfer in flight is returned, which a tick runs at one gigabyte per second.
\<close>
theorem unroutable_request_is_submitted:
  assumes "pw_executor w = Some ex" and "graph_ok (pw_graph w)"
    and "\<forall>e \<in> set (edges (pw_graph w)). src_vertex e \<noteq> UINT32_MAX \<and> dst_vertex e \<noteq> UINT32_MAX"
    and "s = vertex_of (pw_graph w) (rq_source req)" and "d = vertex_of (pw_graph w) (rq_dest req)"
    and "s = UINT32_MAX \<or> d = UINT32_MAX \<or> fst (flexibility_set (pw_graph w) s d (traffic req)) = []"
  shows "fst (select_path lm req utils w) = no_path \<and>
    (\<exists>w' ex' tp. schedule_and_execute lm g now req utils opts w = (ex_next_id ex, w') \<and>
       pw_executor w' = Some ex' \<and> map_of (ex_transfers ex') (ex_next_id ex) = Some tp \<and>
       tp_state tp = InFlight \<and> tp_bytes_sent tp = 0 \<and> tp_bytes_total tp = size_bytes req \<and>
       tp_path_edges tp = [] \<and> bottleneck_gbps g (tp_path_edges tp) utils = 1)"
proof -
  let ?cands = "fst (flexibility_set (pw_graph w) s d (traffic req))"
  have sel: "fst (select_path lm req utils w) = no_path" "pw_executor (snd (select_path lm req utils w)) = Some ex"
    using assms(1,4-6) by (auto simp: select_path_def case_prod_unfold Let_def)
  have rate: "bottleneck_gbps g [] utils = 1" by (simp add: bottleneck_gbps_def split: option.split)
  have ds: "cd_edges e = []" if "e \<in> set (fst (stripe_kv_migration lm req utils kKvChunkBytes w))" for e
  proof (cases "?cands = []")
    case True
    then show ?thesis using that stripe_none [of w req lm utils kKvChunkBytes] by (simp add: assms(4,5))
  next
    case False
    then have "cd_edges e \<in> set ?cands"
      using stripe_kv_cuts [OF refl, of w req kKvChunkBytes lm utils] that
      by (simp add: assms(4,5) cuts_def)
    then show ?thesis by (rule unroutable_candidates [OF assms(2,3,6)])
  qed
  show ?thesis
  proof (cases "traffic req = KVMigration \<and> kKvChunkBytes < size_bytes req")
    case True
    have "\<forall>c \<in> set (map to_chunk_path (fst (stripe_kv_migration lm req utils kKvChunkBytes w))). ck_edges c = []"
      using ds by (auto simp: to_chunk_path_def)
    from striped_pathless [OF this, of g now req opts ex] True assms(1) sel(1) rate show ?thesis
      by (auto simp: schedule_and_execute_def case_prod_unfold Let_def)
  next
    case False
    have "edge_indices no_path = []" by (rule no_path_edges)
    with False assms(1) sel rate show ?thesis
      by (auto simp: schedule_and_execute_def submit_def update_conv' default_progress_def case_prod_unfold Let_def)
  qed
qed

theorem unroutable_request_is_submitted_witness:
  "\<exists>w' w''. schedule_and_execute lstm_fresh None 0 default_request [] no_buffers
       (small_world\<lparr>pw_graph := empty_graph\<rparr>) = (1, w') \<and>
     schedule_and_execute lstm_fresh None 0 (small_request\<lparr>rq_dest := rq_source small_request\<lparr>local_id := 7\<rparr>\<rparr>) []
       no_buffers small_world = (1, w'')"
proof -
  have i: "ex_next_id executor_fresh = 1" by (simp add: executor_fresh_def)
  let ?w = "small_world\<lparr>pw_graph := empty_graph\<rparr>"
  have w: "pw_executor ?w = Some executor_fresh" "pw_executor small_world = Some executor_fresh"
    by (simp_all add: small_world_def)
  have g: "graph_ok (pw_graph ?w)" "graph_ok (pw_graph small_world)" using small_graph_ok
    by (simp_all add: small_world_def) (simp add: graph_ok_def cache_ok_def empty_graph_def costs_ok_def)
  have e: "\<forall>e \<in> set (edges (pw_graph ?w)). src_vertex e \<noteq> UINT32_MAX \<and> dst_vertex e \<noteq> UINT32_MAX"
    "\<forall>e \<in> set (edges (pw_graph small_world)). src_vertex e \<noteq> UINT32_MAX \<and> dst_vertex e \<noteq> UINT32_MAX"
    by (simp_all add: empty_graph_def small_world_def small_graph_def nv_edge_def pc_edge_def UINT32_MAX_def)
  have v: "vertex_of (pw_graph ?w) (rq_source default_request) = UINT32_MAX"
    by (simp add: vertex_of_def empty_graph_def)
  let ?req = "small_request\<lparr>rq_dest := rq_source small_request\<lparr>local_id := 7\<rparr>\<rparr>"
  have v': "vertex_of (pw_graph small_world) (rq_dest ?req) = UINT32_MAX"
    by (simp add: vertex_of_def small_world_def small_graph_def small_request_def)
  show ?thesis
    using unroutable_request_is_submitted [OF w(1) g(1) e(1) refl refl disjI1 [OF v], unfolded i]
      unroutable_request_is_submitted [OF w(2) g(2) e(2) refl refl disjI2 [OF disjI1 [OF v']], unfolded i] by blast
qed

section \<open>Reroutes after a suspension\<close>

definition rerouted_once :: "graph_edge list option \<Rightarrow> transfer_progress \<Rightarrow> transfer_progress \<Rightarrow> bool" where
  "rerouted_once g tp tp' \<longleftrightarrow> tp' = tp \<or>
     tp_state tp = Paused \<and> (\<exists>path. edge_indices path \<noteq> [] \<and> tp' = reroute_transfer g path tp)"

lemma rerouted_once_trans: "rerouted_once g a b \<Longrightarrow> rerouted_once g b c \<Longrightarrow> rerouted_once g a c"
  by (auto simp: rerouted_once_def)

lemma drain_one_executor:
  assumes "pw_executor w = Some ex"
  shows "\<exists>ex'. pw_executor (snd (drain_one lm g cur pr w)) = Some ex' \<and>
    (\<forall>i tp. map_of (ex_transfers ex) i = Some tp \<longrightarrow>
       (\<exists>tp'. map_of (ex_transfers ex') i = Some tp' \<and> rerouted_once g tp tp' \<and> (i \<noteq> pr_id pr \<longrightarrow> tp' = tp)))"
proof -
  have keep: "rerouted_once g tp tp" for tp by (simp add: rerouted_once_def)
  show ?thesis
    using assms keep
    by (auto simp: drain_one_def reroute_def get_transfer_def rerouted_once_def default_progress_def
        case_prod_unfold Let_def split: option.splits)
qed

lemma drain_pending_executor:
  assumes "pw_executor w = Some ex"
  shows "\<exists>ex'. pw_executor (snd (snd (drain_pending lm g cur prs w))) = Some ex' \<and>
    (\<forall>i tp. map_of (ex_transfers ex) i = Some tp \<longrightarrow>
       (\<exists>tp'. map_of (ex_transfers ex') i = Some tp' \<and> rerouted_once g tp tp' \<and>
          (i \<notin> pr_id ` set prs \<longrightarrow> tp' = tp)))"
  using assms
proof (induction prs arbitrary: w ex)
  case Nil
  then show ?case by (auto simp: rerouted_once_def)
next
  case (Cons pr prs)
  obtain ex1 where ex1: "pw_executor (snd (drain_one lm g cur pr w)) = Some ex1"
    "\<forall>i tp. map_of (ex_transfers ex) i = Some tp \<longrightarrow>
       (\<exists>tp'. map_of (ex_transfers ex1) i = Some tp' \<and> rerouted_once g tp tp' \<and> (i \<noteq> pr_id pr \<longrightarrow> tp' = tp))"
    using drain_one_executor [OF Cons.prems] by blast
  obtain ex2 where ex2: "pw_executor (snd (snd (drain_pending lm g cur prs (snd (drain_one lm g cur pr w))))) = Some ex2"
    "\<forall>i tp. map_of (ex_transfers ex1) i = Some tp \<longrightarrow>
       (\<exists>tp'. map_of (ex_transfers ex2) i = Some tp' \<and> rerouted_once g tp tp' \<and>
          (i \<notin> pr_id ` set prs \<longrightarrow> tp' = tp))"
    using Cons.IH [OF ex1(1)] by blast
  have "\<exists>tp'. map_of (ex_transfers ex2) i = Some tp' \<and> rerouted_once g tp tp' \<and>
      (i \<notin> pr_id ` set (pr # prs) \<longrightarrow> tp' = tp)" if tp: "map_of (ex_transfers ex) i = Some tp" for i tp
  proof -
    obtain tp1 where 1: "map_of (ex_transfers ex1) i = Some tp1" "rerouted_once g tp tp1"
      "i \<noteq> pr_id pr \<longrightarrow> tp1 = tp" using ex1(2) tp by blast
    obtain tp2 where 2: "map_of (ex_transfers ex2) i = Some tp2" "rerouted_once g tp1 tp2"
      "i \<notin> pr_id ` set prs \<longrightarrow> tp2 = tp1" using ex2(2) 1(1) by blast
    show ?thesis using 1 2 rerouted_once_trans [OF 1(2) 2(2)] by (intro exI [of _ tp2]) auto
  qed
  with ex2(1) show ?case by (simp add: case_prod_unfold Let_def)
qed

lemma drain_pending_still:
  "fst (drain_pending lm g cur prs w) + length (fst (snd (drain_pending lm g cur prs w))) = length prs \<and>
   set (fst (snd (drain_pending lm g cur prs w))) \<subseteq> set prs"
proof (induction prs arbitrary: w)
  case (Cons pr prs)
  from Cons.IH [of "snd (drain_one lm g cur pr w)"] show ?case
    by (auto simp: case_prod_unfold Let_def)
qed simp

lemma drain_lookup:
  assumes "pw_executor w = Some ex" and "drain_boundary_reroutes lm g cur w = (n, w')"
    and "map_of (ex_transfers ex) i = Some tp" and "i \<notin> pr_id ` set (en_pending (pw_engine w))"
  shows "map_of (ex_transfers (the (pw_executor w'))) i = Some tp"
proof -
  obtain ex' where "pw_executor (snd (snd (drain_pending lm g cur (en_pending (pw_engine w)) w))) = Some ex'"
    "map_of (ex_transfers ex') i = Some tp"
    using drain_pending_executor [OF assms(1), of lm g cur "en_pending (pw_engine w)"] assms(3,4) by blast
  then show ?thesis
    using assms(1-3) by (cases "en_pending (pw_engine w) = []")
      (auto simp: drain_boundary_reroutes_def case_prod_unfold Let_def)
qed

text \<open>
  C22. Draining the pending reroutes of a world with an executor settles or keeps each entry, so the
  count it answers and the entries left add up to those there were; a transfer changes only by being
  rerouted, once, over a real path, from the pause its suspension ended in, and only if it was
  pending, and no transfer disappears.
\<close>
theorem drain_settles_or_keeps:
  assumes "pw_executor w = Some ex" and "drain_boundary_reroutes lm g cur w = (n, w')"
  shows "n + length (en_pending (pw_engine w')) = length (en_pending (pw_engine w)) \<and>
    set (en_pending (pw_engine w')) \<subseteq> set (en_pending (pw_engine w)) \<and>
    (\<exists>ex'. pw_executor w' = Some ex' \<and>
       (\<forall>i tp. map_of (ex_transfers ex) i = Some tp \<longrightarrow>
          (\<exists>tp'. map_of (ex_transfers ex') i = Some tp' \<and> rerouted_once g tp tp' \<and>
             (i \<notin> pr_id ` set (en_pending (pw_engine w)) \<longrightarrow> tp' = tp))))"
proof (cases "en_pending (pw_engine w) = []")
  case True
  with assms show ?thesis by (auto simp: drain_boundary_reroutes_def rerouted_once_def)
next
  case False
  with assms drain_pending_still [of lm g cur "en_pending (pw_engine w)" w]
    drain_pending_executor [OF assms(1), of lm g cur "en_pending (pw_engine w)"]
  show ?thesis by (auto simp: drain_boundary_reroutes_def case_prod_unfold Let_def)
qed

theorem drain_settles_or_keeps_witness:
  "\<exists>n w'. drain_boundary_reroutes lstm_fresh None [] (small_world\<lparr>pw_executor := Some sample_ex,
       pw_engine := engine_fresh\<lparr>en_pending := [\<lparr>pr_id = 1, pr_avoid_edges = [0]\<rparr>]\<rparr>\<rparr>) = (n, w') \<and>
     n + length (en_pending (pw_engine w')) = 1"
proof -
  let ?w = "small_world\<lparr>pw_executor := Some sample_ex,
       pw_engine := engine_fresh\<lparr>en_pending := [\<lparr>pr_id = 1, pr_avoid_edges = [0]\<rparr>]\<rparr>\<rparr>"
  obtain n w' where run: "drain_boundary_reroutes lstm_fresh None [] ?w = (n, w')" by (rule prod.exhaust)
  from drain_settles_or_keeps [OF _ run] run show ?thesis by simp
qed

end
