(* ===== verification/Telemetry_Ring.thy ===== *)
theory Telemetry_Ring
  imports Prelude
begin

text \<open>
  The ring buffer of utilisation samples, \<open>TelemetryRingBuffer\<close> of \<open>telemetry/telemetry.hpp\<close> and
  \<open>telemetry/telemetry.cpp\<close>, and what it promises: a log of the last 512 samples.

  \<open>now\<close> is the value the steady clock returns in \<open>write\<close>.  The buffer is written by one thread; the
  model has one operation at a time.
\<close>

section \<open>The buffer\<close>

definition TELEMETRY_RING_SIZE :: nat where
  "TELEMETRY_RING_SIZE = 512"

record telemetry_sample =
  ts_timestamp_ns :: u64
  ts_edge :: u32
  ts_util :: real

record ring_buffer =
  rb_buffer :: "telemetry_sample list"
  rb_write_idx :: u32

definition ring_fresh :: ring_buffer where
  "ring_fresh =
     \<lparr>rb_buffer = replicate TELEMETRY_RING_SIZE \<lparr>ts_timestamp_ns = 0, ts_edge = 0, ts_util = 0\<rparr>,
      rb_write_idx = 0\<rparr>"

text \<open>The index counter wraps at 32 bits; \<open>fetch_add\<close> returns its old value.\<close>

definition ring_write :: "u64 \<Rightarrow> u32 \<Rightarrow> real \<Rightarrow> ring_buffer \<Rightarrow> ring_buffer" where
  "ring_write now e util r =
     (let idx = unat (rb_write_idx r) mod TELEMETRY_RING_SIZE
      in r\<lparr>rb_write_idx := rb_write_idx r + 1,
           rb_buffer := (rb_buffer r)[idx := \<lparr>ts_timestamp_ns = now, ts_edge = e, ts_util = util\<rparr>]\<rparr>)"

text \<open>
  \<open>read_latest\<close> visits the slots backwards from the one written last.  \<open>start + 512 - 1 - i\<close> is computed
  in 64 bits and does not wrap.  \<open>None\<close> is the result false, where \<open>out_util\<close> is left alone.
\<close>

definition ring_slot :: "ring_buffer \<Rightarrow> nat \<Rightarrow> telemetry_sample" where
  "ring_slot r i =
     rb_buffer r ! ((unat (rb_write_idx r) + TELEMETRY_RING_SIZE - 1 - i) mod TELEMETRY_RING_SIZE)"

definition sample_of :: "u32 \<Rightarrow> telemetry_sample \<Rightarrow> bool" where
  "sample_of e s \<longleftrightarrow> ts_edge s = e \<and> ts_timestamp_ns s \<noteq> 0"

fun read_scan :: "ring_buffer \<Rightarrow> u32 \<Rightarrow> nat list \<Rightarrow> real option" where
  "read_scan r e [] = None"
| "read_scan r e (i # is) =
     (if sample_of e (ring_slot r i) then Some (ts_util (ring_slot r i)) else read_scan r e is)"

definition read_latest :: "ring_buffer \<Rightarrow> u32 \<Rightarrow> real option" where
  "read_latest r e = read_scan r e [0..<TELEMETRY_RING_SIZE]"

definition snapshot :: "ring_buffer \<Rightarrow> nat \<Rightarrow> real list" where
  "snapshot r n = map (\<lambda>e. case read_latest r (of_nat e) of None \<Rightarrow> 0 | Some u \<Rightarrow> u) [0..<n]"

section \<open>A log of bounded length\<close>

lemma find_append_option:
  "List.find P (as @ bs) = (case List.find P as of None \<Rightarrow> List.find P bs | Some a \<Rightarrow> Some a)"
  by (induction as) auto

text \<open>
  The contract: what has been put in is a log, newest first, cut to \<open>cap\<close> entries.
\<close>

locale sliding_log =
  fixes cap :: nat
    and put :: "'e \<Rightarrow> 's \<Rightarrow> 's"
    and log_of :: "'s \<Rightarrow> 'e list"
    and wf :: "'s \<Rightarrow> bool"
  assumes wf_put: "wf s \<Longrightarrow> wf (put x s)"
    and log_put: "wf s \<Longrightarrow> log_of (put x s) = take cap (x # log_of s)"
    and log_length: "wf s \<Longrightarrow> length (log_of s) = cap"
begin

lemma wf_puts: "wf s \<Longrightarrow> wf (fold put xs s)"
  by (induction xs arbitrary: s) (auto simp: wf_put)

lemma log_puts: "wf s \<Longrightarrow> log_of (fold put xs s) = take cap (rev xs @ log_of s)"
proof (induction xs arbitrary: s)
  case Nil
  then show ?case by (simp add: log_length)
next
  case (Cons x xs)
  then show ?case
    by (simp add: wf_put log_put take_Cons' min_def)
qed

text \<open>What is looked up in the log is the newest of the last \<open>cap\<close> entries that were put in.\<close>

lemma find_newest:
  assumes "wf s" and "\<And>x. x \<in> set (log_of s) \<Longrightarrow> \<not> P x"
  shows "List.find P (log_of (fold put xs s)) = List.find P (take cap (rev xs))"
proof -
  have "List.find P (take n (log_of s)) = None" for n
    using assms(2) by (auto simp: find_None_iff dest: in_set_takeD)
  then show ?thesis
    using assms(1) by (simp add: log_puts find_append_option split: option.split)
qed

end

section \<open>The ring is such a log\<close>

definition ring_wf :: "ring_buffer \<Rightarrow> bool" where
  "ring_wf r \<longleftrightarrow> length (rb_buffer r) = TELEMETRY_RING_SIZE"

definition ring_log :: "ring_buffer \<Rightarrow> telemetry_sample list" where
  "ring_log r = map (ring_slot r) [0..<TELEMETRY_RING_SIZE]"

definition ring_put :: "telemetry_sample \<Rightarrow> ring_buffer \<Rightarrow> ring_buffer" where
  "ring_put s = ring_write (ts_timestamp_ns s) (ts_edge s) (ts_util s)"

lemma ring_wf_fresh [simp]: "ring_wf ring_fresh"
  by (simp add: ring_wf_def ring_fresh_def)

lemma ring_wf_write [wf_intros]: "ring_wf r \<Longrightarrow> ring_wf (ring_write now e u r)"
  by (simp add: ring_wf_def ring_write_def Let_def)

text \<open>The counter's wrap at \<open>2^32\<close> is invisible because the size of the ring divides it.\<close>

lemma write_idx_mod: "unat (w + 1 :: u32) mod 512 = (unat w + 1) mod 512"
  by (simp add: unat_word_ariths mod_mod_cancel)

lemma slot_after_write:
  assumes "ring_wf r" and "i < TELEMETRY_RING_SIZE"
  shows "ring_slot (ring_write now e u r) i =
     (if i = 0 then \<lparr>ts_timestamp_ns = now, ts_edge = e, ts_util = u\<rparr> else ring_slot r (i - 1))"
proof -
  define w where "w = unat (rb_write_idx r)"
  define w' where "w' = unat (rb_write_idx r + 1)"
  have len: "length (rb_buffer r) = 512"
    using assms(1) by (simp add: ring_wf_def TELEMETRY_RING_SIZE_def)
  have i: "i < 512" using assms(2) by (simp add: TELEMETRY_RING_SIZE_def)
  have w': "w' mod 512 = (w + 1) mod 512"
    by (simp add: w_def w'_def write_idx_mod)
  have "(w' + (511 - i)) mod 512 = (w' mod 512 + (511 - i)) mod 512"
    by (simp add: mod_add_left_eq)
  also have "\<dots> = (w + 1 + (511 - i)) mod 512"
    by (simp only: w' mod_add_left_eq)
  finally have "(w' + (511 - i)) mod 512 = (w + 1 + (511 - i)) mod 512" .
  moreover have "w' + (511 - i) = w' + 511 - i" "w + 1 + (511 - i) = w + 512 - i"
    using i by linarith+
  ultimately have idx: "(w' + 511 - i) mod 512 = (w + 512 - i) mod 512"
    by metis
  define s where "s = \<lparr>ts_timestamp_ns = now, ts_edge = e, ts_util = u\<rparr>"
  have "ring_slot (ring_write now e u r) i = (rb_buffer r)[w mod 512 := s] ! ((w' + 511 - i) mod 512)"
    by (simp add: ring_slot_def ring_write_def TELEMETRY_RING_SIZE_def w_def w'_def s_def Let_def add.commute)
  then have new: "ring_slot (ring_write now e u r) i = (rb_buffer r)[w mod 512 := s] ! ((w + 512 - i) mod 512)"
    by (simp only: idx)
  show ?thesis
  proof (cases "i = 0")
    case True
    then show ?thesis using len new by (simp add: s_def)
  next
    case False
    have "(w + (512 - i)) mod 512 \<noteq> w mod 512"
      using False i mod_eq_dvd_iff_nat [of w "w + (512 - i)" 512] nat_dvd_not_less [of "512 - i" 512]
      by auto
    then have "(w + 512 - i) mod 512 \<noteq> w mod 512"
      using i by simp
    then have "ring_slot (ring_write now e u r) i = rb_buffer r ! ((w + 512 - i) mod 512)"
      by (simp add: new)
    moreover have "w + 512 - 1 - (i - 1) = w + 512 - i" using False i by linarith
    ultimately show ?thesis
      using False by (simp add: ring_slot_def TELEMETRY_RING_SIZE_def w_def)
  qed
qed

lemma ring_log_write:
  assumes "ring_wf r"
  shows "ring_log (ring_write now e u r) =
    take TELEMETRY_RING_SIZE (\<lparr>ts_timestamp_ns = now, ts_edge = e, ts_util = u\<rparr> # ring_log r)"
  by (rule nth_equalityI)
     (auto simp: ring_log_def slot_after_write [OF assms] nth_Cons' TELEMETRY_RING_SIZE_def)

interpretation ring: sliding_log TELEMETRY_RING_SIZE ring_put ring_log ring_wf
proof
  show "ring_wf (ring_put x s)" if "ring_wf s" for s x
    using that by (simp add: ring_put_def ring_wf_write)
  show "ring_log (ring_put x s) = take TELEMETRY_RING_SIZE (x # ring_log s)" if "ring_wf s" for s x
    using that by (cases x) (simp add: ring_put_def ring_log_write)
  show "length (ring_log s) = TELEMETRY_RING_SIZE" for s
    by (simp add: ring_log_def)
qed

lemma read_scan_find:
  "read_scan r e is = map_option ts_util (List.find (sample_of e) (map (ring_slot r) is))"
  by (induction "is") auto

lemma read_latest_find: "read_latest r e = map_option ts_util (List.find (sample_of e) (ring_log r))"
  by (simp add: read_latest_def read_scan_find ring_log_def)

lemma ring_log_fresh:
  "ring_log ring_fresh = replicate TELEMETRY_RING_SIZE \<lparr>ts_timestamp_ns = 0, ts_edge = 0, ts_util = 0\<rparr>"
  by (rule nth_equalityI) (auto simp: ring_log_def ring_slot_def ring_fresh_def TELEMETRY_RING_SIZE_def)

lemma read_after_writes:
  "read_latest (fold ring_put xs ring_fresh) e =
     map_option ts_util (List.find (sample_of e) (take TELEMETRY_RING_SIZE (rev xs)))"
  unfolding read_latest_find
  by (subst ring.find_newest) (auto simp: ring_log_fresh sample_of_def)

section \<open>Properties\<close>

text \<open>
  C10. The ring refines a log of samples: whatever has been written, over any number of wraps
  of the ring and of its 32-bit index, reading an edge returns its newest sample among the last 512
  writes, and nothing when there is none.
\<close>

theorem ring_refines_log:
  "read_latest (fold ring_put xs ring_fresh) e =
     map_option ts_util (List.find (sample_of e) (take 512 (rev xs))) \<and>
   ring_log (ring_put x (fold ring_put xs ring_fresh)) = take 512 (x # ring_log (fold ring_put xs ring_fresh))"
  using read_after_writes [of xs e] ring.log_put [OF ring.wf_puts [OF ring_wf_fresh], of x xs]
  by (simp add: TELEMETRY_RING_SIZE_def)

end
