(* ===== verification/Host_Files.thy ===== *)
theory Host_Files
  imports Model "HOL-Library.List_Lexorder" "HOL-Library.Char_ord"
begin

text \<open>
  What the telemetry sources see of the machine, and the text they make and read: sysfs files and
  directories, the decimal numbers in them, path names, and the functions of NVML that they resolve.

  A file is its contents at the time of the call; \<open>None\<close> says that opening it for reading fails.  A
  directory opens for reading too, with no contents.  \<open>hf_dir\<close> is what \<open>readdir\<close> delivers, in its order.
\<close>

section \<open>Files\<close>

record host_files =
  hf_text :: "string \<Rightarrow> string option"
  hf_dir :: "string \<Rightarrow> string list option"

definition is_space :: "char \<Rightarrow> bool" where
  "is_space c \<longleftrightarrow> c \<in> {CHR '' '', CHR 0x09, CHR 0x0A, CHR 0x0B, CHR 0x0C, CHR 0x0D}"

definition digit_value :: "char \<Rightarrow> nat" where
  "digit_value c =
     (let n = of_char c :: nat
      in if 48 \<le> n \<and> n \<le> 57 then n - 48
         else if 97 \<le> n \<and> n \<le> 102 then n - 87
         else if 65 \<le> n \<and> n \<le> 70 then n - 55 else 16)"

definition read_digits :: "nat \<Rightarrow> string \<Rightarrow> nat option" where
  "read_digits base s =
     (let ds = takeWhile (\<lambda>c. digit_value c < base) s
      in if ds = [] then None else Some (fold (\<lambda>c n. base * n + digit_value c) ds 0))"

text \<open>
  \<open>f >> out\<close> for an unsigned 64-bit \<open>out\<close>: leading white space is skipped, a number that does not fit
  is a failure, and a minus sign negates modulo \<open>2^64\<close>.
\<close>

definition number_text :: "string \<Rightarrow> bool \<times> string" where
  "number_text s =
     (let t = dropWhile is_space s
      in (t \<noteq> [] \<and> hd t = CHR ''-'', if t \<noteq> [] \<and> (hd t = CHR ''-'' \<or> hd t = CHR ''+'') then tl t else t))"

definition parse_u64 :: "string \<Rightarrow> u64 option" where
  "parse_u64 s =
     (let (neg, t) = number_text s
      in case read_digits 10 t of
           None \<Rightarrow> None
         | Some n \<Rightarrow> if 2 ^ 64 \<le> n then None else Some (if neg then - of_nat n else of_nat n))"

definition read_u64_file :: "host_files \<Rightarrow> string \<Rightarrow> u64 option" where
  "read_u64_file h path = (case hf_text h path of None \<Rightarrow> None | Some s \<Rightarrow> parse_u64 s)"

text \<open>
  What is left in a variable that was 0 when the result of reading it is ignored: a file that does not
  open leaves it, no digits store 0, and a number that does not fit stores the maximum.
\<close>

definition u64_left :: "host_files \<Rightarrow> string \<Rightarrow> u64" where
  "u64_left h path =
     (case hf_text h path of
        None \<Rightarrow> 0
      | Some s \<Rightarrow> (case parse_u64 s of
          Some v \<Rightarrow> v
        | None \<Rightarrow> if read_digits 10 (snd (number_text s)) = None then 0 else - 1))"

definition file_opens :: "host_files \<Rightarrow> string \<Rightarrow> bool" where
  "file_opens h path \<longleftrightarrow> hf_text h path \<noteq> None"

text \<open>\<open>std::getline\<close> fails on an empty stream.\<close>

definition first_line :: "string \<Rightarrow> string option" where
  "first_line s = (if s = [] then None else Some (takeWhile (\<lambda>c. c \<noteq> CHR 0x0A) s))"

section \<open>Numbers as text\<close>

definition dec_digit :: "nat \<Rightarrow> char" where
  "dec_digit n = char_of (48 + n)"

fun dec_string :: "nat \<Rightarrow> string" where
  "dec_string n = (if n < 10 then [dec_digit n] else dec_string (n div 10) @ [dec_digit (n mod 10)])"

declare dec_string.simps [simp del]

definition int_string :: "int \<Rightarrow> string" where
  "int_string i = (if i < 0 then CHR ''-'' # dec_string (nat (- i)) else dec_string (nat i))"

lemma digit_value_dec_digit: "n < 10 \<Longrightarrow> digit_value (dec_digit n) = n"
  by (simp add: digit_value_def dec_digit_def Let_def)

lemma dec_string_digits: "c \<in> set (dec_string n) \<Longrightarrow> digit_value c < 10"
  by (induction n rule: dec_string.induct)
     (subst (asm) (2) dec_string.simps, auto simp: digit_value_dec_digit split: if_splits)

lemma dec_string_nonempty [simp]: "dec_string n \<noteq> []"
  by (subst dec_string.simps) simp

lemma dec_string_value: "fold (\<lambda>c m. 10 * m + digit_value c) (dec_string n) 0 = n"
proof (induction n rule: dec_string.induct)
  case (1 n)
  then show ?case
    by (subst dec_string.simps) (simp add: digit_value_dec_digit)
qed

text \<open>A number written in decimal is read back.\<close>

lemma read_digits_dec_string: "read_digits 10 (dec_string n) = Some n"
proof -
  have "takeWhile (\<lambda>c. digit_value c < 10) (dec_string n) = dec_string n"
    using dec_string_digits by (simp add: takeWhile_eq_all_conv)
  then show ?thesis
    unfolding read_digits_def Let_def by (simp only: dec_string_value dec_string_nonempty if_False)
qed

lemma digit_not_sign: "digit_value c < 10 \<Longrightarrow> \<not> is_space c \<and> c \<noteq> CHR ''-'' \<and> c \<noteq> CHR ''+''"
  by (auto simp: digit_value_def is_space_def Let_def)

lemma parse_dec_string: "parse_u64 (dec_string (unat w)) = Some w"
proof -
  obtain c cs where s: "dec_string (unat w) = c # cs"
    by (cases "dec_string (unat w)") auto
  then have "digit_value c < 10"
    using dec_string_digits [of c "unat w"] by simp
  then have "\<not> is_space c" "c \<noteq> CHR ''-''" "c \<noteq> CHR ''+''"
    using digit_not_sign by auto
  moreover have "read_digits 10 (c # cs) = Some (unat w)"
    using read_digits_dec_string [of "unat w"] s by simp
  moreover have "unat w < 18446744073709551616"
    using unat_u64_less [of w] by simp
  ultimately show ?thesis
    by (simp add: parse_u64_def number_text_def s Let_def)
qed

section \<open>NVML\<close>

text \<open>
  The entry points of the NVML library that are resolved with \<open>dlsym\<close>, with what they return at the
  time of the call: initialisation, a device handle by index, the transmit and receive counters of an
  NVLink of a device (\<open>None\<close> when the symbol is missing), and the PCIe throughput of a device in
  KB/s, 0 for transmit and 1 for receive.
\<close>

record nvml_lib =
  nv_init :: bool
  nv_handle :: "u32 \<Rightarrow> ptr option"
  nv_nvlink :: "(ptr \<Rightarrow> u32 \<Rightarrow> (u64 \<times> u64) option) option"
  nv_pcie :: "(ptr \<Rightarrow> nat \<Rightarrow> u32 option) option"

end
