(* ===== verification/Hw_Counters.thy ===== *)
theory Hw_Counters
  imports Host_Files
begin

text \<open>
  The hardware counter backends of \<open>telemetry/hw_counters.hpp\<close> and \<open>telemetry/hw_counters.cpp\<close>: the
  binding of edges to devices, and the synthetic, NVML, InfiniBand sysfs and PCIe sysfs backends.  The
  MAD and PMU backends are in \<open>Ib_Mad\<close> and \<open>Pmu\<close>.

  A backend's \<open>sample\<close> returns \<open>None\<close> for false and \<open>Some u\<close> for true with \<open>out_util = u\<close>.  What it
  reads of the machine, files, NVML and the steady clock \<open>now\<close>, are arguments.  The code is the
  \<open>__linux__\<close> one.
\<close>

section \<open>Bindings\<close>

record edge_hw_binding =
  hb_edge_idx :: u32
  hb_fabric :: fabric_type
  hb_gpu_a :: int
  hb_gpu_b :: int
  hb_nvlink_id :: int
  hb_ib_device :: string
  hb_ib_port :: int
  hb_pci_sysfs :: string
  hb_peak_bw_gbps :: real

definition discover_ib_devs :: "host_files \<Rightarrow> string list" where
  "discover_ib_devs h =
     (let ds = (case hf_dir h ''/sys/class/infiniband'' of
                  None \<Rightarrow> []
                | Some es \<Rightarrow> sort (filter (\<lambda>n. \<not> (n \<noteq> [] \<and> hd n = CHR ''.'')) es))
      in if ds = [] then [''mlx5_0'', ''mlx5_1''] else ds)"

text \<open>\<open>snprintf\<close> into 96 characters keeps 95 of them.\<close>

definition port_dir :: "string \<Rightarrow> string" where
  "port_dir dev = take 95 (''/sys/class/infiniband/'' @ dev @ ''/ports/1'')"

definition binding_rail :: "nat \<Rightarrow> fabric_type list \<Rightarrow> int list \<Rightarrow> nat \<Rightarrow> nat" where
  "binding_rail ndevs fabrics rail_ids i =
     (if i < length rail_ids \<and> 0 \<le> rail_ids ! i then nat (rail_ids ! i mod int ndevs)
      else if fabrics ! i = InfiniBand then i mod ndevs else 0)"

definition bind_edge ::
  "string list \<Rightarrow> fabric_type list \<Rightarrow> real list \<Rightarrow> int list \<Rightarrow> nat \<Rightarrow> edge_hw_binding"
where
  "bind_edge ib_devs fabrics peak_bw_gbps rail_ids i =
     (let dev = ib_devs ! binding_rail (length ib_devs) fabrics rail_ids i
      in \<lparr>hb_edge_idx = of_nat i, hb_fabric = fabrics ! i, hb_gpu_a = int (i mod 8),
          hb_gpu_b = int ((i + 1) mod 8), hb_nvlink_id = int (i mod 18), hb_ib_device = dev,
          hb_ib_port = 1, hb_pci_sysfs = port_dir dev,
          hb_peak_bw_gbps = (if i < length peak_bw_gbps then peak_bw_gbps ! i else 50)\<rparr>)"

definition bindings_from_fabrics ::
  "host_files \<Rightarrow> fabric_type list \<Rightarrow> real list \<Rightarrow> int list \<Rightarrow> edge_hw_binding list"
where
  "bindings_from_fabrics h fabrics peak_bw_gbps rail_ids =
     map (bind_edge (discover_ib_devs h) fabrics peak_bw_gbps rail_ids) [0..<length fabrics]"

section \<open>Rates\<close>

text \<open>Seconds between two readings of the clock, subtracted in 64 bits.\<close>

definition seconds_between :: "u64 \<Rightarrow> u64 \<Rightarrow> real" where
  "seconds_between prev now = real (unat (now - prev)) / 10 ^ 9"

definition rate_gbps :: "real \<Rightarrow> real \<Rightarrow> real" where
  "rate_gbps nbytes dt_s = nbytes / (dt_s * 10 ^ 9 + 1 / 10 ^ 12)"

definition util_of_rate :: "real \<Rightarrow> real \<Rightarrow> real" where
  "util_of_rate gbps peak = clamp (gbps / max peak 1) 0 0.99"

section \<open>The synthetic backend\<close>

text \<open>
  The generator and the distributions are functions of the generator's state: a number in \<open>[0, 1)\<close>,
  an integer and a real number between two bounds.
\<close>

record 'g rng_ops =
  rng_seed :: "u32 \<Rightarrow> 'g"
  rng_unit :: "'g \<Rightarrow> real \<times> 'g"
  rng_int :: "int \<Rightarrow> int \<Rightarrow> 'g \<Rightarrow> int \<times> 'g"
  rng_real :: "real \<Rightarrow> real \<Rightarrow> 'g \<Rightarrow> real \<times> 'g"

record burst_state =
  burst_left :: int
  burst_peak :: real

record 'g synthetic =
  sy_bindings :: "edge_hw_binding list"
  sy_state :: "burst_state list"
  sy_rng :: 'g

definition synthetic_init :: "'g rng_ops \<Rightarrow> edge_hw_binding list \<Rightarrow> 'g synthetic \<Rightarrow> bool \<times> 'g synthetic" where
  "synthetic_init R bs s =
     (True, s\<lparr>sy_bindings := bs, sy_state := replicate (length bs) \<lparr>burst_left = 0, burst_peak = 0.9\<rparr>,
              sy_rng := rng_seed R 0xC0FFEE\<rparr>)"

text \<open>The utilisation before the fabric's correction, with the burst that goes on, starts, or neither.\<close>

definition synthetic_burst ::
  "'g rng_ops \<Rightarrow> real \<Rightarrow> burst_state \<Rightarrow> 'g \<Rightarrow> real \<times> burst_state \<times> 'g"
where
  "synthetic_burst R u st rng =
     (if 0 < burst_left st then (max u (burst_peak st), st\<lparr>burst_left := burst_left st - 1\<rparr>, rng)
      else
        let (x, rng1) = rng_unit R rng
        in if x < 0.002 then
             let (n, rng2) = rng_int R 5 40 rng1; (p, rng3) = rng_real R 0.75 0.98 rng2
             in (p, \<lparr>burst_left = n, burst_peak = p\<rparr>, rng3)
           else (u, st, rng1))"

fun fabric_noise :: "fabric_type \<Rightarrow> real \<Rightarrow> real" where
  "fabric_noise NVLink u = u * 0.9"
| "fabric_noise PCIe u = min 1 (u * 1.1)"
| "fabric_noise CXL u = u"
| "fabric_noise InfiniBand u = u"

definition synthetic_sample ::
  "'g rng_ops \<Rightarrow> u64 \<Rightarrow> u32 \<Rightarrow> 'g synthetic \<Rightarrow> real option \<times> 'g synthetic"
where
  "synthetic_sample R now e s =
     (if length (sy_state s) \<le> unat e then (None, s)
      else
        let t = real (unat now) / 10 ^ 9;
            u0 = 0.25 + 0.15 * sin (t * 0.7 + real (unat e) * 0.3);
            (u1, st, rng) = synthetic_burst R u0 (sy_state s ! unat e) (sy_rng s);
            u2 = (if unat e < length (sy_bindings s) then fabric_noise (hb_fabric (sy_bindings s ! unat e)) u1 else u1)
        in (Some (clamp u2 0 0.99), s\<lparr>sy_state := (sy_state s)[unat e := st], sy_rng := rng\<rparr>))"

section \<open>The NVML backend\<close>

text \<open>
  The library handle and the resolved functions are the \<open>nvml_lib\<close> argument: \<open>None\<close> when neither
  name of the library can be loaded.
\<close>

record nvml_backend =
  nb_bindings :: "edge_hw_binding list"
  nb_prev_tx :: "u64 list"
  nb_prev_ts :: "u64 list"
  nb_ready :: bool

definition nvml_fresh :: nvml_backend where
  "nvml_fresh = \<lparr>nb_bindings = [], nb_prev_tx = [], nb_prev_ts = [], nb_ready = False\<rparr>"

definition nvml_available :: "nvml_lib option \<Rightarrow> bool" where
  "nvml_available lib \<longleftrightarrow> lib \<noteq> None"

definition nvml_init :: "nvml_lib option \<Rightarrow> edge_hw_binding list \<Rightarrow> nvml_backend \<Rightarrow> bool \<times> nvml_backend" where
  "nvml_init lib bs s =
     (let s1 = s\<lparr>nb_bindings := bs, nb_prev_tx := replicate (length bs) 0,
                 nb_prev_ts := replicate (length bs) 0\<rparr>
      in case lib of
           None \<Rightarrow> (False, s1)
         | Some l \<Rightarrow> if nv_init l then (True, s1\<lparr>nb_ready := True\<rparr>) else (False, s1\<lparr>nb_ready := False\<rparr>))"

definition nvml_nvlink_sample ::
  "(ptr \<Rightarrow> u32 \<Rightarrow> (u64 \<times> u64) option) \<Rightarrow> nvml_lib \<Rightarrow> u64 \<Rightarrow> u32 \<Rightarrow> nvml_backend \<Rightarrow> real option \<times> nvml_backend"
where
  "nvml_nvlink_sample counter l now e s =
     (let i = unat e; b = nb_bindings s ! i;
          link = (if 0 \<le> hb_nvlink_id b then word_of_int (hb_nvlink_id b) else 0)
      in case nv_handle l (word_of_int (hb_gpu_a b)) of
           None \<Rightarrow> (None, s)
         | Some dev \<Rightarrow> (case counter dev link of
             None \<Rightarrow> (None, s)
           | Some (rx, tx) \<Rightarrow>
               let s1 = s\<lparr>nb_prev_tx := (nb_prev_tx s)[i := tx], nb_prev_ts := (nb_prev_ts s)[i := now]\<rparr>
               in if nb_prev_ts s ! i = 0 then (Some 0, s1)
                  else
                    let dtx = real (unat (tx - nb_prev_tx s ! i));
                        gbps = rate_gbps (dtx * 16) (seconds_between (nb_prev_ts s ! i) now)
                    in (Some (util_of_rate gbps (hb_peak_bw_gbps b)), s1)))"

definition pcie_throughput :: "nvml_lib \<Rightarrow> (ptr \<Rightarrow> nat \<Rightarrow> u32 option) \<Rightarrow> int \<Rightarrow> nat \<Rightarrow> real option" where
  "pcie_throughput l thr gpu dir =
     (case nv_handle l (word_of_int gpu) of
        None \<Rightarrow> None
      | Some dev \<Rightarrow> map_option (\<lambda>kbps. real (unat kbps) / (1024 * 1024)) (thr dev dir))"

text \<open>Edges that are not NVLink, or have no NVLink counter, get the PCIe throughput of their GPU.\<close>

definition nvml_sample :: "nvml_lib option \<Rightarrow> u64 \<Rightarrow> u32 \<Rightarrow> nvml_backend \<Rightarrow> real option \<times> nvml_backend" where
  "nvml_sample lib now e s =
     (case lib of
        None \<Rightarrow> (None, s)
      | Some l \<Rightarrow>
          if \<not> nb_ready s \<or> length (nb_bindings s) \<le> unat e then (None, s)
          else
            let b = nb_bindings s ! unat e
            in if hb_fabric b = NVLink \<and> nv_nvlink l \<noteq> None \<and> 0 \<le> hb_gpu_a b
               then nvml_nvlink_sample (the (nv_nvlink l)) l now e s
               else if nv_pcie l \<noteq> None \<and> 0 \<le> hb_gpu_a b
               then (map_option (\<lambda>gbps. util_of_rate gbps (hb_peak_bw_gbps b))
                       (pcie_throughput l (the (nv_pcie l)) (hb_gpu_a b) 0), s)
               else (None, s))"

section \<open>InfiniBand counters in sysfs\<close>

record ib_sysfs_backend =
  is_bindings :: "edge_hw_binding list"
  is_prev_words :: "u64 list"
  is_prev_ts :: "u64 list"

definition ib_sysfs_fresh :: ib_sysfs_backend where
  "ib_sysfs_fresh = \<lparr>is_bindings = [], is_prev_words = [], is_prev_ts = []\<rparr>"

definition ib_sysfs_available :: "host_files \<Rightarrow> bool" where
  "ib_sysfs_available h \<longleftrightarrow> file_opens h ''/sys/class/infiniband''"

definition xmit_data_path :: "edge_hw_binding \<Rightarrow> string" where
  "xmit_data_path b =
     ''/sys/class/infiniband/'' @ hb_ib_device b @ ''/ports/'' @ int_string (hb_ib_port b)
     @ ''/counters/port_xmit_data''"

definition ib_sysfs_init ::
  "host_files \<Rightarrow> edge_hw_binding list \<Rightarrow> ib_sysfs_backend \<Rightarrow> bool \<times> ib_sysfs_backend"
where
  "ib_sysfs_init h bs s =
     (let any = list_ex (\<lambda>b. hb_fabric b = InfiniBand \<and> read_u64_file h (xmit_data_path b) \<noteq> None) bs
      in (any \<or> ib_sysfs_available h,
          \<lparr>is_bindings = bs, is_prev_words = replicate (length bs) 0, is_prev_ts = replicate (length bs) 0\<rparr>))"

definition ib_sysfs_sample ::
  "host_files \<Rightarrow> u64 \<Rightarrow> u32 \<Rightarrow> ib_sysfs_backend \<Rightarrow> real option \<times> ib_sysfs_backend"
where
  "ib_sysfs_sample h now e s =
     (let i = unat e; b = is_bindings s ! i
      in if length (is_bindings s) \<le> i then (None, s)
         else if hb_fabric b \<noteq> InfiniBand then (None, s)
         else case read_u64_file h (xmit_data_path b) of
           None \<Rightarrow> (None, s)
         | Some words \<Rightarrow>
             let s1 = s\<lparr>is_prev_words := (is_prev_words s)[i := words], is_prev_ts := (is_prev_ts s)[i := now]\<rparr>
             in if is_prev_ts s ! i = 0 then (Some 0, s1)
                else
                  let dbytes = real (unat (words - is_prev_words s ! i)) * 4;
                      gbps = rate_gbps dbytes (seconds_between (is_prev_ts s ! i) now)
                  in (Some (util_of_rate gbps (hb_peak_bw_gbps b)), s1))"

section \<open>PCIe link status in sysfs\<close>

record pcie_backend =
  pb_bindings :: "edge_hw_binding list"

definition pcie_available :: "host_files \<Rightarrow> bool" where
  "pcie_available h \<longleftrightarrow> file_opens h ''/sys/bus/pci/devices''"

definition pcie_init :: "host_files \<Rightarrow> edge_hw_binding list \<Rightarrow> pcie_backend \<Rightarrow> bool \<times> pcie_backend" where
  "pcie_init h bs s = (pcie_available h, \<lparr>pb_bindings = bs\<rparr>)"

definition pcie_sample :: "host_files \<Rightarrow> u32 \<Rightarrow> pcie_backend \<Rightarrow> real option" where
  "pcie_sample h e s =
     (let b = pb_bindings s ! unat e
      in if length (pb_bindings s) \<le> unat e then None
         else if hb_fabric b \<noteq> PCIe \<and> hb_fabric b \<noteq> CXL then None
         else if hb_pci_sysfs b = [] then None
         else case read_u64_file h (hb_pci_sysfs b @ ''/current_link_width'') of
           None \<Rightarrow> Some 0.1
         | Some width \<Rightarrow> Some (if 0 < width then 0.05 else 0))"

section \<open>The contract of a backend\<close>

text \<open>
  What the daemon relies on: a sample is a utilisation between 0 and 0.99, and sampling keeps the
  backend's invariant.  \<open>m\<close> is what the backend reads of the machine.
\<close>

definition util_ok :: "real \<Rightarrow> bool" where
  "util_ok u \<longleftrightarrow> 0 \<le> u \<and> u \<le> 0.99"

locale counter_source =
  fixes sample :: "'m \<Rightarrow> u32 \<Rightarrow> 's \<Rightarrow> real option \<times> 's"
    and ok :: "'s \<Rightarrow> bool"
  assumes sample_range: "ok s \<Longrightarrow> fst (sample m e s) = Some u \<Longrightarrow> util_ok u"
    and sample_ok: "ok s \<Longrightarrow> ok (snd (sample m e s))"
begin

lemma fold_ok: "ok s \<Longrightarrow> ok (fold (\<lambda>(m, e) s. snd (sample m e s)) calls s)"
  by (induction calls arbitrary: s) (auto simp: sample_ok)

text \<open>The bound holds of every sample of a run.\<close>

lemma run_range:
  assumes "ok s" and "fst (sample m e (fold (\<lambda>(m, e) s. snd (sample m e s)) calls s)) = Some u"
  shows "util_ok u"
  using sample_range [OF fold_ok [OF assms(1)] assms(2)] .

end

lemma util_ok_clamp [range_intros, simp]: "util_ok (clamp x 0 0.99)"
  unfolding util_ok_def by (intro conjI clamp_bounds) simp_all

lemma util_ok_rate [range_intros, simp]: "util_ok (util_of_rate g p)"
  by (simp only: util_of_rate_def util_ok_clamp)

lemma util_ok_values [simp]: "util_ok 0" "util_ok 0.05" "util_ok 0.1"
  by (simp_all add: util_ok_def)

lemma nvml_sample_range:
  "fst (nvml_sample lib now e s) = Some u \<Longrightarrow> util_ok u"
  by (auto simp: nvml_sample_def nvml_nvlink_sample_def Let_def split: option.splits if_splits)

lemma ib_sysfs_sample_range:
  "fst (ib_sysfs_sample h now e s) = Some u \<Longrightarrow> util_ok u"
  by (auto simp: ib_sysfs_sample_def Let_def split: option.splits if_splits)

lemma pcie_sample_range: "pcie_sample h e s = Some u \<Longrightarrow> util_ok u"
  by (auto simp: pcie_sample_def util_ok_def Let_def split: option.splits if_splits)

lemma synthetic_sample_range:
  "fst (synthetic_sample R now e s) = Some u \<Longrightarrow> util_ok u"
  using util_ok_clamp by (auto simp: synthetic_sample_def Let_def split: if_splits prod.splits)

interpretation nvml: counter_source "\<lambda>(lib, now). nvml_sample lib now" "\<lambda>_. True"
  by unfold_locales (auto dest: nvml_sample_range)

interpretation ib_sysfs: counter_source "\<lambda>(h, now). ib_sysfs_sample h now" "\<lambda>_. True"
  by unfold_locales (auto dest: ib_sysfs_sample_range)

interpretation pcie: counter_source "\<lambda>h e s. (pcie_sample h e s, s)" "\<lambda>_. True"
  by unfold_locales (auto dest: pcie_sample_range)

interpretation synthetic: counter_source "\<lambda>(R, now). synthetic_sample R now" "\<lambda>_. True"
  by unfold_locales (auto dest: synthetic_sample_range)

end
