(* ===== verification/Ib_Mad.thy ===== *)
theory Ib_Mad
  imports Hw_Counters
begin

text \<open>
  The InfiniBand MAD counter client and its backend, \<open>telemetry/ib_mad.hpp\<close> and
  \<open>telemetry/ib_mad.cpp\<close>: performance management packets built and read byte by byte, the sysfs
  fallback, the rate-limited sampling, and the table of clients that edges of one port share.

  \<open>libibumad\<close> is the \<open>umad_lib\<close> argument: \<open>None\<close> when it or one of the functions the client needs is
  missing.  \<open>um_exchange\<close> sends a packet through an agent of a port and receives the answer into the
  same buffer; \<open>None\<close> stands for a failed send or receive.
\<close>

section \<open>Data\<close>

record umad_lib =
  um_init :: bool
  um_open_port :: "string \<Rightarrow> int \<Rightarrow> int"
  um_register :: "int \<Rightarrow> int"
  um_alloc :: bool
  um_exchange :: "int \<Rightarrow> int \<Rightarrow> u8 list \<Rightarrow> u8 list option"

record ib_port_counters =
  pc_xmit_data :: u64
  pc_rcv_data :: u64
  pc_xmit_pkts :: u64
  pc_rcv_pkts :: u64
  pc_symbol_err :: u64
  pc_link_err :: u64
  pc_xmit_wait :: u64
  pc_xmit_discards :: u64
  pc_extended :: bool
  pc_valid :: bool

definition no_counters :: ib_port_counters where
  "no_counters = \<lparr>pc_xmit_data = 0, pc_rcv_data = 0, pc_xmit_pkts = 0, pc_rcv_pkts = 0,
     pc_symbol_err = 0, pc_link_err = 0, pc_xmit_wait = 0, pc_xmit_discards = 0,
     pc_extended = False, pc_valid = False\<rparr>"

record ib_mad_client =
  mc_ready :: bool
  mc_use_mad :: bool
  mc_ca_name :: string
  mc_port :: int
  mc_backend_name :: string
  mc_sysfs_base :: string
  mc_prev_xmit :: u64
  mc_prev_rcv :: u64
  mc_prev_wait :: u64
  mc_prev_ts_ns :: u64
  mc_last_query_ns :: u64
  mc_cached_util :: real
  mc_fd :: int
  mc_agent :: int

definition mad_client_blank :: ib_mad_client where
  "mad_client_blank = \<lparr>mc_ready = False, mc_use_mad = False, mc_ca_name = [], mc_port = 1,
     mc_backend_name = ''none'', mc_sysfs_base = [], mc_prev_xmit = 0, mc_prev_rcv = 0,
     mc_prev_wait = 0, mc_prev_ts_ns = 0, mc_last_query_ns = 0, mc_cached_util = 0, mc_fd = -1,
     mc_agent = -1\<rparr>"

section \<open>Opening a port\<close>

definition init_mad_libs :: "umad_lib option \<Rightarrow> ib_mad_client \<Rightarrow> ib_mad_client" where
  "init_mad_libs lib c =
     (case lib of
        Some l \<Rightarrow> if um_init l then c\<lparr>mc_use_mad := True, mc_backend_name := ''ib_mad''\<rparr>
                  else c\<lparr>mc_backend_name := ''ib_sysfs'', mc_ready := True\<rparr>
      | None \<Rightarrow> c\<lparr>mc_backend_name := ''ib_sysfs'', mc_ready := True\<rparr>)"

definition mad_client_fresh :: "umad_lib option \<Rightarrow> ib_mad_client" where
  "mad_client_fresh lib = init_mad_libs lib mad_client_blank"

definition mad_close :: "ib_mad_client \<Rightarrow> ib_mad_client" where
  "mad_close c = c\<lparr>mc_fd := -1, mc_agent := -1\<rparr>"

definition open_sysfs :: "host_files \<Rightarrow> ib_mad_client \<Rightarrow> bool \<times> ib_mad_client" where
  "open_sysfs h c =
     (if read_u64_file h (mc_sysfs_base c @ ''/counters/port_xmit_data'') \<noteq> None \<or>
         read_u64_file h (mc_sysfs_base c @ ''/counters_ext/port_xmit_data'') \<noteq> None
      then (True, c\<lparr>mc_backend_name := ''ib_sysfs'', mc_ready := True\<rparr>)
      else (False, c\<lparr>mc_ready := False\<rparr>))"

definition mad_open ::
  "umad_lib option \<Rightarrow> host_files \<Rightarrow> string \<Rightarrow> int \<Rightarrow> ib_mad_client \<Rightarrow> bool \<times> ib_mad_client"
where
  "mad_open lib h ca_name port c0 =
     (let c = (mad_close c0)\<lparr>mc_ca_name := ca_name, mc_port := port,
                mc_sysfs_base := ''/sys/class/infiniband/'' @ ca_name @ ''/ports/'' @ int_string port\<rparr>
      in case lib of
           None \<Rightarrow> open_sysfs h c
         | Some l \<Rightarrow>
             if \<not> mc_use_mad c then open_sysfs h c
             else
               let fd = um_open_port l ca_name port; agent = um_register l fd
               in if fd < 0 then open_sysfs h (c\<lparr>mc_fd := fd\<rparr>)
                  else if 0 \<le> agent
                  then (True, c\<lparr>mc_fd := fd, mc_agent := agent, mc_backend_name := ''ib_mad'', mc_ready := True\<rparr>)
                  else open_sysfs h (c\<lparr>mc_fd := -1, mc_agent := agent\<rparr>))"

section \<open>Packets\<close>

text \<open>Multi-byte fields are big-endian; the transaction id is copied as the host stores it.\<close>

fun be_bytes :: "nat \<Rightarrow> u64 \<Rightarrow> u8 list" where
  "be_bytes 0 w = []"
| "be_bytes (Suc n) w = be_bytes n (drop_bit 8 w) @ [ucast w]"

definition be_value :: "u8 list \<Rightarrow> u64" where
  "be_value bs = fold (\<lambda>b v. 256 * v + ucast b) bs 0"

definition kMadHdrSize :: nat where "kMadHdrSize = 24"

definition mad_body_size :: "bool \<Rightarrow> nat" where
  "mad_body_size extended = (if extended then 72 else 38)"

definition mad_header :: "bool \<Rightarrow> u64 \<Rightarrow> u8 list" where
  "mad_header extended tid =
     [1, 0x04, if extended then 2 else 1, 0x01] @ [0, 0] @ [0, 0] @ rev (be_bytes 8 tid)
     @ be_bytes 2 (if extended then 0x1D else 0x12) @ [0, 0] @ [0, 0, 0, 0]"

definition mad_request :: "bool \<Rightarrow> u64 \<Rightarrow> int \<Rightarrow> u8 list" where
  "mad_request extended tid port =
     mad_header extended tid @ [0, word_of_int port] @ be_bytes 2 0xFFFF
     @ replicate (mad_body_size extended - 4) 0"

definition mad_field :: "nat \<Rightarrow> nat \<Rightarrow> u8 list \<Rightarrow> u64" where
  "mad_field off n mad = be_value (take n (drop off mad))"

definition read_ext_body :: "u8 list \<Rightarrow> ib_port_counters" where
  "read_ext_body body =
     no_counters\<lparr>pc_xmit_data := mad_field 8 8 body, pc_rcv_data := mad_field 16 8 body,
       pc_xmit_pkts := mad_field 24 8 body, pc_rcv_pkts := mad_field 32 8 body,
       pc_extended := True, pc_valid := True\<rparr>"

definition read_base_body :: "u8 list \<Rightarrow> ib_port_counters" where
  "read_base_body body =
     no_counters\<lparr>pc_xmit_data := mad_field 18 4 body, pc_rcv_data := mad_field 22 4 body,
       pc_xmit_pkts := mad_field 26 4 body, pc_rcv_pkts := mad_field 30 4 body,
       pc_xmit_wait := mad_field 34 4 body, pc_symbol_err := mad_field 4 2 body,
       pc_link_err := mad_field 6 1 body, pc_xmit_discards := mad_field 11 1 body,
       pc_extended := False, pc_valid := True\<rparr>"

text \<open>What the answer does not cover of the buffer is the request.\<close>

definition build_and_send_perfmgt ::
  "umad_lib option \<Rightarrow> u64 \<Rightarrow> bool \<Rightarrow> ib_mad_client \<Rightarrow> ib_port_counters option"
where
  "build_and_send_perfmgt lib now extended c =
     (case lib of
        None \<Rightarrow> None
      | Some l \<Rightarrow>
          if mc_fd c < 0 \<or> \<not> um_alloc l then None
          else
            let req = mad_request extended now (mc_port c)
            in case um_exchange l (mc_fd c) (mc_agent c) req of
                 None \<Rightarrow> None
               | Some answer \<Rightarrow>
                   let mad = take (length req) (answer @ drop (length answer) req);
                       body = drop kMadHdrSize mad
                   in if take 2 (drop 4 mad) \<noteq> [0, 0] then None
                      else Some (if extended then read_ext_body body else read_base_body body))"

definition query_via_mad :: "umad_lib option \<Rightarrow> u64 \<Rightarrow> ib_mad_client \<Rightarrow> ib_port_counters option" where
  "query_via_mad lib now c =
     (case build_and_send_perfmgt lib now True c of
        Some r \<Rightarrow> Some r
      | None \<Rightarrow> build_and_send_perfmgt lib now False c)"

text \<open>The results of reading the further counters are ignored.\<close>

definition query_via_sysfs :: "host_files \<Rightarrow> ib_mad_client \<Rightarrow> ib_port_counters option" where
  "query_via_sysfs h c =
     (let ext = (\<lambda>f. mc_sysfs_base c @ ''/counters_ext/'' @ f);
          base = (\<lambda>f. mc_sysfs_base c @ ''/counters/'' @ f)
      in case (read_u64_file h (ext ''port_xmit_data''), read_u64_file h (ext ''port_rcv_data'')) of
           (Some x, Some r) \<Rightarrow>
             Some (no_counters\<lparr>pc_xmit_data := x, pc_rcv_data := r,
               pc_xmit_pkts := u64_left h (ext ''port_xmit_packets''),
               pc_rcv_pkts := u64_left h (ext ''port_rcv_packets''),
               pc_extended := True, pc_valid := True\<rparr>)
         | _ \<Rightarrow> (case (read_u64_file h (base ''port_xmit_data''), read_u64_file h (base ''port_rcv_data'')) of
             (Some x, Some r) \<Rightarrow>
               Some (no_counters\<lparr>pc_xmit_data := x, pc_rcv_data := r,
                 pc_xmit_pkts := u64_left h (base ''port_xmit_packets''),
                 pc_rcv_pkts := u64_left h (base ''port_rcv_packets''),
                 pc_xmit_wait := u64_left h (base ''port_xmit_wait''),
                 pc_xmit_discards := u64_left h (base ''port_xmit_discards''),
                 pc_symbol_err := u64_left h (base ''symbol_error''),
                 pc_link_err := u64_left h (base ''link_error_recovery''),
                 pc_extended := False, pc_valid := True\<rparr>)
           | _ \<Rightarrow> None))"

definition query_port_counters ::
  "umad_lib option \<Rightarrow> host_files \<Rightarrow> u64 \<Rightarrow> ib_mad_client \<Rightarrow> ib_port_counters option"
where
  "query_port_counters lib h now c =
     (if \<not> mc_ready c then None
      else if mc_use_mad c \<and> 0 \<le> mc_fd c
      then (case query_via_mad lib now c of Some r \<Rightarrow> Some r | None \<Rightarrow> query_via_sysfs h c)
      else query_via_sysfs h c)"

section \<open>Sampling\<close>

definition mad_xmit_bytes :: "ib_port_counters \<Rightarrow> u64" where
  "mad_xmit_bytes r = (if pc_extended r then pc_xmit_data r else pc_xmit_data r * 4)"

definition mad_rcv_bytes :: "ib_port_counters \<Rightarrow> u64" where
  "mad_rcv_bytes r = (if pc_extended r then pc_rcv_data r else pc_rcv_data r * 4)"

text \<open>The utilisation since the previous reading, raised by the growth of the wait counter.\<close>

definition mad_util :: "real \<Rightarrow> u64 \<Rightarrow> ib_port_counters \<Rightarrow> ib_mad_client \<Rightarrow> real" where
  "mad_util peak now r c =
     (let dtx = real (unat (mad_xmit_bytes r - mc_prev_xmit c));
          drx = real (unat (mad_rcv_bytes r - mc_prev_rcv c));
          util = rate_gbps (dtx + drx) (seconds_between (mc_prev_ts_ns c) now) / max peak 1;
          dwait = real (unat (pc_xmit_wait r - mc_prev_wait c));
          util' = (if mc_prev_wait c < pc_xmit_wait r
                   then max util (min 0.99 (util + dwait / 10 ^ 6)) else util)
      in clamp util' 0 0.99)"

definition mad_record :: "u64 \<Rightarrow> ib_port_counters \<Rightarrow> real \<Rightarrow> ib_mad_client \<Rightarrow> ib_mad_client" where
  "mad_record now r u c = c\<lparr>mc_prev_xmit := mad_xmit_bytes r, mc_prev_rcv := mad_rcv_bytes r,
     mc_prev_wait := pc_xmit_wait r, mc_prev_ts_ns := now, mc_cached_util := u\<rparr>"

definition sample_util ::
  "umad_lib option \<Rightarrow> host_files \<Rightarrow> u64 \<Rightarrow> real \<Rightarrow> ib_mad_client \<Rightarrow> real option \<times> ib_mad_client"
where
  "sample_util lib h now peak c =
     (if now - mc_last_query_ns c < 2000000 \<and> mc_prev_ts_ns c \<noteq> 0 then (Some (mc_cached_util c), c)
      else
        let c1 = c\<lparr>mc_last_query_ns := now\<rparr>
        in case query_port_counters lib h now c1 of
             None \<Rightarrow> (None, c1)
           | Some r \<Rightarrow>
               let u = (if mc_prev_ts_ns c1 = 0 then 0 else mad_util peak now r c1)
               in (Some u, mad_record now r u c1))"

section \<open>The backend\<close>

text \<open>
  Edges of one port share a client, as the shared pointers of the code do: \<open>mb_clients\<close> holds the
  clients by port, \<open>mb_edges\<close> the port of each edge.
\<close>

record ib_mad_backend =
  mb_bindings :: "edge_hw_binding list"
  mb_edges :: "string option list"
  mb_clients :: "(string \<times> ib_mad_client) list"
  mb_name :: string

definition mad_backend_fresh :: ib_mad_backend where
  "mad_backend_fresh = \<lparr>mb_bindings = [], mb_edges = [], mb_clients = [], mb_name = ''ib_mad''\<rparr>"

definition port_key :: "edge_hw_binding \<Rightarrow> string" where
  "port_key b = hb_ib_device b @ '':'' @ int_string (hb_ib_port b)"

definition mad_bind_edge ::
  "umad_lib option \<Rightarrow> host_files \<Rightarrow> edge_hw_binding \<Rightarrow> ib_mad_backend \<Rightarrow> ib_mad_backend"
where
  "mad_bind_edge lib h b s =
     (let key = port_key b; bound = s\<lparr>mb_edges := mb_edges s @ [Some key]\<rparr>;
          unbound = s\<lparr>mb_edges := mb_edges s @ [None]\<rparr>
      in if hb_fabric b \<noteq> InfiniBand then unbound
         else case map_of (mb_clients s) key of
           Some c \<Rightarrow> bound
         | None \<Rightarrow>
             let (ok, c) = mad_open lib h (hb_ib_device b) (hb_ib_port b) (mad_client_fresh lib)
             in if \<not> ok then unbound
                else bound\<lparr>mb_name := mc_backend_name c, mb_clients := (key, c) # mb_clients s\<rparr>)"

definition mad_backend_init ::
  "umad_lib option \<Rightarrow> host_files \<Rightarrow> edge_hw_binding list \<Rightarrow> ib_mad_backend \<Rightarrow> bool \<times> ib_mad_backend"
where
  "mad_backend_init lib h bs s =
     (let s' = fold (mad_bind_edge lib h) bs (s\<lparr>mb_bindings := bs, mb_edges := [], mb_clients := []\<rparr>)
      in (list_ex (\<lambda>k. k \<noteq> None) (mb_edges s'), s'))"

definition mad_backend_sample ::
  "umad_lib option \<Rightarrow> host_files \<Rightarrow> u64 \<Rightarrow> u32 \<Rightarrow> ib_mad_backend \<Rightarrow> real option \<times> ib_mad_backend"
where
  "mad_backend_sample lib h now e s =
     (if length (mb_edges s) \<le> unat e then (None, s)
      else case mb_edges s ! unat e of
        None \<Rightarrow> (None, s)
      | Some key \<Rightarrow> (case map_of (mb_clients s) key of
          None \<Rightarrow> (None, s)
        | Some c \<Rightarrow>
            let (u, c') = sample_util lib h now (hb_peak_bw_gbps (mb_bindings s ! unat e)) c
            in (u, s\<lparr>mb_clients := AList.update key c' (mb_clients s)\<rparr>)))"

section \<open>Utilisations stay in range\<close>

definition mad_client_ok :: "ib_mad_client \<Rightarrow> bool" where
  "mad_client_ok c \<longleftrightarrow> util_ok (mc_cached_util c)"

definition mad_backend_ok :: "ib_mad_backend \<Rightarrow> bool" where
  "mad_backend_ok s \<longleftrightarrow> (\<forall>(k, c) \<in> set (mb_clients s). mad_client_ok c)"

lemma mad_util_range [simp]: "util_ok (mad_util peak now r c)"
  unfolding mad_util_def Let_def by (rule util_ok_clamp)

lemma sample_util_range:
  assumes "mad_client_ok c"
  shows "fst (sample_util lib h now peak c) = Some u \<Longrightarrow> util_ok u"
    and "mad_client_ok (snd (sample_util lib h now peak c))"
  using assms
  by (auto simp: sample_util_def mad_client_ok_def mad_record_def Let_def split: option.splits if_splits)

lemma mad_backend_sample_range:
  assumes "mad_backend_ok s"
  shows "fst (mad_backend_sample lib h now e s) = Some u \<Longrightarrow> util_ok u"
    and "mad_backend_ok (snd (mad_backend_sample lib h now e s))"
proof -
  have client: "mad_client_ok c" if "map_of (mb_clients s) key = Some c" for key c
    using assms map_of_SomeD [OF that] by (auto simp: mad_backend_ok_def)
  show "util_ok u" if "fst (mad_backend_sample lib h now e s) = Some u"
    using that sample_util_range(1) [OF client]
    by (auto simp: mad_backend_sample_def case_prod_unfold Let_def split: option.splits if_splits)
  show "mad_backend_ok (snd (mad_backend_sample lib h now e s))"
  proof -
    have "mad_backend_ok (s\<lparr>mb_clients := AList.update key c (mb_clients s)\<rparr>)" if "mad_client_ok c" for key c
      using assms that set_update_subset [of key c "mb_clients s"] by (auto simp: mad_backend_ok_def)
    then show ?thesis
      using assms sample_util_range(2) [OF client]
      by (auto simp: mad_backend_sample_def case_prod_unfold Let_def split: option.splits)
  qed
qed

interpretation ib_mad: counter_source "\<lambda>(lib, h, now). mad_backend_sample lib h now" mad_backend_ok
  using mad_backend_sample_range by unfold_locales auto

lemma mad_open_cached: "mc_cached_util (snd (mad_open lib h ca port c)) = mc_cached_util c"
  by (auto simp: mad_open_def open_sysfs_def mad_close_def Let_def split: option.splits)

lemma mad_client_fresh_cached [simp]: "mc_cached_util (mad_client_fresh lib) = 0"
  by (simp add: mad_client_fresh_def init_mad_libs_def mad_client_blank_def split: option.split)

lemma mad_bind_edge_ok: "mad_backend_ok s \<Longrightarrow> mad_backend_ok (mad_bind_edge lib h b s)"
  using mad_open_cached [of lib h "hb_ib_device b" "hb_ib_port b" "mad_client_fresh lib"]
  by (auto simp: mad_bind_edge_def mad_backend_ok_def mad_client_ok_def Let_def split: option.splits prod.splits)

lemma mad_backend_init_ok: "mad_backend_ok (snd (mad_backend_init lib h bs s))"
proof -
  have "mad_backend_ok s \<Longrightarrow> mad_backend_ok (fold (mad_bind_edge lib h) bs' s)" for s bs'
    by (induction bs' arbitrary: s) (auto simp: mad_bind_edge_ok)
  moreover have "mad_backend_ok (s\<lparr>mb_bindings := bs, mb_edges := [], mb_clients := []\<rparr>)"
    by (simp add: mad_backend_ok_def)
  ultimately show ?thesis
    unfolding mad_backend_init_def Let_def snd_conv by blast
qed

section \<open>Where the counters are looked for\<close>

lemma length_be_bytes [simp]: "length (be_bytes n w) = n"
  by (induction n arbitrary: w) auto

lemma length_mad_request: "length (mad_request extended tid port) = kMadHdrSize + mad_body_size extended"
  by (simp add: mad_request_def mad_header_def mad_body_size_def kMadHdrSize_def del: be_bytes.simps)

lemma be_value_zeros [simp]: "be_value (replicate n 0) = 0"
  by (induction n) (simp_all add: be_value_def)

lemma zero_field:
  assumes "take 40 body = replicate 40 0" and "off + n \<le> 40"
  shows "mad_field off n body = 0"
proof -
  have "take n (drop off body) = take n (drop off (take 40 body))"
    using assms(2) by (simp add: take_drop min_def)
  also have "\<dots> = replicate n 0" using assms by simp
  finally show ?thesis by (simp add: mad_field_def)
qed

text \<open>
  A management datagram of the performance class: a header of 24 bytes, of which the fifth and sixth are
  the status, 40 reserved bytes that are zero, and the counters after them.
\<close>

definition perf_answer :: "u8 list \<Rightarrow> bool" where
  "perf_answer mad \<longleftrightarrow> 64 \<le> length mad \<and> take 2 (drop 4 mad) = [0, 0] \<and>
     take 40 (drop 24 mad) = replicate 40 0"

lemma perf_answer_read:
  assumes "um_alloc l" and "0 \<le> mc_fd c" and "perf_answer mad"
    and "um_exchange l (mc_fd c) (mc_agent c) (mad_request True now (mc_port c)) = Some mad"
  shows "build_and_send_perfmgt (Some l) now True c = Some (no_counters\<lparr>pc_extended := True, pc_valid := True\<rparr>)"
proof -
  let ?req = "mad_request True now (mc_port c)"
  let ?mad = "take (length ?req) (mad @ drop (length mad) ?req)"
  have len: "length ?req = 96" by (simp add: length_mad_request kMadHdrSize_def mad_body_size_def)
  have long: "64 \<le> length mad" using assms(3) by (simp add: perf_answer_def)
  then have status: "take 2 (drop 4 ?mad) = [0, 0]"
    using assms(3) by (simp add: len perf_answer_def take_drop min_def)
  have "take 40 (drop kMadHdrSize ?mad) = take 40 (drop 24 mad)"
    using long by (simp add: len kMadHdrSize_def take_drop min_def)
  then have "take 40 (drop kMadHdrSize ?mad) = replicate 40 0" using assms(3) by (simp add: perf_answer_def)
  then have "read_ext_body (drop kMadHdrSize ?mad) = no_counters\<lparr>pc_extended := True, pc_valid := True\<rparr>"
    by (simp add: read_ext_body_def zero_field no_counters_def)
  with assms(1,2,4) status show ?thesis by (simp add: build_and_send_perfmgt_def Let_def)
qed

text \<open>Samples at given times, for given peaks.\<close>

fun sample_run ::
  "umad_lib option \<Rightarrow> host_files \<Rightarrow> (u64 \<times> real) list \<Rightarrow> ib_mad_client \<Rightarrow> real option list"
where
  "sample_run lib h [] c = []"
| "sample_run lib h ((now, peak) # ts) c =
     (let (u, c') = sample_util lib h now peak c in u # sample_run lib h ts c')"

text \<open>The baseline such answers leave.\<close>

definition zero_baseline :: "ib_mad_client \<Rightarrow> bool" where
  "zero_baseline c \<longleftrightarrow> mc_prev_ts_ns c = 0 \<or>
     mc_prev_xmit c = 0 \<and> mc_prev_rcv c = 0 \<and> mc_prev_wait c = 0 \<and> mc_cached_util c = 0"

lemma zero_sample:
  assumes "query_port_counters lib h now (c\<lparr>mc_last_query_ns := now\<rparr>) =
      Some (no_counters\<lparr>pc_extended := True, pc_valid := True\<rparr>)" and "zero_baseline c"
  shows "fst (sample_util lib h now peak c) = Some 0 \<and> zero_baseline (snd (sample_util lib h now peak c)) \<and>
    mc_ready (snd (sample_util lib h now peak c)) = mc_ready c \<and>
    mc_use_mad (snd (sample_util lib h now peak c)) = mc_use_mad c \<and>
    mc_fd (snd (sample_util lib h now peak c)) = mc_fd c \<and>
    mc_agent (snd (sample_util lib h now peak c)) = mc_agent c \<and>
    mc_port (snd (sample_util lib h now peak c)) = mc_port c"
  using assms
  by (auto simp: sample_util_def mad_record_def mad_util_def mad_xmit_bytes_def mad_rcv_bytes_def rate_gbps_def
      no_counters_def zero_baseline_def clamp_def Let_def)

lemma perf_answer_query:
  assumes "mc_ready c" and "mc_use_mad c" and "0 \<le> mc_fd c" and "um_alloc l"
    and "\<exists>mad. um_exchange l (mc_fd c) (mc_agent c) (mad_request True now (mc_port c)) = Some mad \<and> perf_answer mad"
  shows "query_port_counters (Some l) h now c = Some (no_counters\<lparr>pc_extended := True, pc_valid := True\<rparr>)"
  using assms perf_answer_read [of l c _ now] by (auto simp: query_port_counters_def query_via_mad_def)

section \<open>Properties\<close>

text \<open>
  C31. The client looks for the counters in the reserved bytes of the answer.  When its port answers every
  extended request with status 0 and, as a datagram of the performance class has it, forty zero bytes
  between the header and the data, then whatever the data are the query returns counters that are all
  zero, marked valid, so the sysfs counters are never asked, and every sample of the client, from its
  first on, whenever it is taken and for whatever peak, says that the link is idle.
\<close>
theorem mad_reads_reserved_bytes:
  assumes "mc_ready c" and "mc_use_mad c" and "0 \<le> mc_fd c" and "um_alloc l" and "mc_prev_ts_ns c = 0"
    and "\<forall>now. \<exists>mad. um_exchange l (mc_fd c) (mc_agent c) (mad_request True now (mc_port c)) = Some mad \<and>
      64 \<le> length mad \<and> take 2 (drop 4 mad) = [0, 0] \<and> take 40 (drop 24 mad) = replicate 40 0"
  shows "query_port_counters (Some l) h now c = Some (no_counters\<lparr>pc_extended := True, pc_valid := True\<rparr>) \<and>
    sample_run (Some l) h ts c = replicate (length ts) (Some 0)"
proof
  have answers: "\<exists>mad. um_exchange l (mc_fd c) (mc_agent c) (mad_request True now (mc_port c)) = Some mad \<and> perf_answer mad"
    for now using assms(6) by (auto simp: perf_answer_def)
  show "query_port_counters (Some l) h now c = Some (no_counters\<lparr>pc_extended := True, pc_valid := True\<rparr>)"
    by (rule perf_answer_query [OF assms(1-4) answers])
  have "zero_baseline c" using assms(5) by (simp add: zero_baseline_def)
  with assms(1-4) answers show "sample_run (Some l) h ts c = replicate (length ts) (Some 0)"
  proof (induction ts arbitrary: c)
    case (Cons t ts)
    obtain now peak where t: "t = (now, peak)" by (rule prod.exhaust)
    have "query_port_counters (Some l) h now (c\<lparr>mc_last_query_ns := now\<rparr>) =
        Some (no_counters\<lparr>pc_extended := True, pc_valid := True\<rparr>)"
      by (rule perf_answer_query) (use Cons.prems in simp_all)
    note s = zero_sample [OF this Cons.prems(6), of peak]
    have "sample_run (Some l) h ts (snd (sample_util (Some l) h now peak c)) = replicate (length ts) (Some 0)"
      by (rule Cons.IH) (use Cons.prems s in simp_all)
    with s show ?case by (simp add: t case_prod_unfold Let_def)
  qed simp
qed

text \<open>A client with an open port, and a library whose port has sent and received 2^32 bytes at any time.\<close>

definition open_client :: ib_mad_client where
  "open_client = mad_client_blank\<lparr>mc_ready := True, mc_use_mad := True, mc_fd := 3, mc_agent := 0\<rparr>"

definition busy_lib :: umad_lib where
  "busy_lib = \<lparr>um_init = True, um_open_port = (\<lambda>_ _. 3), um_register = (\<lambda>_. 0), um_alloc = True,
     um_exchange = (\<lambda>_ _ _. Some (replicate 64 0 @ replicate 8 0 @ be_bytes 8 (2 ^ 32) @ be_bytes 8 (2 ^ 32) @ replicate 168 0))\<rparr>"

definition no_files :: host_files where
  "no_files = \<lparr>hf_text = (\<lambda>_. None), hf_dir = (\<lambda>_. None)\<rparr>"

theorem mad_reads_reserved_bytes_witness:
  "sample_run (Some busy_lib) no_files [(1, 50), (4000000, 50), (9000000, 50)] open_client = [Some 0, Some 0, Some 0]"
proof -
  have "take 2 (drop 4 (replicate 64 0 @ xs)) = [0, 0 :: u8]" "take 40 (drop 24 (replicate 64 0 @ xs)) = replicate 40 (0 :: u8)"
    for xs by (simp_all add: numeral_2_eq_2)
  then have "\<forall>now. \<exists>mad. um_exchange busy_lib (mc_fd open_client) (mc_agent open_client)
      (mad_request True now (mc_port open_client)) = Some mad \<and>
      64 \<le> length mad \<and> take 2 (drop 4 mad) = [0, 0] \<and> take 40 (drop 24 mad) = replicate 40 0"
    by (simp add: busy_lib_def del: be_bytes.simps)
  from mad_reads_reserved_bytes [OF _ _ _ _ _ this, of no_files 1 "[(1, 50), (4000000, 50), (9000000, 50)]"]
  show ?thesis by (simp add: open_client_def mad_client_blank_def busy_lib_def)
qed

text \<open>
  Sampling is rate limited: within two milliseconds of the last query a client that has a
  baseline answers with the utilisation it computed then, for whatever peak it is asked, and neither
  asks the port nor changes; after that time it asks the port once and remembers when.
\<close>

theorem mad_rate_limit:
  "(now - mc_last_query_ns c < 2000000 \<and> mc_prev_ts_ns c \<noteq> 0 \<longrightarrow>
      sample_util lib h now peak c = (Some (mc_cached_util c), c)) \<and>
   (\<not> now - mc_last_query_ns c < 2000000 \<longrightarrow>
      mc_last_query_ns (snd (sample_util lib h now peak c)) = now)"
  by (simp add: sample_util_def mad_record_def Let_def split: option.split)

theorem mad_rate_limit_witness:
  "sample_util None no_files 2000001 50 (open_client\<lparr>mc_last_query_ns := 1000000, mc_prev_ts_ns := 1000000,
       mc_cached_util := 0.3\<rparr>) =
     (Some 0.3, open_client\<lparr>mc_last_query_ns := 1000000, mc_prev_ts_ns := 1000000, mc_cached_util := 0.3\<rparr>) \<and>
   mc_last_query_ns (snd (sample_util None no_files 9000000 50 open_client)) = 9000000"
  using mad_rate_limit [of 2000001 "open_client\<lparr>mc_last_query_ns := 1000000, mc_prev_ts_ns := 1000000,
       mc_cached_util := 0.3\<rparr>" None no_files 50] mad_rate_limit [of 9000000 open_client None no_files 50]
  by (simp add: open_client_def mad_client_blank_def)

lemma wrapped_words:
  assumes "v < p" and "p < 2 ^ 32"
  shows "2 ^ 63 \<le> real (unat (v * 4 - p * 4 :: u64))"
proof -
  have p: "unat p < 2 ^ 32"
    using assms(2) by (simp add: word_less_nat_alt)
  have v: "unat v < unat p"
    using assms(1) by (simp add: word_less_nat_alt)
  have p4: "unat (p * 4) = unat p * 4" and v4: "unat (v * 4) = unat v * 4"
    using p v by (auto simp: unat_word_ariths)
  have "unat (v * 4 - p * 4) = 2 ^ 64 - (unat p * 4 - unat v * 4)"
    using v p unat_sub_if_size [of "v * 4" "p * 4"] by (simp add: p4 v4 word_size)
  also have "\<dots> \<ge> 2 ^ 63"
    using p v by simp
  finally have "2 ^ 63 \<le> unat (v * 4 - p * 4)" .
  then show ?thesis
    by (metis of_nat_le_iff of_nat_numeral of_nat_power)
qed

lemma clamp_saturated: "1 \<le> x \<Longrightarrow> clamp (if b then max x y else x) 0 0.99 = 0.99"
  by (auto simp: clamp_def)

text \<open>
  C37. When only the 32-bit counters are there, their wrap is taken for traffic: the difference is
  formed in 64 bits, so a port whose transmit counter has wrapped once since the last reading is
  reported saturated, however little it sent.
\<close>

theorem mad_wrap_saturates:
  assumes "\<not> now - mc_last_query_ns c < 2000000" and "mc_prev_ts_ns c \<noteq> 0"
    and "query_port_counters lib h now (c\<lparr>mc_last_query_ns := now\<rparr>) = Some r"
    and "\<not> pc_extended r" and "mc_prev_xmit c = p * 4" and "p < 2 ^ 32" and "pc_xmit_data r < p"
    and "seconds_between (mc_prev_ts_ns c) now \<le> 1" and "peak \<le> 10 ^ 6"
  shows "fst (sample_util lib h now peak c) = Some 0.99"
proof -
  define D where "D = real (unat (mad_xmit_bytes r - mc_prev_xmit c))"
  define E where "E = real (unat (mad_rcv_bytes r - mc_prev_rcv c))"
  define dt where "dt = seconds_between (mc_prev_ts_ns c) now"
  define m where "m = max peak 1"
  have D: "2 ^ 63 \<le> D"
    using wrapped_words [OF assms(7,6)] assms(4,5) by (simp add: D_def mad_xmit_bytes_def)
  have E: "0 \<le> E" by (simp add: E_def)
  have dt: "0 \<le> dt" "dt \<le> 1"
    using assms(8) by (simp_all add: dt_def seconds_between_def)
  have m: "1 \<le> m" "m \<le> 10 ^ 6"
    using assms(9) by (auto simp: m_def)
  have den: "0 < dt * 10 ^ 9 + 1 / 10 ^ 12" "dt * 10 ^ 9 + 1 / 10 ^ 12 \<le> 10 ^ 9 + 1"
    using dt by (simp_all add: add_nonneg_pos)
  have "10 ^ 6 * (10 ^ 9 + 1) \<le> D + E"
    using D E by simp
  then have "m * (dt * 10 ^ 9 + 1 / 10 ^ 12) \<le> D + E"
    using m den mult_mono [of m "10 ^ 6" "dt * 10 ^ 9 + 1 / 10 ^ 12" "10 ^ 9 + 1"] by linarith
  then have rate: "1 \<le> rate_gbps (D + E) dt / m"
    using m den by (simp add: rate_gbps_def le_divide_eq mult.commute)
  then have "mad_util peak now r c = 0.99"
    unfolding mad_util_def Let_def D_def [symmetric] E_def [symmetric] dt_def [symmetric] m_def [symmetric]
    by (rule clamp_saturated)
  then show ?thesis
    using assms(1-3) by (simp add: sample_util_def Let_def mad_util_def mad_record_def)
qed

text \<open>A port with 32-bit counters in sysfs; \<open>files\<close> holds the transmit and receive words.\<close>

definition port_files :: "string \<Rightarrow> u64 \<Rightarrow> u64 \<Rightarrow> host_files" where
  "port_files base x r = \<lparr>hf_text = (\<lambda>p. if p = base @ ''/counters/port_xmit_data'' then Some (dec_string (unat x))
                    else if p = base @ ''/counters/port_rcv_data'' then Some (dec_string (unat r)) else None),
     hf_dir = (\<lambda>_. None)\<rparr>"

definition wrapped_client :: ib_mad_client where
  "wrapped_client = mad_client_blank\<lparr>mc_ready := True, mc_sysfs_base := ''/p'', mc_prev_xmit := 4294967295 * 4,
     mc_prev_ts_ns := 1000, mc_last_query_ns := 1000\<rparr>"

lemma wrapped_query:
  "\<exists>r. query_port_counters None (port_files ''/p'' 5 0) now (wrapped_client\<lparr>mc_last_query_ns := now\<rparr>) = Some r \<and>
       \<not> pc_extended r \<and> pc_xmit_data r = 5"
  using parse_dec_string [of 5] parse_dec_string [of 0]
  by (simp add: query_port_counters_def query_via_sysfs_def wrapped_client_def mad_client_blank_def
      port_files_def read_u64_file_def)

theorem mad_wrap_saturates_witness:
  "fst (sample_util None (port_files ''/p'' 5 0) 5000000 50 wrapped_client) = Some 0.99"
proof -
  obtain r where "query_port_counters None (port_files ''/p'' 5 0) 5000000
      (wrapped_client\<lparr>mc_last_query_ns := 5000000\<rparr>) = Some r" "\<not> pc_extended r" "pc_xmit_data r = 5"
    using wrapped_query by blast
  then show ?thesis
    by (intro mad_wrap_saturates [where r = r and p = 4294967295])
       (simp_all add: wrapped_client_def mad_client_blank_def seconds_between_def)
qed

end
