(* ===== verification/Pmu.thy ===== *)
theory Pmu
  imports Hw_Counters "HOL-Library.Sublist"
begin

text \<open>
  The PMU counter client and its backend, \<open>telemetry/pmu_counters.hpp\<close> and
  \<open>telemetry/pmu_counters.cpp\<close>: the discovery of uncore PMUs and of the configuration of their events,
  the three ways of opening a client and of sampling it.

  \<open>perf_event_open\<close> and \<open>read\<close> on its descriptors are the \<open>perf_events\<close> argument.
\<close>

section \<open>Data\<close>

record perf_events =
  pf_open :: "u32 \<Rightarrow> u64 \<Rightarrow> int"
  pf_read :: "int \<Rightarrow> u64 option"

record pmu_sample =
  ps_read_bw :: real
  ps_write_bw :: real
  ps_util :: real
  ps_valid :: bool

record pmu_client =
  pm_ready :: bool
  pm_backend_name :: string
  pm_binding :: edge_hw_binding
  pm_fd_read :: int
  pm_fd_write :: int
  pm_prev_read :: u64
  pm_prev_write :: u64
  pm_prev_ts_ns :: u64
  pm_read_path :: string
  pm_write_path :: string
  pm_nvml :: bool

definition default_binding :: edge_hw_binding where
  "default_binding = \<lparr>hb_edge_idx = 0, hb_fabric = InfiniBand, hb_gpu_a = -1, hb_gpu_b = -1,
     hb_nvlink_id = -1, hb_ib_device = [], hb_ib_port = 1, hb_pci_sysfs = [], hb_peak_bw_gbps = 50\<rparr>"

definition pmu_client_fresh :: pmu_client where
  "pmu_client_fresh = \<lparr>pm_ready = False, pm_backend_name = ''none'', pm_binding = default_binding,
     pm_fd_read = -1, pm_fd_write = -1, pm_prev_read = 0, pm_prev_write = 0, pm_prev_ts_ns = 0,
     pm_read_path = [], pm_write_path = [], pm_nvml = False\<rparr>"

section \<open>Scanning text\<close>

text \<open>
  \<open>sscanf\<close> with \<open>%llx\<close>: white space, a sign, a \<open>0x\<close> prefix (which needs a digit after it) and hexadecimal
  digits; a number that does not fit saturates.
\<close>

definition scan_hex :: "string \<Rightarrow> u64 option" where
  "scan_hex s =
     (let t = dropWhile is_space s;
          neg = (t \<noteq> [] \<and> hd t = CHR ''-'');
          t1 = (if t \<noteq> [] \<and> (hd t = CHR ''-'' \<or> hd t = CHR ''+'') then tl t else t);
          t2 = (if prefix ''0x'' t1 \<or> prefix ''0X'' t1 then drop 2 t1 else t1)
      in case read_digits 16 t2 of
           None \<Rightarrow> None
         | Some n \<Rightarrow> if 2 ^ 64 \<le> n then Some (- 1) else Some (if neg then - of_nat n else of_nat n))"

text \<open>A literal at the start of the format must match.\<close>

definition scan_after :: "string \<Rightarrow> string \<Rightarrow> u64 option" where
  "scan_after lit s = (if prefix lit s then scan_hex (drop (length lit) s) else None)"

fun find_sub :: "string \<Rightarrow> string \<Rightarrow> string option" where
  "find_sub pat [] = (if pat = [] then Some [] else None)"
| "find_sub pat (c # cs) = (if prefix pat (c # cs) then Some (c # cs) else find_sub pat cs)"

definition first_some :: "'a option \<Rightarrow> 'a option \<Rightarrow> 'a option" where
  "first_some a b = (case a of None \<Rightarrow> b | Some x \<Rightarrow> Some x)"

definition event_config :: "string \<Rightarrow> u64 option" where
  "event_config line =
     (case first_some (scan_after ''event='' line) (scan_after ''event=0x'' line) of
        Some ev \<Rightarrow>
          let um = (case find_sub ''umask='' line of
                 None \<Rightarrow> 0
               | Some rest \<Rightarrow> (case first_some (scan_after ''umask='' rest) (scan_after ''umask=0x'' rest) of
                   None \<Rightarrow> 0
                 | Some u \<Rightarrow> u))
          in Some (ev OR push_bit 8 um)
      | None \<Rightarrow> scan_hex line)"

text \<open>\<open>%lf\<close> on the plain decimal numbers that sysfs prints.\<close>

definition scan_double :: "string \<Rightarrow> real option" where
  "scan_double s =
     (let t = dropWhile is_space s;
          neg = (t \<noteq> [] \<and> hd t = CHR ''-'');
          t1 = (if t \<noteq> [] \<and> (hd t = CHR ''-'' \<or> hd t = CHR ''+'') then tl t else t);
          ip = takeWhile (\<lambda>c. digit_value c < 10) t1;
          r = drop (length ip) t1;
          fp = (if r \<noteq> [] \<and> hd r = CHR ''.'' then takeWhile (\<lambda>c. digit_value c < 10) (tl r) else []);
          v = real (fold (\<lambda>c n. 10 * n + digit_value c) (ip @ fp) 0) / 10 ^ length fp
      in if ip = [] \<and> fp = [] then None else Some (if neg then - v else v))"

section \<open>Discovery\<close>

definition event_source_dir :: string where
  "event_source_dir = ''/sys/bus/event_source/devices''"

fun first_uncore :: "host_files \<Rightarrow> string list \<Rightarrow> (u32 \<times> string) option" where
  "first_uncore h [] = None"
| "first_uncore h (name # names) =
     (if \<not> prefix ''uncore_iio'' name \<and> \<not> prefix ''uncore_imc'' name then first_uncore h names
      else case read_u64_file h (event_source_dir @ ''/'' @ name @ ''/type'') of
        None \<Rightarrow> first_uncore h names
      | Some t \<Rightarrow> Some (ucast t, name))"

definition find_uncore_iio_type :: "host_files \<Rightarrow> (u32 \<times> string) option" where
  "find_uncore_iio_type h =
     (case hf_dir h event_source_dir of None \<Rightarrow> None | Some names \<Rightarrow> first_uncore h names)"

definition find_uncore_event_config :: "host_files \<Rightarrow> string \<Rightarrow> string \<Rightarrow> u64 option" where
  "find_uncore_event_config h pmu event_name =
     (case hf_text h (event_source_dir @ ''/'' @ pmu @ ''/events/'' @ event_name) of
        None \<Rightarrow> None
      | Some text \<Rightarrow> event_config (case first_line text of None \<Rightarrow> [] | Some l \<Rightarrow> l))"

fun first_event :: "host_files \<Rightarrow> string \<Rightarrow> string list \<Rightarrow> u64 option" where
  "first_event h pmu [] = None"
| "first_event h pmu (n # ns) = first_some (find_uncore_event_config h pmu n) (first_event h pmu ns)"

section \<open>Opening\<close>

definition pmu_close :: "pmu_client \<Rightarrow> pmu_client" where
  "pmu_close c = c\<lparr>pm_fd_read := (if 0 \<le> pm_fd_read c then -1 else pm_fd_read c),
                   pm_fd_write := (if 0 \<le> pm_fd_write c then -1 else pm_fd_write c),
                   pm_nvml := False, pm_ready := False\<rparr>"

definition open_perf_uncore :: "perf_events \<Rightarrow> host_files \<Rightarrow> pmu_client \<Rightarrow> bool \<times> pmu_client" where
  "open_perf_uncore pf h c =
     (case find_uncore_iio_type h of
        None \<Rightarrow> (False, c)
      | Some (ty, pmu) \<Rightarrow>
          let r0 = first_event h pmu [''data_read'', ''read_inserts'', ''event_data_read''];
              w0 = first_event h pmu [''data_write'', ''write_inserts'', ''event_data_write''];
              (r, w) = (if r0 = None \<and> w0 = None then (Some 0x01, Some 0x02) else (r0, w0));
              open_one = (\<lambda>cfg. let fd = pf_open pf ty cfg in if fd < 0 then -1 else fd);
              c' = c\<lparr>pm_fd_read := (case r of None \<Rightarrow> pm_fd_read c | Some cfg \<Rightarrow> open_one cfg),
                     pm_fd_write := (case w of None \<Rightarrow> pm_fd_write c | Some cfg \<Rightarrow> open_one cfg)\<rparr>
          in (0 \<le> pm_fd_read c' \<or> 0 \<le> pm_fd_write c', c'))"

text \<open>
  The directory loop leaves the paths of the last PMU with a readable \<open>cpumask\<close> it looked at.  When it
  breaks out it has closed the directory, which is then closed again; the model goes on.
\<close>

fun uncore_paths :: "host_files \<Rightarrow> string list \<Rightarrow> string \<times> string \<Rightarrow> string \<times> string" where
  "uncore_paths h [] rw = rw"
| "uncore_paths h (name # names) rw =
     (let base = event_source_dir @ ''/'' @ name;
          r = base @ ''/events/data_read''; w = base @ ''/events/data_write''
      in if \<not> prefix ''uncore_'' name \<or> \<not> file_opens h (base @ ''/cpumask'') then uncore_paths h names rw
         else if file_opens h r \<or> file_opens h w then (r, w)
         else uncore_paths h names (r, w))"

definition open_sysfs_uncore :: "host_files \<Rightarrow> pmu_client \<Rightarrow> bool \<times> pmu_client" where
  "open_sysfs_uncore h c =
     (case hf_dir h event_source_dir of
        None \<Rightarrow> (False, c)
      | Some names \<Rightarrow>
          let (r, w) = uncore_paths h names (pm_read_path c, pm_write_path c);
              c1 = c\<lparr>pm_read_path := r, pm_write_path := w\<rparr>;
              pci = hb_pci_sysfs (pm_binding c)
          in if pci \<noteq> [] \<and>
                (case read_u64_file h (pci @ ''/current_link_width'') of None \<Rightarrow> False | Some width \<Rightarrow> 0 < width)
             then (True, c1\<lparr>pm_read_path := pci @ ''/aer_dev_correctable''\<rparr>)
             else (False, c1))"

definition open_nvml_pcie :: "nvml_lib option \<Rightarrow> pmu_client \<Rightarrow> bool \<times> pmu_client" where
  "open_nvml_pcie lib c =
     (if hb_gpu_a (pm_binding c) < 0 then (False, c)
      else case lib of
        None \<Rightarrow> (False, c\<lparr>pm_nvml := False\<rparr>)
      | Some l \<Rightarrow> if nv_pcie l = None \<or> \<not> nv_init l then (False, c\<lparr>pm_nvml := False\<rparr>)
                  else (True, c\<lparr>pm_nvml := True\<rparr>))"

definition pmu_open ::
  "perf_events \<Rightarrow> nvml_lib option \<Rightarrow> host_files \<Rightarrow> edge_hw_binding \<Rightarrow> pmu_client \<Rightarrow> bool \<times> pmu_client"
where
  "pmu_open pf lib h b c0 =
     (let c = (pmu_close c0)\<lparr>pm_binding := b\<rparr>;
          (ok1, c1) = open_perf_uncore pf h c;
          (ok2, c2) = open_sysfs_uncore h c1;
          (ok3, c3) = open_nvml_pcie lib c2
      in if ok1 then (True, c1\<lparr>pm_backend_name := ''perf_uncore'', pm_ready := True\<rparr>)
         else if ok2 then (True, c2\<lparr>pm_backend_name := ''sysfs_uncore'', pm_ready := True\<rparr>)
         else if ok3 then (True, c3\<lparr>pm_backend_name := ''nvml_pcie'', pm_ready := True\<rparr>)
         else (False, c3\<lparr>pm_ready := False\<rparr>))"

section \<open>Sampling\<close>

definition read_fd :: "perf_events \<Rightarrow> int \<Rightarrow> u64 option" where
  "read_fd pf fd = (if fd < 0 then None else pf_read pf fd)"

definition or_zero :: "u64 option \<Rightarrow> u64" where
  "or_zero v = (case v of None \<Rightarrow> 0 | Some x \<Rightarrow> x)"

text \<open>A count stands for a cache line of 64 bytes.\<close>

definition perf_gbps :: "u64 option \<Rightarrow> u64 \<Rightarrow> real \<Rightarrow> real" where
  "perf_gbps v prev dt = rate_gbps (case v of None \<Rightarrow> 0 | Some x \<Rightarrow> real (unat (x - prev)) * 64) dt"

definition sample_perf :: "perf_events \<Rightarrow> u64 \<Rightarrow> pmu_client \<Rightarrow> pmu_sample option \<times> pmu_client" where
  "sample_perf pf now c =
     (let r = read_fd pf (pm_fd_read c); w = read_fd pf (pm_fd_write c);
          c' = c\<lparr>pm_prev_read := or_zero r, pm_prev_write := or_zero w, pm_prev_ts_ns := now\<rparr>
      in if r = None \<and> w = None then (None, c)
         else if pm_prev_ts_ns c = 0
         then (Some \<lparr>ps_read_bw = 0, ps_write_bw = 0, ps_util = 0, ps_valid = True\<rparr>, c')
         else
           let dt = seconds_between (pm_prev_ts_ns c) now;
               rb = perf_gbps r (pm_prev_read c) dt; wb = perf_gbps w (pm_prev_write c) dt
           in (Some \<lparr>ps_read_bw = rb, ps_write_bw = wb,
                     ps_util = util_of_rate (rb + wb) (hb_peak_bw_gbps (pm_binding c)), ps_valid = True\<rparr>, c'))"

definition link_gts :: "host_files \<Rightarrow> string \<Rightarrow> real" where
  "link_gts h pci =
     (case hf_text h (pci @ ''/current_link_speed'') of
        None \<Rightarrow> 16
      | Some text \<Rightarrow> (case first_line text of
          None \<Rightarrow> 16
        | Some l \<Rightarrow> (case scan_double l of None \<Rightarrow> 16 | Some v \<Rightarrow> v)))"

text \<open>The utilisation from the growth of the error counter, and the baseline for the next reading.\<close>

definition aer_util :: "u64 option \<Rightarrow> u64 \<Rightarrow> pmu_client \<Rightarrow> real \<times> u64" where
  "aer_util aer now c =
     (case aer of
        None \<Rightarrow> (0.05, pm_prev_read c)
      | Some a \<Rightarrow>
          if a < pm_prev_read c then (0.05, pm_prev_read c)
          else
            let rate = real (unat (a - pm_prev_read c)) / (seconds_between (pm_prev_ts_ns c) now + 1 / 10 ^ 12)
            in (clamp (0.05 + rate / 10 ^ 3) 0 0.99, a))"

definition sample_sysfs :: "host_files \<Rightarrow> u64 \<Rightarrow> pmu_client \<Rightarrow> pmu_sample option \<times> pmu_client" where
  "sample_sysfs h now c =
     (let pci = hb_pci_sysfs (pm_binding c); bpeak = hb_peak_bw_gbps (pm_binding c);
          width = u64_left h (pci @ ''/current_link_width'');
          peak = link_gts h pci * real (unat (max width 1)) * 0.98 / 8;
          aer = (if pm_read_path c = [] then None else read_u64_file h (pm_read_path c))
      in if pm_prev_ts_ns c = 0
         then (Some \<lparr>ps_read_bw = 0, ps_write_bw = 0, ps_util = 0.05, ps_valid = True\<rparr>,
               c\<lparr>pm_prev_read := (if pm_read_path c = [] then 0 else u64_left h (pm_read_path c)), pm_prev_ts_ns := now\<rparr>)
         else
           let (u, base) = aer_util aer now c;
               util = (if 0 < peak \<and> 0 < bpeak then min 0.99 (u * (bpeak / peak)) else u)
           in (Some \<lparr>ps_read_bw = util * bpeak * 0.5, ps_write_bw = util * bpeak * 0.5, ps_util = util,
                     ps_valid = True\<rparr>,
               c\<lparr>pm_prev_read := base, pm_prev_ts_ns := now\<rparr>))"

definition sample_nvml :: "nvml_lib option \<Rightarrow> pmu_client \<Rightarrow> pmu_sample option" where
  "sample_nvml lib c =
     (case lib of
        None \<Rightarrow> None
      | Some l \<Rightarrow> (case nv_pcie l of
          None \<Rightarrow> None
        | Some thr \<Rightarrow>
            let gpu = hb_gpu_a (pm_binding c)
            in case pcie_throughput l thr gpu 0 of
                 None \<Rightarrow> None
               | Some tx \<Rightarrow>
                   let rx = (case pcie_throughput l thr gpu 1 of None \<Rightarrow> 0 | Some r \<Rightarrow> r)
                   in Some \<lparr>ps_read_bw = rx, ps_write_bw = tx,
                            ps_util = util_of_rate (rx + tx) (hb_peak_bw_gbps (pm_binding c)),
                            ps_valid = True\<rparr>))"

definition pmu_client_sample ::
  "perf_events \<Rightarrow> nvml_lib option \<Rightarrow> host_files \<Rightarrow> u64 \<Rightarrow> pmu_client \<Rightarrow> pmu_sample option \<times> pmu_client"
where
  "pmu_client_sample pf lib h now c =
     (if \<not> pm_ready c then (None, c)
      else if 0 \<le> pm_fd_read c \<or> 0 \<le> pm_fd_write c then sample_perf pf now c
      else if pm_nvml c then (sample_nvml lib c, c)
      else sample_sysfs h now c)"

section \<open>The backend\<close>

record pmu_backend =
  pk_bindings :: "edge_hw_binding list"
  pk_clients :: "pmu_client option list"
  pk_name :: string

definition pmu_backend_fresh :: pmu_backend where
  "pmu_backend_fresh = \<lparr>pk_bindings = [], pk_clients = [], pk_name = ''pmu''\<rparr>"

definition pmu_bind_edge ::
  "perf_events \<Rightarrow> nvml_lib option \<Rightarrow> host_files \<Rightarrow> edge_hw_binding \<Rightarrow> pmu_backend \<Rightarrow> pmu_backend"
where
  "pmu_bind_edge pf lib h b s =
     (if hb_fabric b \<noteq> PCIe \<and> hb_fabric b \<noteq> CXL then s\<lparr>pk_clients := pk_clients s @ [None]\<rparr>
      else
        let (ok, c) = pmu_open pf lib h b pmu_client_fresh
        in if \<not> ok then s\<lparr>pk_clients := pk_clients s @ [None]\<rparr>
           else s\<lparr>pk_clients := pk_clients s @ [Some c], pk_name := pm_backend_name c\<rparr>)"

definition pmu_backend_init ::
  "perf_events \<Rightarrow> nvml_lib option \<Rightarrow> host_files \<Rightarrow> edge_hw_binding list \<Rightarrow> pmu_backend \<Rightarrow> bool \<times> pmu_backend"
where
  "pmu_backend_init pf lib h bs s =
     (let s' = fold (pmu_bind_edge pf lib h) bs (s\<lparr>pk_bindings := bs, pk_clients := []\<rparr>)
      in (list_ex (\<lambda>c. c \<noteq> None) (pk_clients s'), s'))"

definition pmu_backend_sample ::
  "perf_events \<Rightarrow> nvml_lib option \<Rightarrow> host_files \<Rightarrow> u64 \<Rightarrow> u32 \<Rightarrow> pmu_backend \<Rightarrow> real option \<times> pmu_backend"
where
  "pmu_backend_sample pf lib h now e s =
     (if length (pk_clients s) \<le> unat e then (None, s)
      else case pk_clients s ! unat e of
        None \<Rightarrow> (None, s)
      | Some c \<Rightarrow>
          let (r, c') = pmu_client_sample pf lib h now c;
              s' = s\<lparr>pk_clients := (pk_clients s)[unat e := Some c']\<rparr>
          in case r of
               None \<Rightarrow> (None, s')
             | Some ps \<Rightarrow> if ps_valid ps then (Some (ps_util ps), s') else (None, s'))"

section \<open>Utilisations stay in range\<close>

lemma aer_util_range: "util_ok (fst (aer_util aer now c))"
  using util_ok_values(2) util_ok_clamp by (auto simp only: aer_util_def Let_def fst_conv split: option.splits if_splits)

lemma util_ok_scale: "util_ok u \<Longrightarrow> 0 < a \<Longrightarrow> 0 < b \<Longrightarrow> util_ok (min 0.99 (u * (a / b)))"
  by (auto simp: util_ok_def min_def)

lemma sample_sysfs_range: "fst (sample_sysfs h now c) = Some ps \<Longrightarrow> util_ok (ps_util ps)"
proof -
  assume s: "fst (sample_sysfs h now c) = Some ps"
  define bpeak where "bpeak = hb_peak_bw_gbps (pm_binding c)"
  define pci where "pci = hb_pci_sysfs (pm_binding c)"
  define peak where "peak = link_gts h pci
    * real (unat (max (u64_left h (pci @ ''/current_link_width'')) 1)) * 0.98 / 8"
  define u where "u = fst (aer_util (if pm_read_path c = [] then None else read_u64_file h (pm_read_path c)) now c)"
  have "util_ok (if 0 < peak \<and> 0 < bpeak then min 0.99 (u * (bpeak / peak)) else u)"
    using aer_util_range util_ok_scale by (auto simp: u_def)
  moreover have "ps_util ps = 0.05 \<or> ps_util ps = (if 0 < peak \<and> 0 < bpeak then min 0.99 (u * (bpeak / peak)) else u)"
    using s unfolding sample_sysfs_def Let_def case_prod_unfold
      bpeak_def [symmetric] pci_def [symmetric] peak_def [symmetric] u_def [symmetric]
    by (auto split: if_splits)
  ultimately show "util_ok (ps_util ps)"
    using util_ok_values(2) by (elim disjE) (simp_all only:)
qed

lemma sample_perf_range: "fst (sample_perf pf now c) = Some ps \<Longrightarrow> util_ok (ps_util ps)"
  by (auto simp: sample_perf_def Let_def split: if_splits)

lemma sample_nvml_range: "sample_nvml lib c = Some ps \<Longrightarrow> util_ok (ps_util ps)"
  by (auto simp: sample_nvml_def Let_def split: option.splits)

lemma pmu_backend_sample_range:
  assumes "fst (pmu_backend_sample pf lib h now e s) = Some u"
  shows "util_ok u"
  using assms sample_sysfs_range sample_perf_range sample_nvml_range
  by (auto simp: pmu_backend_sample_def pmu_client_sample_def case_prod_unfold Let_def
           split: option.splits if_splits)

interpretation pmu: counter_source "\<lambda>(pf, lib, h, now). pmu_backend_sample pf lib h now" "\<lambda>_. True"
  using pmu_backend_sample_range by unfold_locales auto

section \<open>Event configurations are read back\<close>

definition hex_digit :: "nat \<Rightarrow> char" where
  "hex_digit n = char_of (if n < 10 then 48 + n else 87 + n)"

fun hex_string :: "nat \<Rightarrow> string" where
  "hex_string n = (if n < 16 then [hex_digit n] else hex_string (n div 16) @ [hex_digit (n mod 16)])"

declare hex_string.simps [simp del]

lemma digit_value_hex_digit: "n < 16 \<Longrightarrow> digit_value (hex_digit n) = n"
  by (simp add: digit_value_def hex_digit_def Let_def)

lemma hex_string_digits: "c \<in> set (hex_string n) \<Longrightarrow> digit_value c < 16"
  by (induction n rule: hex_string.induct)
     (subst (asm) (2) hex_string.simps, auto simp: digit_value_hex_digit split: if_splits)

lemma hex_string_nonempty [simp]: "hex_string n \<noteq> []"
  by (subst hex_string.simps) simp

lemma hex_string_value: "fold (\<lambda>c m. 16 * m + digit_value c) (hex_string n) 0 = n"
proof (induction n rule: hex_string.induct)
  case (1 n)
  then show ?case
    by (subst hex_string.simps) (simp add: digit_value_hex_digit)
qed

lemma read_hex_string:
  assumes "rest = [] \<or> \<not> digit_value (hd rest) < 16"
  shows "read_digits 16 (hex_string n @ rest) = Some n"
proof -
  have "takeWhile (\<lambda>c. digit_value c < 16) (hex_string n @ rest) = hex_string n"
    using assms hex_string_digits by (cases rest) (simp_all add: takeWhile_append takeWhile_eq_all_conv)
  then show ?thesis
    unfolding read_digits_def Let_def by (simp only: hex_string_value hex_string_nonempty if_False)
qed

lemma scan_hex_string:
  assumes "rest = [] \<or> \<not> digit_value (hd rest) < 16"
  shows "scan_hex (''0x'' @ hex_string (unat w) @ rest) = Some w"
  using read_hex_string [OF assms, of "unat w"] unat_u64_less [of w]
  by (simp add: scan_hex_def is_space_def Let_def)

lemma find_sub_skip:
  assumes "CHR ''u'' \<notin> set pre"
  shows "find_sub ''umask='' (pre @ ''umask='' @ rest) = Some (''umask='' @ rest)"
  using assms by (induction pre) (auto simp: prefix_def)

lemma no_u_in_hex: "CHR ''u'' \<notin> set (hex_string n)"
  using hex_string_digits [of "CHR ''u''" n] by (auto simp: digit_value_def Let_def)

text \<open>
  An event description as the kernel prints it, \<open>event=0x..,umask=0x..\<close> with any 64-bit numbers,
  or without its mask, is parsed to the event's number combined with the mask shifted by eight bits.
\<close>

theorem event_config_roundtrip:
  "event_config (''event=0x'' @ hex_string (unat ev) @ '',umask=0x'' @ hex_string (unat um)) =
     Some (ev OR push_bit 8 um) \<and>
   event_config (''event=0x'' @ hex_string (unat ev)) = Some ev"
proof
  let ?line = "''event=0x'' @ hex_string (unat ev) @ '',umask=0x'' @ hex_string (unat um)"
  have ev: "scan_after ''event='' ?line = Some ev"
    using scan_hex_string [of "'',umask=0x'' @ hex_string (unat um)" ev]
    by (simp add: scan_after_def digit_value_def Let_def)
  have sub: "find_sub ''umask='' ?line = Some (''umask=0x'' @ hex_string (unat um))"
    using find_sub_skip [of "''event=0x'' @ hex_string (unat ev) @ '',''" "''0x'' @ hex_string (unat um)"]
      no_u_in_hex [of "unat ev"] by simp
  have um: "scan_after ''umask='' (''umask=0x'' @ hex_string (unat um)) = Some um"
    using scan_hex_string [of "[]" um] by (simp add: scan_after_def)
  show "event_config ?line = Some (ev OR push_bit 8 um)"
    unfolding event_config_def ev sub by (simp only: first_some_def option.case um Let_def)
next
  let ?line = "''event=0x'' @ hex_string (unat ev)"
  have ev: "scan_after ''event='' ?line = Some ev"
    using scan_hex_string [of "[]" ev] by (simp add: scan_after_def)
  have "find_sub pat l = None" if "CHR ''u'' \<notin> set l" "CHR ''u'' \<in> set pat" for pat l
    using that by (induction l) (auto dest!: set_mono_prefix subsetD [where c = "CHR ''u''"])
  then have sub: "find_sub ''umask='' ?line = None"
    using no_u_in_hex [of "unat ev"] by simp
  show "event_config ?line = Some ev"
    unfolding event_config_def ev sub by (simp add: first_some_def)
qed

end
