(* ===== verification/Telemetry.thy ===== *)
theory Telemetry
  imports Telemetry_Ring Ib_Mad Pmu
begin

text \<open>
  The telemetry daemon, \<open>TelemetryDaemon\<close> of \<open>telemetry/telemetry.hpp\<close> and \<open>telemetry/telemetry.cpp\<close>:
  the choice of backends, the reading of an edge, the injected values and the rounds of the collector
  thread.

  The thread itself is the sequence of rounds it makes: \<open>collect_round\<close> is the body of its loop, during
  which the machine may be another one for every edge.  The mutex makes \<open>set_simulated_util\<close> and the
  look at the injected values atomic.
\<close>

section \<open>Data\<close>

datatype backend_kind =
  Auto_kind | Nvml_kind | Ibverbs_kind | PcieSysfs_kind | Synthetic_kind | IbMad_kind | Pmu_kind

record telemetry_config =
  tc_preferred :: backend_kind
  tc_allow_synthetic :: bool
  tc_sample_hz :: u32

definition telemetry_config_default :: telemetry_config where
  "telemetry_config_default = \<lparr>tc_preferred = Auto_kind, tc_allow_synthetic = True, tc_sample_hz = 1000\<rparr>"

text \<open>What the backends read of the machine, and the steady clock.\<close>

record machine =
  hm_files :: host_files
  hm_nvml :: "nvml_lib option"
  hm_umad :: "umad_lib option"
  hm_perf :: perf_events
  hm_now :: u64

text \<open>The classes behind \<open>HwCounterBackend\<close>; the synthetic backend is held apart.\<close>

datatype hw_backend =
  NvmlBackend nvml_backend
| IbMadBackend ib_mad_backend
| IbverbsBackend ib_sysfs_backend
| PmuBackend pmu_backend
| PcieSysfsBackend pcie_backend

record 'g daemon =
  td_num_edges :: nat
  td_config :: telemetry_config
  td_ring :: ring_buffer
  td_running :: bool
  td_override_utils :: "real list"
  td_override_valid :: "bool list"
  td_bindings :: "edge_hw_binding list"
  td_backends :: "hw_backend list"
  td_synthetic :: "'g synthetic"
  td_using_hardware :: bool
  td_active_name :: string

definition daemon_fresh :: "nat \<Rightarrow> telemetry_config \<Rightarrow> 'g \<Rightarrow> 'g daemon" where
  "daemon_fresh n cfg g = \<lparr>td_num_edges = n, td_config = cfg, td_ring = ring_fresh, td_running = False,
     td_override_utils = replicate n 0, td_override_valid = replicate n False, td_bindings = [],
     td_backends = [], td_synthetic = \<lparr>sy_bindings = [], sy_state = [], sy_rng = g\<rparr>,
     td_using_hardware = False, td_active_name = ''none''\<rparr>"

section \<open>The backends through their common interface\<close>

fun backend_name :: "hw_backend \<Rightarrow> string" where
  "backend_name (NvmlBackend s) = ''nvml''"
| "backend_name (IbMadBackend s) = mb_name s"
| "backend_name (IbverbsBackend s) = ''ibverbs_sysfs''"
| "backend_name (PmuBackend s) = pk_name s"
| "backend_name (PcieSysfsBackend s) = ''pcie_sysfs''"

fun backend_available :: "machine \<Rightarrow> hw_backend \<Rightarrow> bool" where
  "backend_available m (NvmlBackend s) = nvml_available (hm_nvml m)"
| "backend_available m (IbMadBackend s) = file_opens (hm_files m) ''/sys/class/infiniband''"
| "backend_available m (IbverbsBackend s) = ib_sysfs_available (hm_files m)"
| "backend_available m (PmuBackend s) = True"
| "backend_available m (PcieSysfsBackend s) = pcie_available (hm_files m)"

fun backend_init :: "machine \<Rightarrow> edge_hw_binding list \<Rightarrow> hw_backend \<Rightarrow> bool \<times> hw_backend" where
  "backend_init m bs (NvmlBackend s) = map_prod id NvmlBackend (nvml_init (hm_nvml m) bs s)"
| "backend_init m bs (IbMadBackend s) =
     map_prod id IbMadBackend (mad_backend_init (hm_umad m) (hm_files m) bs s)"
| "backend_init m bs (IbverbsBackend s) = map_prod id IbverbsBackend (ib_sysfs_init (hm_files m) bs s)"
| "backend_init m bs (PmuBackend s) =
     map_prod id PmuBackend (pmu_backend_init (hm_perf m) (hm_nvml m) (hm_files m) bs s)"
| "backend_init m bs (PcieSysfsBackend s) = map_prod id PcieSysfsBackend (pcie_init (hm_files m) bs s)"

fun backend_sample :: "machine \<Rightarrow> u32 \<Rightarrow> hw_backend \<Rightarrow> real option \<times> hw_backend" where
  "backend_sample m e (NvmlBackend s) = map_prod id NvmlBackend (nvml_sample (hm_nvml m) (hm_now m) e s)"
| "backend_sample m e (IbMadBackend s) =
     map_prod id IbMadBackend (mad_backend_sample (hm_umad m) (hm_files m) (hm_now m) e s)"
| "backend_sample m e (IbverbsBackend s) =
     map_prod id IbverbsBackend (ib_sysfs_sample (hm_files m) (hm_now m) e s)"
| "backend_sample m e (PmuBackend s) =
     map_prod id PmuBackend (pmu_backend_sample (hm_perf m) (hm_nvml m) (hm_files m) (hm_now m) e s)"
| "backend_sample m e (PcieSysfsBackend s) = (pcie_sample (hm_files m) e s, PcieSysfsBackend s)"

section \<open>Selection\<close>

fun backend_candidates :: "backend_kind \<Rightarrow> hw_backend list" where
  "backend_candidates Nvml_kind = [NvmlBackend nvml_fresh]"
| "backend_candidates Ibverbs_kind = [IbverbsBackend ib_sysfs_fresh]"
| "backend_candidates IbMad_kind = [IbMadBackend mad_backend_fresh]"
| "backend_candidates PcieSysfs_kind = [PcieSysfsBackend \<lparr>pb_bindings = []\<rparr>]"
| "backend_candidates Pmu_kind = [PmuBackend pmu_backend_fresh]"
| "backend_candidates Synthetic_kind = []"
| "backend_candidates Auto_kind =
     [NvmlBackend nvml_fresh, IbMadBackend mad_backend_fresh, IbverbsBackend ib_sysfs_fresh,
      PmuBackend pmu_backend_fresh, PcieSysfsBackend \<lparr>pb_bindings = []\<rparr>]"

definition try_add :: "machine \<Rightarrow> hw_backend \<Rightarrow> 'g daemon \<Rightarrow> 'g daemon" where
  "try_add m b d =
     (if \<not> backend_available m b then d
      else
        let (ok, b') = backend_init m (td_bindings d) b
        in if \<not> ok then d
           else d\<lparr>td_active_name := backend_name b',
                  td_using_hardware := (backend_name b' \<noteq> ''synthetic'' \<or> td_using_hardware d),
                  td_backends := td_backends d @ [b']\<rparr>)"

fun joined_names :: "hw_backend list \<Rightarrow> string" where
  "joined_names [] = []"
| "joined_names [b] = backend_name b"
| "joined_names (b # bs) = backend_name b @ ''+'' @ joined_names bs"

definition select_backends :: "'g rng_ops \<Rightarrow> machine \<Rightarrow> 'g daemon \<Rightarrow> 'g daemon" where
  "select_backends R m d =
     (let d1 = fold (try_add m) (backend_candidates (tc_preferred (td_config d)))
                 (d\<lparr>td_backends := [], td_using_hardware := False\<rparr>);
          d2 = d1\<lparr>td_synthetic := snd (synthetic_init R (td_bindings d1) (td_synthetic d1))\<rparr>;
          allow = tc_allow_synthetic (td_config d)
      in if td_backends d2 = [] \<and> allow then d2\<lparr>td_active_name := ''synthetic''\<rparr>
         else if td_backends d2 \<noteq> []
         then d2\<lparr>td_active_name := joined_names (td_backends d2) @ (if allow then ''+synthetic'' else [])\<rparr>
         else d2)"

section \<open>Edges\<close>

text \<open>The lists are filled up together, each by as many entries as the fabrics lack.\<close>

fun pad_edges ::
  "nat \<Rightarrow> fabric_type list \<times> real list \<times> int list \<Rightarrow> fabric_type list \<times> real list \<times> int list"
where
  "pad_edges 0 (f, bw, rails) = (f, bw, rails)"
| "pad_edges (Suc k) (f, bw, rails) =
     pad_edges k (f @ [InfiniBand], bw @ [50], rails @ [int (Suc (length f) mod 2)])"

definition configure_edges ::
  "'g rng_ops \<Rightarrow> machine \<Rightarrow> fabric_type list \<Rightarrow> real list \<Rightarrow> int list \<Rightarrow> 'g daemon \<Rightarrow> 'g daemon"
where
  "configure_edges R m fabrics peak_bw rail_ids d =
     (let h = hm_files m;
          bs = bindings_from_fabrics h fabrics peak_bw rail_ids;
          bs' = (if length bs < td_num_edges d
                 then let (f, bw, rails) = pad_edges (td_num_edges d - length fabrics) (fabrics, peak_bw, rail_ids)
                      in bindings_from_fabrics h f bw rails
                 else bs)
      in select_backends R m (d\<lparr>td_bindings := bs'\<rparr>))"

definition start :: "'g rng_ops \<Rightarrow> machine \<Rightarrow> 'g daemon \<Rightarrow> 'g daemon" where
  "start R m d =
     (let n = td_num_edges d;
          d1 = (if td_bindings d = []
                then configure_edges R m (replicate n InfiniBand) (replicate n 50)
                       (map (\<lambda>i. int (i mod 2)) [0..<n]) d
                else d)
      in d1\<lparr>td_running := True\<rparr>)"

definition stop :: "'g daemon \<Rightarrow> 'g daemon" where
  "stop d = d\<lparr>td_running := False\<rparr>"

definition set_simulated_util :: "u32 \<Rightarrow> real \<Rightarrow> 'g daemon \<Rightarrow> 'g daemon" where
  "set_simulated_util e util d =
     (if length (td_override_utils d) \<le> unat e then d
      else d\<lparr>td_override_utils := (td_override_utils d)[unat e := clamp util 0 1],
             td_override_valid := (td_override_valid d)[unat e := True]\<rparr>)"

section \<open>Reading an edge\<close>

definition fabric_match :: "fabric_type \<Rightarrow> string \<Rightarrow> bool" where
  "fabric_match f n \<longleftrightarrow>
     f = NVLink \<and> n = ''nvml'' \<or>
     f = InfiniBand \<and> n \<in> {''ib_mad'', ''ib_sysfs'', ''ibverbs_sysfs''} \<or>
     (f = PCIe \<or> f = CXL) \<and>
       n \<in> {''perf_uncore'', ''sysfs_uncore'', ''nvml_pcie'', ''pmu'', ''pcie_sysfs'', ''nvml''}"

text \<open>With more than one backend only those of the edge's fabric are asked at first.\<close>

definition prefers :: "'g daemon \<Rightarrow> u32 \<Rightarrow> hw_backend \<Rightarrow> bool" where
  "prefers d e b \<longleftrightarrow>
     (let f = (if unat e < length (td_bindings d) then hb_fabric (td_bindings d ! unat e) else InfiniBand)
      in fabric_match f (backend_name b) \<or> \<not> 1 < length (td_backends d))"

text \<open>The first of the backends that are asked and answer.\<close>

fun ask_backends ::
  "(hw_backend \<Rightarrow> bool) \<Rightarrow> machine \<Rightarrow> u32 \<Rightarrow> hw_backend list \<Rightarrow> real option \<times> hw_backend list"
where
  "ask_backends wanted m e [] = (None, [])"
| "ask_backends wanted m e (b # bs) =
     (let skip = (let (u, bs') = ask_backends wanted m e bs in (u, b # bs'))
      in if \<not> wanted b then skip
         else case backend_sample m e b of
           (Some u, b') \<Rightarrow> (Some u, b' # bs)
         | (None, b') \<Rightarrow> (let (u, bs') = ask_backends wanted m e bs in (u, b' # bs')))"

definition read_edge_util :: "'g rng_ops \<Rightarrow> machine \<Rightarrow> u32 \<Rightarrow> 'g daemon \<Rightarrow> real \<times> 'g daemon" where
  "read_edge_util R m e d =
     (if unat e < length (td_override_valid d) \<and> td_override_valid d ! unat e
      then (td_override_utils d ! unat e, d)
      else
        let (u1, bs1) = ask_backends (prefers d e) m e (td_backends d)
        in case u1 of
             Some u \<Rightarrow> (u, d\<lparr>td_backends := bs1\<rparr>)
           | None \<Rightarrow>
               let (u2, bs2) = ask_backends (\<lambda>_. True) m e bs1; d2 = d\<lparr>td_backends := bs2\<rparr>
               in case u2 of
                    Some u \<Rightarrow> (u, d2)
                  | None \<Rightarrow>
                      if \<not> tc_allow_synthetic (td_config d) then (0, d2)
                      else
                        let (u3, sy) = synthetic_sample R (hm_now m) e (td_synthetic d2)
                        in (case u3 of None \<Rightarrow> 0 | Some u \<Rightarrow> u, d2\<lparr>td_synthetic := sy\<rparr>))"

section \<open>The collector\<close>

text \<open>\<open>M e\<close> is the machine while edge \<open>e\<close> is read and \<open>W e\<close> the clock when its sample is written.\<close>

definition collect_edge ::
  "'g rng_ops \<Rightarrow> (nat \<Rightarrow> machine) \<Rightarrow> (nat \<Rightarrow> u64) \<Rightarrow> nat \<Rightarrow> 'g daemon \<Rightarrow> 'g daemon"
where
  "collect_edge R M W e d =
     (let (u, d1) = read_edge_util R (M e) (of_nat e) d
      in d1\<lparr>td_ring := ring_write (W e) (of_nat e) u (td_ring d1)\<rparr>)"

definition collect_round ::
  "'g rng_ops \<Rightarrow> (nat \<Rightarrow> machine) \<Rightarrow> (nat \<Rightarrow> u64) \<Rightarrow> 'g daemon \<Rightarrow> 'g daemon"
where
  "collect_round R M W d = fold (collect_edge R M W) [0..<td_num_edges d] d"

text \<open>Microseconds between two rounds.\<close>

definition sample_interval_us :: "telemetry_config \<Rightarrow> u32" where
  "sample_interval_us cfg = 1000000 div max 1 (tc_sample_hz cfg)"

end
