(* ===== verification/Telemetry_Props.thy ===== *)
theory Telemetry_Props
  imports Telemetry
begin

text \<open>
  What the daemon guarantees: every utilisation it publishes is between 0 and 1 in every state it can
  reach, and what a snapshot shows after a round of the collector.
\<close>

section \<open>The backends satisfy the contract\<close>

fun backend_ok :: "hw_backend \<Rightarrow> bool" where
  "backend_ok (IbMadBackend s) = mad_backend_ok s"
| "backend_ok _ = True"

lemma backend_sample_range:
  assumes "backend_ok b"
  shows "fst (backend_sample m e b) = Some u \<Longrightarrow> util_ok u"
    and "backend_ok (snd (backend_sample m e b))"
  using assms nvml_sample_range ib_sysfs_sample_range pcie_sample_range pmu_backend_sample_range
    mad_backend_sample_range
  by (cases b; fastforce)+

interpretation backend: counter_source backend_sample backend_ok
  using backend_sample_range by unfold_locales auto

lemma backend_init_ok: "backend_ok b \<Longrightarrow> backend_ok (snd (backend_init m bs b))"
  by (cases b) (simp_all add: mad_backend_init_ok)

lemma backend_candidates_ok: "b \<in> set (backend_candidates k) \<Longrightarrow> backend_ok b"
  by (cases k) (auto simp: mad_backend_ok_def mad_backend_fresh_def)

lemma ask_backends_ok:
  assumes "\<forall>b \<in> set bs. backend_ok b"
  shows "(\<forall>u. fst (ask_backends P m e bs) = Some u \<longrightarrow> util_ok u) \<and>
    (\<forall>b \<in> set (snd (ask_backends P m e bs)). backend_ok b)"
  using assms
proof (induction bs)
  case Nil
  then show ?case by simp
next
  case (Cons b bs)
  obtain u1 b1 where s: "backend_sample m e b = (u1, b1)" by fastforce
  have "backend_ok b1" and "\<forall>v. u1 = Some v \<longrightarrow> util_ok v"
    using backend.sample_ok [of b m e] backend.sample_range [of b m e] Cons.prems s by auto
  with Cons s show ?case
    by (auto simp: case_prod_unfold Let_def split: option.splits)
qed

lemma ask_backends_range:
  assumes "\<forall>b \<in> set bs. backend_ok b"
  shows "fst (ask_backends P m e bs) = Some u \<Longrightarrow> util_ok u"
    and "b \<in> set (snd (ask_backends P m e bs)) \<Longrightarrow> backend_ok b"
  using ask_backends_ok [OF assms, of P m e] by blast+

section \<open>Invariant of the daemon\<close>

definition unit_util :: "real \<Rightarrow> bool" where
  "unit_util u \<longleftrightarrow> 0 \<le> u \<and> u \<le> 1"

definition ring_in_range :: "ring_buffer \<Rightarrow> bool" where
  "ring_in_range r \<longleftrightarrow> ring_wf r \<and> (\<forall>s \<in> set (rb_buffer r). unit_util (ts_util s))"

definition daemon_ok :: "'g daemon \<Rightarrow> bool" where
  "daemon_ok d \<longleftrightarrow>
     ring_in_range (td_ring d) \<and> (\<forall>b \<in> set (td_backends d). backend_ok b) \<and>
     (\<forall>u \<in> set (td_override_utils d). unit_util u) \<and>
     length (td_override_valid d) = length (td_override_utils d)"

lemma util_ok_unit: "util_ok u \<Longrightarrow> unit_util u"
  by (simp add: util_ok_def unit_util_def)

lemma ring_write_in_range [wf_intros]:
  "ring_in_range r \<Longrightarrow> unit_util u \<Longrightarrow> ring_in_range (ring_write now e u r)"
  unfolding ring_in_range_def
  by (intro conjI ring_wf_write) (auto simp: ring_write_def Let_def dest!: subsetD [OF set_update_subset_insert])

lemma ring_fresh_in_range [simp]: "ring_in_range ring_fresh"
  by (simp add: ring_in_range_def ring_fresh_def ring_wf_def unit_util_def TELEMETRY_RING_SIZE_def)

lemma daemon_fresh_ok [wf_intros]: "daemon_ok (daemon_fresh n cfg g)"
  by (simp add: daemon_ok_def daemon_fresh_def unit_util_def)

lemma daemon_ok_running [simp]: "daemon_ok (d\<lparr>td_running := b\<rparr>) = daemon_ok d"
  by (simp add: daemon_ok_def)

lemma try_add_ok: "daemon_ok d \<Longrightarrow> backend_ok b \<Longrightarrow> daemon_ok (try_add m b d)"
  using backend_init_ok [of b m "td_bindings d"]
  by (auto simp: try_add_def daemon_ok_def case_prod_unfold Let_def)

lemma select_backends_ok [wf_intros]:
  assumes "daemon_ok d"
  shows "daemon_ok (select_backends R m d)"
proof -
  have "daemon_ok (fold (try_add m) bs d')" if "daemon_ok d'" "\<forall>b \<in> set bs. backend_ok b" for bs and d' :: "'a daemon"
    using that by (induction bs arbitrary: d') (auto simp: try_add_ok)
  moreover have "daemon_ok (d\<lparr>td_backends := [], td_using_hardware := False\<rparr>)"
    using assms by (simp add: daemon_ok_def)
  ultimately have "daemon_ok (fold (try_add m) (backend_candidates (tc_preferred (td_config d)))
      (d\<lparr>td_backends := [], td_using_hardware := False\<rparr>))"
    using backend_candidates_ok by blast
  then show ?thesis
    by (auto simp: select_backends_def Let_def daemon_ok_def)
qed

lemma configure_edges_ok [wf_intros]: "daemon_ok d \<Longrightarrow> daemon_ok (configure_edges R m f bw rails d)"
  unfolding configure_edges_def Let_def by (rule select_backends_ok) (simp add: daemon_ok_def)

lemma start_ok [wf_intros]: "daemon_ok d \<Longrightarrow> daemon_ok (start R m d)"
  by (simp add: start_def Let_def configure_edges_ok)

lemma stop_ok [wf_intros]: "daemon_ok d \<Longrightarrow> daemon_ok (stop d)"
  by (simp add: stop_def)

lemma set_simulated_util_ok [wf_intros]:
  assumes "daemon_ok d"
  shows "daemon_ok (set_simulated_util e u d)"
proof -
  have "unit_util (clamp u 0 1)"
    by (simp add: unit_util_def clamp_bounds)
  then show ?thesis
    using assms set_update_subset_insert [of "td_override_utils d" "unat e" "clamp u 0 1"]
    by (auto simp: set_simulated_util_def daemon_ok_def)
qed

lemma read_edge_util_ok:
  assumes "daemon_ok d"
  shows "unit_util (fst (read_edge_util R m e d))" and "daemon_ok (snd (read_edge_util R m e d))"
proof -
  have bs: "\<forall>b \<in> set (td_backends d). backend_ok b"
    using assms by (simp add: daemon_ok_def)
  obtain u1 bs1 where a1: "ask_backends (prefers d e) m e (td_backends d) = (u1, bs1)" by fastforce
  have bs1: "\<forall>b \<in> set bs1. backend_ok b"
    using ask_backends_range(2) [OF bs, of _ "prefers d e" m e] a1 by simp
  obtain u2 bs2 where a2: "ask_backends (\<lambda>_. True) m e bs1 = (u2, bs2)" by fastforce
  have bs2: "\<forall>b \<in> set bs2. backend_ok b"
    using ask_backends_range(2) [OF bs1, of _ "\<lambda>_. True" m e] a2 by simp
  have u: "unit_util u" if "u1 = Some u \<or> u2 = Some u" for u
    using that ask_backends_range(1) [OF bs, of "prefers d e" m e u] ask_backends_range(1) [OF bs1, of "\<lambda>_. True" m e u] a1 a2
    by (auto intro: util_ok_unit)
  have syn: "unit_util v" if "fst (synthetic_sample R (hm_now m) e s) = Some v" for s :: "'a synthetic" and v
    using that synthetic_sample_range util_ok_unit by blast
  have zero: "unit_util 0" by (simp add: unit_util_def)
  have over: "unit_util (td_override_utils d ! unat e)" if "unat e < length (td_override_valid d)"
    using that assms by (simp add: daemon_ok_def)
  show "unit_util (fst (read_edge_util R m e d))"
    using u syn zero over
    by (auto simp: read_edge_util_def Let_def a1 a2 case_prod_unfold
             split: option.split)
  show "daemon_ok (snd (read_edge_util R m e d))"
    using assms bs1 bs2
    by (auto simp: read_edge_util_def Let_def a1 a2 case_prod_unfold
        daemon_ok_def split: option.split)
qed

lemma collect_edge_ok [wf_intros]: "daemon_ok d \<Longrightarrow> daemon_ok (collect_edge R M W e d)"
  using read_edge_util_ok [of d R "M e" "of_nat e"]
  by (auto simp: collect_edge_def case_prod_unfold Let_def daemon_ok_def intro: ring_write_in_range)

lemma collect_round_ok [wf_intros]: "daemon_ok d \<Longrightarrow> daemon_ok (collect_round R M W d)"
proof -
  have "daemon_ok d \<Longrightarrow> daemon_ok (fold (collect_edge R M W) es d)" for es
    by (induction es arbitrary: d) (auto simp: collect_edge_ok)
  then show "daemon_ok d \<Longrightarrow> ?thesis"
    by (simp add: collect_round_def)
qed

section \<open>Reachable states\<close>

text \<open>The calls of the daemon's clients and the rounds of its thread, in any order.\<close>

inductive daemon_step :: "'g rng_ops \<Rightarrow> 'g daemon \<Rightarrow> 'g daemon \<Rightarrow> bool" for R where
  step_configure: "daemon_step R d (configure_edges R m f bw rails d)"
| step_start: "daemon_step R d (start R m d)"
| step_stop: "daemon_step R d (stop d)"
| step_inject: "daemon_step R d (set_simulated_util e u d)"
| step_round: "daemon_step R d (collect_round R M W d)"

inductive daemon_reachable :: "'g rng_ops \<Rightarrow> 'g daemon \<Rightarrow> bool" for R where
  fresh: "daemon_reachable R (daemon_fresh n cfg g)"
| step: "daemon_reachable R d \<Longrightarrow> daemon_step R d d' \<Longrightarrow> daemon_reachable R d'"

lemma daemon_step_ok: "daemon_step R d d' \<Longrightarrow> daemon_ok d \<Longrightarrow> daemon_ok d'"
  by (induction rule: daemon_step.induct)
     (simp_all add: configure_edges_ok start_ok stop_ok set_simulated_util_ok collect_round_ok)

text \<open>The number of edges is fixed when the daemon is made; only rounds write the ring.\<close>

lemma select_backends_fixed [simp]:
  "td_num_edges (select_backends R m d) = td_num_edges d" "td_ring (select_backends R m d) = td_ring d"
proof -
  have one: "td_num_edges (try_add m b d) = td_num_edges d \<and> td_ring (try_add m b d) = td_ring d" for b and d :: "'a daemon"
    by (simp add: try_add_def case_prod_unfold Let_def)
  have "td_num_edges (fold (try_add m) bs d) = td_num_edges d \<and> td_ring (fold (try_add m) bs d) = td_ring d"
    for bs and d :: "'a daemon"
    by (induction bs arbitrary: d) (simp_all add: one)
  then show "td_num_edges (select_backends R m d) = td_num_edges d" "td_ring (select_backends R m d) = td_ring d"
    by (simp_all add: select_backends_def Let_def)
qed

lemma configure_edges_fixed [simp]:
  "td_num_edges (configure_edges R m f bw rails d) = td_num_edges d"
  "td_ring (configure_edges R m f bw rails d) = td_ring d"
  by (simp_all add: configure_edges_def Let_def)

lemma start_fixed [simp]: "td_num_edges (start R m d) = td_num_edges d" "td_ring (start R m d) = td_ring d"
  by (simp_all add: start_def Let_def)

lemma collect_round_edges [simp]: "td_num_edges (collect_round R M W d) = td_num_edges d"
proof -
  have "td_num_edges (fold (collect_edge R M W) es d) = td_num_edges d" for es
    by (induction es arbitrary: d)
      (simp_all add: collect_edge_def read_edge_util_def case_prod_unfold Let_def split: option.split)
  then show ?thesis by (simp add: collect_round_def)
qed

lemma daemon_step_edges: "daemon_step R d d' \<Longrightarrow> td_num_edges d' = td_num_edges d"
  by (induction rule: daemon_step.induct) (simp_all add: stop_def set_simulated_util_def)

lemma daemon_reachable_ok: "daemon_reachable R d \<Longrightarrow> daemon_ok d"
  by (induction rule: daemon_reachable.induct) (auto intro: daemon_fresh_ok daemon_step_ok)

lemma read_latest_in_range:
  assumes "ring_in_range r" and "read_latest r e = Some u"
  shows "unit_util u"
proof -
  obtain s where s: "List.find (sample_of e) (ring_log r) = Some s" "u = ts_util s"
    using assms(2) by (auto simp: read_latest_find)
  then have "s \<in> set (ring_log r)"
    by (auto simp: find_Some_iff)
  then obtain i where "i < TELEMETRY_RING_SIZE" "s = ring_slot r i"
    by (auto simp: ring_log_def)
  then have "s \<in> set (rb_buffer r)"
    using assms(1) by (simp add: ring_in_range_def ring_wf_def ring_slot_def)
  then show ?thesis
    using assms(1) s(2) by (simp add: ring_in_range_def)
qed

lemma snapshot_in_range:
  "ring_in_range r \<Longrightarrow> u \<in> set (snapshot r n) \<Longrightarrow> unit_util u"
  using read_latest_in_range [of r] by (auto simp: snapshot_def unit_util_def split: option.splits)

section \<open>A round and the snapshot after it\<close>

text \<open>What a round reads, edge by edge, and the state it leaves apart from the ring.\<close>

fun round_reads ::
  "'g rng_ops \<Rightarrow> (nat \<Rightarrow> machine) \<Rightarrow> nat list \<Rightarrow> 'g daemon \<Rightarrow> real list \<times> 'g daemon"
where
  "round_reads R M [] d = ([], d)"
| "round_reads R M (e # es) d =
     (let (u, d1) = read_edge_util R (M e) (of_nat e) d; (us, d2) = round_reads R M es d1 in (u # us, d2))"

definition written_samples :: "(nat \<Rightarrow> u64) \<Rightarrow> nat list \<Rightarrow> real list \<Rightarrow> telemetry_sample list" where
  "written_samples W es us =
     map (\<lambda>(e, u). \<lparr>ts_timestamp_ns = W e, ts_edge = of_nat e, ts_util = u\<rparr>) (zip es us)"

lemma prefers_ring [simp]: "prefers (d\<lparr>td_ring := r\<rparr>) = prefers d"
  by (rule ext)+ (simp add: prefers_def)

lemma read_edge_util_ring:
  "td_ring (snd (read_edge_util R m e d)) = td_ring d"
  "fst (read_edge_util R m e (d\<lparr>td_ring := r\<rparr>)) = fst (read_edge_util R m e d)"
  "snd (read_edge_util R m e (d\<lparr>td_ring := r\<rparr>)) = snd (read_edge_util R m e d)\<lparr>td_ring := r\<rparr>"
  by (simp_all add: read_edge_util_def Let_def case_prod_unfold split: option.split)

lemma round_reads_ring:
  "td_ring (snd (round_reads R M es d)) = td_ring d"
  "fst (round_reads R M es (d\<lparr>td_ring := r\<rparr>)) = fst (round_reads R M es d)"
  "snd (round_reads R M es (d\<lparr>td_ring := r\<rparr>)) = snd (round_reads R M es d)\<lparr>td_ring := r\<rparr>"
  by (induction es arbitrary: d) (simp_all add: case_prod_unfold Let_def read_edge_util_ring)

lemma length_round_reads [simp]: "length (fst (round_reads R M es d)) = length es"
  by (induction es arbitrary: d) (simp_all add: case_prod_unfold Let_def)

text \<open>The collector writes what it reads and does nothing else to the ring.\<close>

lemma collect_edges:
  "fold (collect_edge R M W) es d =
     (snd (round_reads R M es d))
       \<lparr>td_ring := fold ring_put (written_samples W es (fst (round_reads R M es d))) (td_ring d)\<rparr>"
proof (induction es arbitrary: d)
  case Nil
  then show ?case by (simp add: written_samples_def)
next
  case (Cons e es)
  obtain u d1 where rd: "read_edge_util R (M e) (of_nat e) d = (u, d1)" by fastforce
  have d1: "td_ring d1 = td_ring d"
    using read_edge_util_ring(1) [of R "M e" "of_nat e" d] rd by simp
  have "collect_edge R M W e d = d1\<lparr>td_ring := ring_write (W e) (of_nat e) u (td_ring d)\<rparr>"
    by (simp add: collect_edge_def rd d1)
  then show ?case
    by (simp add: Cons.IH rd round_reads_ring written_samples_def ring_put_def case_prod_unfold Let_def)
qed

lemma find_unique:
  "x \<in> set xs \<Longrightarrow> P x \<Longrightarrow> (\<And>y. y \<in> set xs \<Longrightarrow> P y \<Longrightarrow> y = x) \<Longrightarrow> List.find P xs = Some x"
proof (induction xs)
  case Nil
  then show ?case by simp
next
  case (Cons y ys)
  show ?case
  proof (cases "P y")
    case True
    then have "y = x" by (intro Cons.prems(3)) simp_all
    with True show ?thesis by simp
  next
    case False
    then have "x \<in> set ys" using Cons.prems(1,2) by auto
    then have "List.find P ys = Some x"
    proof (rule Cons.IH)
      show "P x" by (fact Cons.prems(2))
      show "z = x" if "z \<in> set ys" "P z" for z
        by (rule Cons.prems(3)) (use that in simp_all)
    qed
    with False show ?thesis by simp
  qed
qed

lemma of_nat_u32_inj:
  assumes "i < 2 ^ 32" and "j < 2 ^ 32" and "(of_nat i :: u32) = of_nat j"
  shows "i = j"
proof -
  have "unat (of_nat i :: u32) = i" "unat (of_nat j :: u32) = j"
    using assms(1,2) by (auto intro!: unat_of_nat_small)
  then show ?thesis
    by (metis assms(3))
qed

lemma newest_sample:
  assumes n: "n \<le> 2 ^ 32" and e: "e < n" and len: "length us = n" and W: "\<forall>e < n. W e \<noteq> 0"
  shows "List.find (sample_of (of_nat e)) (take k (rev (written_samples W [0..<n] us))) =
    (if e + k < n then None
     else Some \<lparr>ts_timestamp_ns = W e, ts_edge = of_nat e, ts_util = us ! e\<rparr>)"
proof -
  define f where "f i = \<lparr>ts_timestamp_ns = W i, ts_edge = of_nat i :: u32, ts_util = us ! i\<rparr>" for i
  have "written_samples W [0..<n] us = map f [0..<n]"
    by (rule nth_equalityI) (auto simp: written_samples_def f_def len)
  then have s: "set (take k (rev (written_samples W [0..<n] us))) = f ` {n - k..<n}"
    by (simp add: take_rev drop_map)
  have inj: "f i = f e" if "i < n" "sample_of (of_nat e) (f i)" for i
    using that e n of_nat_u32_inj [of i e] by (simp add: f_def sample_of_def)
  have self: "sample_of (of_nat e) (f e)"
    using W e by (simp add: f_def sample_of_def)
  show ?thesis
  proof (cases "e + k < n")
    case True
    have "\<not> sample_of (of_nat e) y" if y: "y \<in> f ` {n - k..<n}" for y
    proof
      assume P: "sample_of (of_nat e) y"
      obtain i where i: "y = f i" "n - k \<le> i" "i < n" using y by auto
      then have "i = e"
        using P e n of_nat_u32_inj [of i e] by (simp add: f_def sample_of_def)
      with True i(2) show False by simp
    qed
    then have "List.find (sample_of (of_nat e)) (take k (rev (written_samples W [0..<n] us))) = None"
      unfolding find_None_iff s by blast
    then show ?thesis using True by simp
  next
    case False
    then have "f e \<in> f ` {n - k..<n}" using e by auto
    then have "List.find (sample_of (of_nat e)) (take k (rev (written_samples W [0..<n] us))) = Some (f e)"
      using self inj by (intro find_unique) (auto simp: s)
    then show ?thesis using False by (simp add: f_def)
  qed
qed

lemma snapshot_round:
  assumes "td_num_edges d = n" and "n \<le> 2 ^ 32" and "ring_wf (td_ring d)" and "\<forall>e < n. W e \<noteq> 0"
    and "us = fst (round_reads R M [0..<n] d)"
  shows "snapshot (td_ring (collect_round R M W d)) n =
    map (\<lambda>e. if e + 512 < n then 0 else us ! e) [0..<n]"
proof -
  let ?xs = "written_samples W [0..<n] us"
  have ring: "td_ring (collect_round R M W d) = fold ring_put ?xs (td_ring d)"
    by (simp add: collect_round_def collect_edges assms(1,5))
  have log: "ring_log (fold ring_put ?xs (td_ring d)) =
      take 512 (rev ?xs) @ take (512 - length ?xs) (ring_log (td_ring d))"
    using ring.log_puts [OF assms(3), of ?xs] by (simp add: TELEMETRY_RING_SIZE_def)
  have len: "length us = n" "length ?xs = n"
    using assms(5) by (simp_all add: written_samples_def)
  have "read_latest (fold ring_put ?xs (td_ring d)) (of_nat e) = (if e + 512 < n then None else Some (us ! e))"
    if "e < n" for e
    using newest_sample [OF assms(2) that len(1) assms(4), of 512] that
    by (auto simp: read_latest_find log find_append_option len(2))
  then show ?thesis
    unfolding snapshot_def ring by (auto simp: TELEMETRY_RING_SIZE_def)
qed

section \<open>Properties\<close>

text \<open>A generator that never starts a burst, a machine without any source, and a daemon on it.\<close>

definition quiet_rng :: "unit rng_ops" where
  "quiet_rng = \<lparr>rng_seed = (\<lambda>_. ()), rng_unit = (\<lambda>g. (0.5, g)), rng_int = (\<lambda>lo hi g. (lo, g)),
                rng_real = (\<lambda>lo hi g. (lo, g))\<rparr>"

definition bare_machine :: machine where
  "bare_machine = \<lparr>hm_files = no_files, hm_nvml = None, hm_umad = None,
     hm_perf = \<lparr>pf_open = (\<lambda>_ _. -1), pf_read = (\<lambda>_. None)\<rparr>, hm_now = 1\<rparr>"

definition injected_daemon :: "unit daemon" where
  "injected_daemon = set_simulated_util 1 0.25 (set_simulated_util 0 5
     (daemon_fresh 2 telemetry_config_default ()))"

lemma injected_reads:
  "fst (round_reads R M [0..<2] injected_daemon) = [1, 0.25]"
  by (simp add: upt_rec injected_daemon_def set_simulated_util_def daemon_fresh_def read_edge_util_def clamp_def)

lemma injected_daemon_simps:
  "td_num_edges injected_daemon = 2" "ring_wf (td_ring injected_daemon)"
  by (simp_all add: injected_daemon_def set_simulated_util_def daemon_fresh_def)

lemma injected_reachable: "daemon_reachable R injected_daemon"
  unfolding injected_daemon_def
  by (intro daemon_reachable.step [OF _ step_inject] daemon_reachable.fresh)

text \<open>
  C24. In every state the daemon can reach, by any configuration, start and stop, injected values
  and rounds of the collector on any machine, a snapshot of any length holds utilisations between
  0 and 1.
\<close>

theorem telemetry_in_range:
  assumes "daemon_reachable R d" and "u \<in> set (snapshot (td_ring d) n)"
  shows "0 \<le> u \<and> u \<le> 1"
proof -
  have "ring_in_range (td_ring d)"
    using daemon_reachable_ok [OF assms(1)] by (simp add: daemon_ok_def)
  then show ?thesis
    using snapshot_in_range [OF _ assms(2)] by (simp add: unit_util_def)
qed

theorem telemetry_in_range_witness:
  "0 \<le> snapshot (td_ring injected_daemon) 2 ! 1 \<and> snapshot (td_ring injected_daemon) 2 ! 1 \<le> 1"
  using telemetry_in_range [OF injected_reachable nth_mem, of 1 2] by (simp add: snapshot_def)

text \<open>
  After a round of the collector a snapshot shows what the round read of every edge, as long as
  the daemon has at most 512 edges; with more edges the ring has overwritten the first ones and
  they read 0, whatever their utilisation is.
\<close>

theorem snapshot_after_round:
  assumes "td_num_edges d = n" and "n \<le> 2 ^ 32" and "ring_wf (td_ring d)" and "\<forall>e < n. W e \<noteq> 0"
  shows "snapshot (td_ring (collect_round R M W d)) n =
    map (\<lambda>e. if e + 512 < n then 0 else fst (round_reads R M [0..<n] d) ! e) [0..<n]"
  using snapshot_round [OF assms refl] .

theorem snapshot_after_round_witness:
  "snapshot (td_ring (collect_round quiet_rng (\<lambda>_. bare_machine) (\<lambda>_. 7) injected_daemon)) 2 = [1, 0.25]"
  using snapshot_after_round [OF injected_daemon_simps(1) _ injected_daemon_simps(2),
      where W = "\<lambda>_. 7" and R = quiet_rng and M = "\<lambda>_. bare_machine"]
  unfolding injected_reads by (simp add: upt_rec)

end
