(* ===== verification/Shim.thy ===== *)
theory Shim
  imports Cluster Path_Engine Lstm_File Telemetry
begin

text \<open>
  The shim, \<open>HICSShim\<close> of \<open>shim/shim.hpp\<close> and \<open>shim/shim.cpp\<close>, which builds the other components and
  connects them: the graph, the predictor, the telemetry daemon, the path engine, the executor with
  its completion callback, and the UCX transport object it owns.

  The ibverbs singleton with the memory it moves bytes in is process-wide and therefore not part of the
  shim: the operations take and return it as \<open>wire\<close>.  Clocks are arguments, and so are the rings the
  profiling sweep sees while it runs.
\<close>

section \<open>Data\<close>

record ucx_config =
  uc_device :: string
  uc_max_zcopy_bytes :: u64
  uc_default_deadline_us :: real

record ucx_transport =
  ux_config :: ucx_config
  ux_open :: bool

definition ucx_config_default :: ucx_config where
  "ucx_config_default = \<lparr>uc_device = ''hics0'', uc_max_zcopy_bytes = push_bit 30 1, uc_default_deadline_us = 50000\<rparr>"

definition ucx_fresh :: ucx_transport where
  "ucx_fresh = \<lparr>ux_config = ucx_config_default, ux_open = False\<rparr>"

definition open_iface :: "ucx_config \<Rightarrow> ucx_transport \<Rightarrow> bool \<times> ucx_transport" where
  "open_iface cfg t = (True, \<lparr>ux_config = cfg, ux_open = True\<rparr>)"

record 'g shim =
  sh_world :: path_world
  sh_predictor :: lstm
  sh_telemetry :: "'g daemon"
  sh_ucx :: ucx_transport
  sh_decisions_made :: u64
  sh_total_decision_ns :: u64
  sh_cursor :: nat

record init_options =
  io_num_nodes :: u32
  io_gpus_per_node :: u32
  io_weights_path :: string
  io_enable_executor :: bool
  io_enable_telemetry :: bool
  io_telemetry :: telemetry_config

definition init_options_default :: init_options where
  "init_options_default = \<lparr>io_num_nodes = 8, io_gpus_per_node = 8, io_weights_path = [],
     io_enable_executor = True, io_enable_telemetry = True, io_telemetry = telemetry_config_default\<rparr>"

text \<open>The edges of the graph, which is also the graph the executor points to.\<close>

abbreviation shim_edges :: "'g shim \<Rightarrow> graph_edge list" where
  "shim_edges sh \<equiv> edges (pw_graph (sh_world sh))"

definition current_utils :: "'g shim \<Rightarrow> real list" where
  "current_utils sh = snapshot (td_ring (sh_telemetry sh)) (length (shim_edges sh))"

section \<open>Predictions\<close>

definition push_utils :: "real list \<Rightarrow> nat \<Rightarrow> lstm \<Rightarrow> lstm" where
  "push_utils utils n p = fold (\<lambda>e. push_sample (of_nat e) (utils ! e)) [0..<n] p"

definition refresh_edge :: "real list \<Rightarrow> nat \<Rightarrow> lstm \<Rightarrow> lstm" where
  "refresh_edge utils e p = update_cache (of_nat e) (utils ! e) (predict_edge p (of_nat e)) p"

text \<open>A window of eight edges is predicted again; the cursor is static in the function.\<close>

definition refresh_predictions :: "ring_buffer \<Rightarrow> 'g shim \<Rightarrow> 'g shim" where
  "refresh_predictions ring sh =
     (let n = length (shim_edges sh); utils = snapshot ring n; p = push_utils utils n (sh_predictor sh)
      in if n = 0 then sh\<lparr>sh_predictor := p\<rparr>
         else sh\<lparr>sh_predictor := fold (\<lambda>i. refresh_edge utils ((sh_cursor sh + i) mod n)) [0..<8] p,
                 sh_cursor := (sh_cursor sh + 8) mod n\<rparr>)"

text \<open>The sweep refreshes until 200 ms have passed: \<open>rings\<close> are the rings of those rounds.\<close>

definition run_profiling_sweep :: "ring_buffer list \<Rightarrow> 'g shim \<Rightarrow> 'g shim" where
  "run_profiling_sweep rings sh =
     (let n = length (shim_edges sh); utils = current_utils sh;
          p = fold (refresh_edge utils) [0..<n] (push_utils utils n (sh_predictor sh))
      in fold refresh_predictions rings (sh\<lparr>sh_predictor := p\<rparr>))"

section \<open>Initialisation\<close>

text \<open>\<open>rounds\<close> is the number of refreshes of the sweep, during which the daemon is not yet running.\<close>

definition initialize ::
  "'g rng_ops \<Rightarrow> 'g \<Rightarrow> ib_host \<Rightarrow> machine \<Rightarrow> (string \<Rightarrow> u8 list option) \<Rightarrow> f32_enc \<Rightarrow> f32_dec \<Rightarrow> nat \<Rightarrow> nat \<Rightarrow>
   init_options \<Rightarrow> ibverbs \<Rightarrow> bool \<times> 'g shim \<times> ibverbs"
where
  "initialize R g0 host m weights enc dec rounds cursor opts ib =
     (let graph = precompute_paths 6 5 (build_cluster (io_num_nodes opts) (io_gpus_per_node opts));
          es = edges graph;
          ib' = snd (ib_init host (int kIbRailCount) ib);
          predictor = (if io_weights_path opts = [] then lstm_fresh
                       else snd (load_weights enc dec (weights (io_weights_path opts)) lstm_fresh));
          daemon = configure_edges R m (map (\<lambda>e. fabric (attrs e)) es) (map (\<lambda>e. bandwidth_gbps (attrs e)) es)
                     (map (\<lambda>e. rail_id (attrs e)) es) (daemon_fresh (length es) (io_telemetry opts) g0);
          sh = \<lparr>sh_world = \<lparr>pw_graph = graph, pw_engine = engine_fresh,
                   pw_executor = (if io_enable_executor opts then Some executor_fresh else None)\<rparr>,
                sh_predictor = predictor, sh_telemetry = daemon,
                sh_ucx = snd (open_iface ucx_config_default ucx_fresh),
                sh_decisions_made = 0, sh_total_decision_ns = 0, sh_cursor = cursor\<rparr>;
          sh1 = run_profiling_sweep (replicate rounds (td_ring daemon)) sh
      in (True,
          if io_enable_telemetry opts then sh1\<lparr>sh_telemetry := start R m (sh_telemetry sh1)\<rparr> else sh1,
          ib'))"

text \<open>The overload that takes the size of the cluster, and the destructor.\<close>

definition initialize_sized ::
  "'g rng_ops \<Rightarrow> 'g \<Rightarrow> ib_host \<Rightarrow> machine \<Rightarrow> (string \<Rightarrow> u8 list option) \<Rightarrow> f32_enc \<Rightarrow> f32_dec \<Rightarrow> nat \<Rightarrow> nat \<Rightarrow>
   u32 \<Rightarrow> u32 \<Rightarrow> ibverbs \<Rightarrow> bool \<times> 'g shim \<times> ibverbs"
where
  "initialize_sized R g0 host m weights enc dec rounds cursor num_nodes gpus_per_node =
     initialize R g0 host m weights enc dec rounds cursor
       (init_options_default\<lparr>io_num_nodes := num_nodes, io_gpus_per_node := gpus_per_node\<rparr>)"

definition destroy_shim :: "'g shim \<Rightarrow> 'g daemon" where
  "destroy_shim sh = stop (sh_telemetry sh)"

section \<open>Transfers\<close>

text \<open>The completion callback works on the path engine.\<close>

definition kv_completed :: "transfer_progress \<Rightarrow> engine \<Rightarrow> engine" where
  "kv_completed tp en = (if traffic (tp_request tp) = KVMigration then unregister_kv_flow (tp_id tp) en else en)"

text \<open>The clocks of one call: of the submission, of the tick, around the submission (\<open>t0\<close>, \<open>t1\<close>)
  and around a decision that is only dispatched (\<open>d0\<close>, \<open>d1\<close>).\<close>

record call_clock =
  cl_now :: real
  cl_tick :: "transfer_id \<Rightarrow> real"
  cl_t0 :: u64
  cl_t1 :: u64
  cl_d0 :: u64
  cl_d1 :: u64

text \<open>Ticks the executor, whose callback changes the engine, then reroutes what was suspended.\<close>

definition tick_and_drain ::
  "real \<Rightarrow> real list \<Rightarrow> (transfer_id \<Rightarrow> real) \<Rightarrow> lstm \<Rightarrow> path_world \<Rightarrow> wire \<Rightarrow>
   transfer_id list \<times> path_world \<times> wire"
where
  "tick_and_drain dt_ms utils clock lm w wire =
     (case pw_executor w of
        None \<Rightarrow> ([], w, wire)
      | Some ex \<Rightarrow>
          let g = Some (edges (pw_graph w));
              (done_ids, ex', wire', en') = ib_tick (Some kv_completed) g dt_ms utils clock ex wire (pw_engine w);
              w1 = w\<lparr>pw_executor := Some ex', pw_engine := en'\<rparr>
          in (done_ids, snd (drain_boundary_reroutes lm g utils w1), wire'))"

definition count_decision :: "u64 \<Rightarrow> u64 \<Rightarrow> 'g shim \<Rightarrow> 'g shim" where
  "count_decision t0 t1 sh = sh\<lparr>sh_decisions_made := sh_decisions_made sh + 1,
     sh_total_decision_ns := sh_total_decision_ns sh + (t1 - t0)\<rparr>"

text \<open>\<open>junk\<close> is the latency of the result before it is first assigned.\<close>

definition dispatch_transfer ::
  "call_clock \<Rightarrow> real \<Rightarrow> transfer_request \<Rightarrow> 'g shim \<Rightarrow> path_cost \<times> 'g shim"
where
  "dispatch_transfer c junk req sh =
     (let utils = current_utils sh; lm = sh_predictor sh;
          (result, w') =
            (if traffic req = KVMigration \<and> kKvChunkBytes < size_bytes req
             then
               let (ds, w1) = stripe_kv_migration lm req utils kKvChunkBytes (sh_world sh);
                   r0 = (case ds of [] \<Rightarrow> \<lparr>edge_indices = [], pc_latency_us = junk\<rparr>
                         | d # _ \<Rightarrow> \<lparr>edge_indices = cd_edges d, pc_latency_us = 0\<rparr>)
               in fold (\<lambda>d (r, w). let (p, w') = select_path lm (req\<lparr>size_bytes := cd_size d\<rparr>) utils w
                                   in (r\<lparr>pc_latency_us := pc_latency_us r + pc_latency_us p\<rparr>, w')) ds (r0, w1)
             else select_path lm req utils (sh_world sh))
      in (result, count_decision (cl_d0 c) (cl_d1 c) (sh\<lparr>sh_world := w'\<rparr>)))"

definition submit_transfer ::
  "call_clock \<Rightarrow> real \<Rightarrow> traffic_class \<Rightarrow> endpoint_id \<Rightarrow> endpoint_id \<Rightarrow> u64 \<Rightarrow> real \<Rightarrow> ptr \<Rightarrow> ptr \<Rightarrow>
   'g shim \<times> wire \<Rightarrow> transfer_id \<times> 'g shim \<times> wire"
where
  "submit_transfer c junk cls src dst nbytes deadline src_buf dst_buf st =
     (let (sh, wire) = st;
          req = \<lparr>rq_source = src, rq_dest = dst, size_bytes = nbytes, traffic = cls, deadline_us = deadline\<rparr>;
          utils = current_utils sh
      in if pw_executor (sh_world sh) = None
         then (0, count_decision (cl_t0 c) (cl_t1 c) (snd (dispatch_transfer c junk req sh)), wire)
         else
           let lm = sh_predictor sh;
               (i, w1) = schedule_and_execute lm (Some (shim_edges sh)) (cl_now c) req utils
                           \<lparr>so_src_buf = src_buf, so_dst_buf = dst_buf\<rparr> (sh_world sh);
               (done_ids, w2, wire') = tick_and_drain 0.05 utils (cl_tick c) lm w1 wire
           in (i, count_decision (cl_t0 c) (cl_t1 c) (sh\<lparr>sh_world := w2\<rparr>), wire'))"

definition poll_transfers ::
  "call_clock \<Rightarrow> real \<Rightarrow> 'g shim \<times> wire \<Rightarrow> nat \<times> 'g shim \<times> wire"
where
  "poll_transfers c dt_ms st =
     (let (sh, wire) = st;
          (done_ids, w, wire') = tick_and_drain dt_ms (current_utils sh) (cl_tick c) (sh_predictor sh) (sh_world sh) wire
      in (length done_ids, sh\<lparr>sh_world := w\<rparr>, wire'))"

definition transfer_status :: "'g shim \<Rightarrow> transfer_id \<Rightarrow> transfer_progress" where
  "transfer_status sh i =
     (case pw_executor (sh_world sh) of None \<Rightarrow> default_progress | Some ex \<Rightarrow> get_transfer i ex)"

definition intercept_collective ::
  "call_clock \<Rightarrow> real \<Rightarrow> traffic_class \<Rightarrow> endpoint_id \<Rightarrow> endpoint_id \<Rightarrow> u64 \<Rightarrow> real \<Rightarrow>
   'g shim \<times> wire \<Rightarrow> int \<times> 'g shim \<times> wire"
where
  "intercept_collective c junk cls src dst nbytes deadline st =
     (let (i, st') = submit_transfer c junk cls src dst nbytes deadline 0 0 st
      in (if i = 0 then -1 else 0, st'))"

definition intercept_p2p ::
  "call_clock \<Rightarrow> real \<Rightarrow> traffic_class \<Rightarrow> endpoint_id \<Rightarrow> endpoint_id \<Rightarrow> u64 \<Rightarrow> real \<Rightarrow>
   'g shim \<times> wire \<Rightarrow> int \<times> 'g shim \<times> wire"
where
  "intercept_p2p = intercept_collective"

definition avg_decision_latency_us :: "'g shim \<Rightarrow> real" where
  "avg_decision_latency_us sh =
     (if sh_decisions_made sh = 0 then 0
      else real (unat (sh_total_decision_ns sh)) / real (unat (sh_decisions_made sh)) / 1000)"

definition shim_weights_loaded :: "'g shim \<Rightarrow> bool" where
  "shim_weights_loaded sh = weights_loaded (sh_predictor sh)"

end
