(* ===== verification/Cuda_Mr.thy ===== *)
theory Cuda_Mr
  imports Model
begin

text \<open>
  The CUDA runtime wrapper and the memory registry, \<open>shim/cuda_mr.hpp\<close> and \<open>shim/cuda_mr.cpp\<close>.

  The CUDA runtime library is the \<open>cuda_lib\<close> argument: \<open>None\<close> when no version of it can be loaded or one
  of the two functions the wrapper insists on is missing; the other functions may be missing one by one.
  \<open>mlock\<close> is an argument too.  The code is the \<open>__linux__\<close> one and the mutex makes operations atomic.
\<close>

section \<open>The CUDA runtime\<close>

record pointer_attributes =
  pa_type :: int
  pa_device :: int
  pa_device_pointer :: ptr
  pa_host_pointer :: ptr

record cuda_lib =
  cu_device_count :: "int option"
  cu_attributes :: "ptr \<Rightarrow> pointer_attributes option"
  cu_host_register :: "(ptr \<Rightarrow> u64 \<Rightarrow> u32 \<Rightarrow> bool) option"
  cu_host_unregister :: "(ptr \<Rightarrow> bool) option"
  cu_host_device_pointer :: "(ptr \<Rightarrow> ptr option) option"
  cu_stream_sync :: "bool option"
  cu_memcpy_async :: "(ptr \<Rightarrow> ptr \<Rightarrow> u64 \<Rightarrow> nat \<Rightarrow> bool) option"

record cuda_host =
  cuda :: "cuda_lib option"
  mlock :: "ptr \<Rightarrow> u64 \<Rightarrow> bool"

definition cuda_ready :: "cuda_host \<Rightarrow> bool" where
  "cuda_ready h \<longleftrightarrow> cuda h \<noteq> None"

definition device_count :: "cuda_host \<Rightarrow> int" where
  "device_count h =
     (case cuda h of
        None \<Rightarrow> 0
      | Some l \<Rightarrow> (case cu_device_count l of None \<Rightarrow> 0 | Some n \<Rightarrow> if n \<le> 0 then 0 else n))"

text \<open>The device of a device pointer; \<open>None\<close> is the result false, which leaves \<open>device_id\<close> alone.\<close>

definition is_device_pointer :: "cuda_host \<Rightarrow> ptr \<Rightarrow> int option" where
  "is_device_pointer h p =
     (case cuda h of
        None \<Rightarrow> None
      | Some l \<Rightarrow>
          if p = 0 then None
          else case cu_attributes l p of
            None \<Rightarrow> None
          | Some a \<Rightarrow> if pa_type a = 2 \<or> pa_device_pointer a = p then Some (pa_device a) else None)"

definition is_host_registered :: "cuda_host \<Rightarrow> ptr \<Rightarrow> bool" where
  "is_host_registered h p =
     (case cuda h of
        None \<Rightarrow> False
      | Some l \<Rightarrow>
          if p = 0 then False
          else case cu_attributes l p of
            None \<Rightarrow> False
          | Some a \<Rightarrow> pa_type a = 1 \<or> pa_host_pointer a \<noteq> 0)"

definition host_register :: "cuda_host \<Rightarrow> ptr \<Rightarrow> u64 \<Rightarrow> bool" where
  "host_register h p nbytes =
     (if p = 0 \<or> nbytes = 0 then False
      else
        (case cuda h of
           None \<Rightarrow> False
         | Some l \<Rightarrow> (case cu_host_register l of None \<Rightarrow> False | Some reg \<Rightarrow> reg p nbytes 2 \<or> reg p nbytes 0))
        \<or> mlock h p nbytes)"

definition host_unregister :: "cuda_host \<Rightarrow> ptr \<Rightarrow> bool" where
  "host_unregister h p =
     (if p = 0 then False
      else case cuda h of
        None \<Rightarrow> True
      | Some l \<Rightarrow> (case cu_host_unregister l of None \<Rightarrow> True | Some unreg \<Rightarrow> unreg p))"

text \<open>The device pointer of a host pointer, which is the host pointer itself when CUDA gives none.\<close>

definition host_get_device_pointer :: "cuda_host \<Rightarrow> ptr \<Rightarrow> ptr option" where
  "host_get_device_pointer h p =
     (if p = 0 then None
      else case cuda h of
        None \<Rightarrow> Some p
      | Some l \<Rightarrow> (case cu_host_device_pointer l of
          None \<Rightarrow> Some p
        | Some f \<Rightarrow> (case f p of None \<Rightarrow> Some p | Some d \<Rightarrow> Some d)))"

definition stream_sync_default :: "cuda_host \<Rightarrow> bool" where
  "stream_sync_default h =
     (case cuda h of
        None \<Rightarrow> True
      | Some l \<Rightarrow> (case cu_stream_sync l of None \<Rightarrow> True | Some ok \<Rightarrow> ok))"

definition memcpy_dtoh_async :: "cuda_host \<Rightarrow> ptr \<Rightarrow> ptr \<Rightarrow> u64 \<Rightarrow> bool" where
  "memcpy_dtoh_async h host_p dev_p nbytes =
     (case cuda h of
        None \<Rightarrow> False
      | Some l \<Rightarrow> (case cu_memcpy_async l of None \<Rightarrow> False | Some cp \<Rightarrow> cp host_p dev_p nbytes 2))"

definition memcpy_htod_async :: "cuda_host \<Rightarrow> ptr \<Rightarrow> ptr \<Rightarrow> u64 \<Rightarrow> bool" where
  "memcpy_htod_async h dev_p host_p nbytes =
     (case cuda h of
        None \<Rightarrow> False
      | Some l \<Rightarrow> (case cu_memcpy_async l of None \<Rightarrow> False | Some cp \<Rightarrow> cp dev_p host_p nbytes 1))"

section \<open>The registry\<close>

datatype mr_ptr_type = Host | Cuda

record memory_region =
  rg_id :: u64
  rg_addr :: ptr
  rg_size :: u64
  rg_type :: mr_ptr_type
  rg_device_ptr :: ptr
  rg_device_id :: int
  rg_host_registered :: bool
  rg_cuda_registered :: bool
  rg_refcount :: u32

record memory_registry =
  mg_regions :: "(u64 \<times> memory_region) list"
  mg_next_id :: u64

definition registry_fresh :: memory_registry where
  "registry_fresh = \<lparr>mg_regions = [], mg_next_id = 1\<rparr>"

text \<open>The NCCL pointer type is a bit mask: 1 for host, 2 for CUDA memory.\<close>

definition supported_ptr_types :: "cuda_host \<Rightarrow> int" where
  "supported_ptr_types h = (if cuda_ready h \<and> 0 < device_count h then 3 else 1)"

definition classify_region :: "cuda_host \<Rightarrow> ptr \<Rightarrow> u64 \<Rightarrow> int \<Rightarrow> memory_region" where
  "classify_region h data nbytes nccl_ptr_type =
     (let mr = \<lparr>rg_id = 0, rg_addr = data, rg_size = nbytes, rg_type = Host, rg_device_ptr = 0,
                rg_device_id = -1, rg_host_registered = False, rg_cuda_registered = False, rg_refcount = 1\<rparr>;
          dev = is_device_pointer h data
      in if bit nccl_ptr_type 1
         then mr\<lparr>rg_type := Cuda, rg_device_ptr := data, rg_cuda_registered := True\<rparr>
         else case dev of
           Some d \<Rightarrow> mr\<lparr>rg_type := Cuda, rg_device_id := d, rg_device_ptr := data, rg_cuda_registered := True\<rparr>
         | None \<Rightarrow>
             if host_register h data nbytes
             then mr\<lparr>rg_host_registered := True,
                     rg_device_ptr := (case host_get_device_pointer h data of None \<Rightarrow> 0 | Some p \<Rightarrow> p)\<rparr>
             else mr\<lparr>rg_device_ptr := data\<rparr>)"

definition put_region :: "memory_region \<Rightarrow> memory_registry \<Rightarrow> u64 \<times> memory_registry" where
  "put_region mr r =
     (let i = mg_next_id r
      in (i, r\<lparr>mg_next_id := i + 1, mg_regions := AList.update i (mr\<lparr>rg_id := i\<rparr>) (mg_regions r)\<rparr>))"

text \<open>The handle 0 is the null pointer.\<close>

definition register_mr ::
  "cuda_host \<Rightarrow> ptr \<Rightarrow> u64 \<Rightarrow> int \<Rightarrow> memory_registry \<Rightarrow> u64 \<times> memory_registry"
where
  "register_mr h data nbytes nccl_ptr_type r =
     (if data = 0 \<or> nbytes = 0 then (0, r) else put_region (classify_region h data nbytes nccl_ptr_type) r)"

definition drop_region :: "u64 \<Rightarrow> memory_registry \<Rightarrow> memory_registry" where
  "drop_region i r = r\<lparr>mg_regions := AList.delete i (mg_regions r)\<rparr>"

text \<open>The result of unregistering host memory is ignored.\<close>

definition deregister_mr :: "u64 \<Rightarrow> memory_registry \<Rightarrow> bool \<times> memory_registry" where
  "deregister_mr mhandle r =
     (if mhandle = 0 then (False, r)
      else case map_of (mg_regions r) mhandle of
        None \<Rightarrow> (False, r)
      | Some mr \<Rightarrow>
          if 1 < rg_refcount mr
          then (True, r\<lparr>mg_regions := AList.update mhandle (mr\<lparr>rg_refcount := rg_refcount mr - 1\<rparr>) (mg_regions r)\<rparr>)
          else (True, drop_region mhandle r))"

definition get_mr :: "memory_registry \<Rightarrow> u64 \<Rightarrow> memory_region option" where
  "get_mr r mhandle = (if mhandle = 0 then None else map_of (mg_regions r) mhandle)"

text \<open>A flush synchronises the default stream, whatever the handle is.\<close>

definition flush_mr :: "cuda_host \<Rightarrow> u64 \<Rightarrow> memory_registry \<Rightarrow> bool" where
  "flush_mr h mhandle r = stream_sync_default h"

definition registry_size :: "memory_registry \<Rightarrow> nat" where
  "registry_size r = length (mg_regions r)"

section \<open>Tables of handles\<close>

text \<open>
  The contract of a table that hands out 64-bit handles: \<open>inv k\<close> says that \<open>k\<close> have been handed out.
  As long as the counter does not wrap, a handle is new and not null.
\<close>

locale handle_table =
  fixes put :: "'v \<Rightarrow> 's \<Rightarrow> u64 \<times> 's"
    and drop_entry :: "u64 \<Rightarrow> 's \<Rightarrow> 's"
    and entry :: "'s \<Rightarrow> u64 \<Rightarrow> 'v option"
    and inv :: "nat \<Rightarrow> 's \<Rightarrow> bool"
  assumes put_handle: "inv k s \<Longrightarrow> fst (put v s) = of_nat (Suc k)"
    and put_inv: "inv k s \<Longrightarrow> Suc k < 2 ^ 64 \<Longrightarrow> inv (Suc k) (snd (put v s))"
    and drop_inv: "inv k s \<Longrightarrow> inv k (drop_entry h s)"
    and put_entry: "inv k s \<Longrightarrow> Suc k < 2 ^ 64 \<Longrightarrow>
      \<exists>v'. entry (snd (put v s)) = (entry s)(fst (put v s) \<mapsto> v')"
    and drop_entry: "inv k s \<Longrightarrow> h \<noteq> 0 \<Longrightarrow> entry (drop_entry h s) = (entry s)(h := None)"
    and entry_bound: "inv k s \<Longrightarrow> entry s h \<noteq> None \<Longrightarrow> h \<noteq> 0 \<and> unat h \<le> k"
begin

lemma handle_new:
  assumes "inv k s" and "Suc k < 2 ^ 64"
  shows "fst (put v s) \<noteq> 0" and "entry s (fst (put v s)) = None"
proof -
  have u: "unat (fst (put v s)) = Suc k"
    using assms by (simp add: put_handle unat_of_nat_small del: of_nat_Suc)
  then show "fst (put v s) \<noteq> 0" by auto
  show "entry s (fst (put v s)) = None"
  proof (rule ccontr)
    assume "entry s (fst (put v s)) \<noteq> None"
    from entry_bound [OF assms(1) this] u show False by simp
  qed
qed

lemma put_keeps:
  assumes "inv k s" and "Suc k < 2 ^ 64" and "entry s h = Some w"
  shows "entry (snd (put v s)) h = Some w"
  using put_entry [OF assms(1,2), of v] handle_new(2) [OF assms(1,2), of v] assms(3) by auto

text \<open>Entering and removing an entry leaves the other entries as they were.\<close>

lemma put_drop:
  assumes "inv k s" and "Suc k < 2 ^ 64"
  shows "entry (drop_entry (fst (put v s)) (snd (put v s))) = entry s"
proof -
  obtain v' where "entry (snd (put v s)) = (entry s)(fst (put v s) \<mapsto> v')"
    using put_entry [OF assms, of v] by blast
  then show ?thesis
    using drop_entry [OF put_inv [OF assms] handle_new(1) [OF assms]] handle_new(2) [OF assms, of v]
    by (auto simp: fun_eq_iff)
qed

end

text \<open>An association list and a counter that make such a table.\<close>

definition handles_inv :: "nat \<Rightarrow> u64 \<Rightarrow> (u64 \<times> 'v) list \<Rightarrow> bool" where
  "handles_inv k nx tbl \<longleftrightarrow> k < 2 ^ 64 \<and> nx = of_nat (Suc k) \<and> distinct (map fst tbl) \<and>
     (\<forall>(i, v) \<in> set tbl. i \<noteq> 0 \<and> unat i \<le> k)"

lemma handles_nil [simp]: "handles_inv 0 1 []"
  by (simp add: handles_inv_def)

lemma handles_next:
  assumes "handles_inv k nx tbl" and "Suc k < 2 ^ 64"
  shows "nx \<noteq> 0" and "unat nx = Suc k"
proof -
  have "unat (of_nat (Suc k) :: u64) = Suc k"
    using assms(2) by (intro unat_of_nat_small) simp
  then show "nx \<noteq> 0" "unat nx = Suc k"
    using assms(1) by (auto simp: handles_inv_def)
qed

lemma handles_put:
  assumes "handles_inv k nx tbl" and "Suc k < 2 ^ 64"
  shows "handles_inv (Suc k) (nx + 1) (AList.update nx v tbl)"
  using assms handles_next [OF assms] set_update_subset [of nx v tbl]
  by (fastforce simp: handles_inv_def distinct_keys_update)

lemma handles_change:
  assumes "handles_inv k nx tbl" and "i \<in> fst ` set tbl"
  shows "handles_inv k nx (AList.update i v tbl)"
  using assms set_update_subset [of i v tbl]
  by (fastforce simp: handles_inv_def distinct_keys_update)

lemma handles_drop: "handles_inv k nx tbl \<Longrightarrow> handles_inv k nx (AList.delete i tbl)"
  using distinct_delete [of tbl i] by (auto simp: handles_inv_def AList.delete_eq)

text \<open>Only the keys matter.\<close>

lemma handles_keys:
  assumes "map fst tbl' = map fst tbl"
  shows "handles_inv k nx tbl' = handles_inv k nx tbl"
proof -
  have "handles_inv k nx t \<longleftrightarrow> k < 2 ^ 64 \<and> nx = of_nat (Suc k) \<and> distinct (map fst t) \<and>
      (\<forall>i \<in> set (map fst t). i \<noteq> 0 \<and> unat i \<le> k)" for t :: "(u64 \<times> 'x) list"
    by (auto simp: handles_inv_def)
  note this [of tbl']
  also have "(k < 2 ^ 64 \<and> nx = of_nat (Suc k) \<and> distinct (map fst tbl') \<and>
      (\<forall>i \<in> set (map fst tbl'). i \<noteq> 0 \<and> unat i \<le> k)) \<longleftrightarrow> k < 2 ^ 64 \<and> nx = of_nat (Suc k) \<and> distinct (map fst tbl) \<and>
      (\<forall>i \<in> set (map fst tbl). i \<noteq> 0 \<and> unat i \<le> k)"
    by (simp only: assms)
  also have "\<dots> \<longleftrightarrow> handles_inv k nx tbl" by (auto simp: handles_inv_def)
  finally show ?thesis .
qed

lemma handles_bound: "handles_inv k nx tbl \<Longrightarrow> map_of tbl i = Some v \<Longrightarrow> i \<noteq> 0 \<and> unat i \<le> k"
  by (auto simp: handles_inv_def dest!: map_of_SomeD)

definition registry_inv :: "nat \<Rightarrow> memory_registry \<Rightarrow> bool" where
  "registry_inv k r \<longleftrightarrow> handles_inv k (mg_next_id r) (mg_regions r)"

lemma registry_inv_fresh [simp]: "registry_inv 0 registry_fresh"
  by (simp add: registry_inv_def registry_fresh_def)

interpretation registry: handle_table put_region drop_region get_mr registry_inv
proof
  fix k and s :: memory_registry and v :: memory_region and h :: u64
  assume "registry_inv k s"
  then have inv: "handles_inv k (mg_next_id s) (mg_regions s)" by (simp add: registry_inv_def)
  show "fst (put_region v s) = of_nat (Suc k)"
    using inv by (simp add: put_region_def handles_inv_def Let_def)
  show "registry_inv (Suc k) (snd (put_region v s))" if "Suc k < 2 ^ 64"
    using handles_put [OF inv that] by (simp add: put_region_def registry_inv_def Let_def)
  show "registry_inv k (drop_region h s)"
    using handles_drop [OF inv] by (simp add: registry_inv_def drop_region_def)
  show "\<exists>v'. get_mr (snd (put_region v s)) = (get_mr s)(fst (put_region v s) \<mapsto> v')" if "Suc k < 2 ^ 64"
    using handles_next [OF inv that] by (intro exI [of _ "v\<lparr>rg_id := mg_next_id s\<rparr>"])
      (auto simp: fun_eq_iff get_mr_def put_region_def Let_def)
  show "get_mr (drop_region h s) = (get_mr s)(h := None)" if "h \<noteq> 0"
    using that by (auto simp: fun_eq_iff get_mr_def drop_region_def)
  show "h \<noteq> 0 \<and> unat h \<le> k" if "get_mr s h \<noteq> None"
    using that handles_bound [OF inv] by (auto simp: get_mr_def split: if_splits)
qed

section \<open>Properties\<close>

lemma classify_region_fields [simp]:
  "rg_addr (classify_region h d n ty) = d" "rg_size (classify_region h d n ty) = n"
  "rg_refcount (classify_region h d n ty) = 1"
  "rg_type (classify_region h d n ty) = Cuda \<longleftrightarrow> bit ty 1 \<or> is_device_pointer h d \<noteq> None"
  by (auto simp: classify_region_def Let_def split: option.split)

lemma get_put_region:
  "fst (put_region mr r) \<noteq> 0 \<Longrightarrow>
   get_mr (snd (put_region mr r)) (fst (put_region mr r)) = Some (mr\<lparr>rg_id := fst (put_region mr r)\<rparr>)"
  by (simp add: get_mr_def put_region_def Let_def)

lemma deregister_put_region:
  assumes "fst (put_region mr r) \<noteq> 0" and "rg_refcount mr = 1"
  shows "deregister_mr (fst (put_region mr r)) (snd (put_region mr r)) =
    (True, drop_region (fst (put_region mr r)) (snd (put_region mr r)))"
  using assms by (simp add: deregister_mr_def put_region_def Let_def)

text \<open>
  C30. Registering a buffer, in any state that registrations and removals can produce, returns a
  handle that is neither null nor in use; it finds the region with the buffer's address and size, which
  is CUDA memory exactly if the caller or the runtime says so; every other handle finds what it found
  before, and deregistering the handle succeeds and restores the table.
\<close>

theorem registration_roundtrip:
  assumes "registry_inv k r" and "Suc k < 2 ^ 64" and "data \<noteq> 0" and "nbytes \<noteq> 0"
    and "register_mr h data nbytes ty r = (i, r')"
  shows "i \<noteq> 0 \<and> get_mr r i = None \<and>
    (\<exists>mr. get_mr r' i = Some mr \<and> rg_id mr = i \<and> rg_addr mr = data \<and> rg_size mr = nbytes \<and>
       (rg_type mr = Cuda \<longleftrightarrow> bit ty 1 \<or> is_device_pointer h data \<noteq> None)) \<and>
    (\<forall>j. j \<noteq> i \<longrightarrow> get_mr r' j = get_mr r j) \<and>
    fst (deregister_mr i r') \<and> get_mr (snd (deregister_mr i r')) = get_mr r"
proof -
  let ?mr = "classify_region h data nbytes ty"
  have put: "put_region ?mr r = (i, r')"
    using assms(3-5) by (simp add: register_mr_def)
  have new: "i \<noteq> 0" "get_mr r i = None"
    using registry.handle_new [OF assms(1,2), of ?mr] put by simp_all
  have region: "get_mr r' i = Some (?mr\<lparr>rg_id := i\<rparr>)"
    using get_put_region [of ?mr r] put new(1) by simp
  obtain v' where "get_mr r' = (get_mr r)(i \<mapsto> v')"
    using registry.put_entry [OF assms(1,2), of ?mr] put by auto
  then have others: "\<forall>j. j \<noteq> i \<longrightarrow> get_mr r' j = get_mr r j" by simp
  have dereg: "deregister_mr i r' = (True, drop_region i r')"
    using deregister_put_region [of ?mr r] put new(1) by simp
  have restored: "get_mr (drop_region i r') = get_mr r"
    using registry.put_drop [OF assms(1,2), of ?mr] put by simp
  show ?thesis
    using new region others dereg restored classify_region_fields [of h data nbytes ty] by simp
qed

definition cuda_absent :: cuda_host where
  "cuda_absent = \<lparr>cuda = None, mlock = (\<lambda>_ _. True)\<rparr>"

theorem registration_roundtrip_witness:
  "fst (register_mr cuda_absent 4096 64 1 registry_fresh) \<noteq> 0 \<and>
   get_mr (snd (deregister_mr 1 (snd (register_mr cuda_absent 4096 64 1 registry_fresh)))) =
     get_mr registry_fresh"
proof -
  let ?p = "register_mr cuda_absent 4096 64 1 registry_fresh"
  have one: "fst ?p = 1"
    by (simp add: register_mr_def put_region_def registry_fresh_def Let_def)
  have "?p = (1, snd ?p)"
    using one by (simp add: prod_eq_iff)
  from registration_roundtrip [OF registry_inv_fresh _ _ _ this] one show ?thesis by simp
qed

end
