(* ===== verification/Nccl_Plugin.thy ===== *)
theory Nccl_Plugin
  imports Shim Cuda_Mr "HOL-Library.Signed_Division"
begin

text \<open>
  The NCCL net plugin, \<open>shim/nccl_plugin.hpp\<close> and \<open>shim/nccl_plugin.cpp\<close>: its globals with the one
  shim of the process, communicators, memory registrations and requests.

  A communicator is an address the allocator returns, an argument; reading one that has been deleted
  is undefined and the operation answers \<open>None\<close>.  An out parameter that is a null pointer is \<open>False\<close> or
  \<open>None\<close> among the arguments.  What the bootstrap needs of the machine is the \<open>boot_env\<close> argument, and
  \<open>order\<close> is the order in which the unordered map of requests is walked.
\<close>

section \<open>Data\<close>

datatype nccl_result =
    NcclSuccess | NcclUnhandledCudaError | NcclSystemError | NcclInternalError | NcclInvalidArgument
  | NcclInvalidUsage | NcclRemoteError | NcclInProgress

record nccl_handle =
  nh_name :: string
  nh_ptr :: ptr

record nccl_properties =
  np_name :: string
  np_pci_path :: string
  np_guid :: u64
  np_ptr_support :: int
  np_reg_is_global :: int
  np_speed :: int
  np_port :: int
  np_latency :: real
  np_max_comms :: int
  np_max_recvs :: int
  np_net_device_type :: int
  np_net_device_version :: int

record plugin_comm =
  pc_peer_rank :: int
  pc_local_gpu :: int
  pc_rail :: int
  pc_is_send :: bool

definition comm_fresh :: plugin_comm where
  "comm_fresh = \<lparr>pc_peer_rank = 0, pc_local_gpu = 0, pc_rail = 0, pc_is_send = True\<rparr>"

record plugin_request =
  rr_transfer_id :: transfer_id
  rr_size :: u64
  rr_done :: bool
  rr_result_size :: int
  rr_mhandle :: u64
  rr_data :: ptr
  rr_peer_buf :: ptr
  rr_is_cuda :: bool
  rr_rail :: int

type_synonym request_table = "(u64 \<times> plugin_request) list"

record 'g plugin =
  pl_shim :: "'g shim option"
  pl_req_ids :: u64
  pl_requests :: request_table
  pl_logger :: bool
  pl_weights_path :: string
  pl_pcis :: "string list"
  pl_comms :: "ptr \<rightharpoonup> plugin_comm"
  pl_registry :: memory_registry
  pl_wire :: wire

definition plugin_fresh :: "wire \<Rightarrow> 'g plugin" where
  "plugin_fresh w = \<lparr>pl_shim = None, pl_req_ids = 1, pl_requests = [], pl_logger = False, pl_weights_path = [],
     pl_pcis = [[], []], pl_comms = Map.empty, pl_registry = registry_fresh, pl_wire = w\<rparr>"

record 'g boot_env =
  be_rng :: "'g rng_ops"
  be_seed :: 'g
  be_host :: ib_host
  be_machine :: machine
  be_weights :: "string \<Rightarrow> u8 list option"
  be_enc :: f32_enc
  be_dec :: f32_dec
  be_rounds :: nat
  be_cursor :: nat

section \<open>Ranks and classes\<close>

text \<open>Division and remainder of \<open>int\<close> truncate.\<close>

definition gpu_ep :: "int \<Rightarrow> endpoint_id" where
  "gpu_ep rank = \<lparr>node_id = word_of_int (rank sdiv 8), local_id = word_of_int (rank smod 8), ep_type = GPU\<rparr>"

definition classify_tag :: "int \<Rightarrow> u64 \<Rightarrow> traffic_class" where
  "classify_tag tag nbytes =
     (if 256 * 1024 * 1024 \<le> nbytes then KVMigration
      else if 1000 \<le> tag then KVMigration
      else if 100 \<le> tag then PipelineParallel
      else TensorParallel)"

definition class_deadline :: "traffic_class \<Rightarrow> real" where
  "class_deadline cls = (if cls = TensorParallel then 50 else 50000)"

section \<open>Bootstrap and devices\<close>

definition nccl_plugin_bootstrap ::
  "'g boot_env \<Rightarrow> string option \<Rightarrow> 'g plugin \<Rightarrow> bool \<times> 'g plugin"
where
  "nccl_plugin_bootstrap env weights_path st =
     (if pl_shim st \<noteq> None then (True, st)
      else
        let path = (case weights_path of None \<Rightarrow> pl_weights_path st | Some p \<Rightarrow> p);
            opts = init_options_default\<lparr>io_weights_path := path, io_enable_executor := True\<rparr>;
            (ok, sh, ib) = initialize (be_rng env) (be_seed env) (be_host env) (be_machine env) (be_weights env)
                             (be_enc env) (be_dec env) (be_rounds env) (be_cursor env) opts (fst (pl_wire st))
        in (ok, st\<lparr>pl_weights_path := path, pl_shim := Some sh, pl_wire := (ib, snd (pl_wire st))\<rparr>))"

definition plugin_init :: "'g boot_env \<Rightarrow> bool \<Rightarrow> 'g plugin \<Rightarrow> nccl_result \<times> 'g plugin" where
  "plugin_init env has_logger st =
     (let (ok, st') = nccl_plugin_bootstrap env None (st\<lparr>pl_logger := has_logger\<rparr>)
      in (if ok then NcclSuccess else NcclInternalError, st'))"

text \<open>The singleton is initialised when it is not available.\<close>

definition ensure_ib :: "ib_host \<Rightarrow> 'g plugin \<Rightarrow> 'g plugin" where
  "ensure_ib h st =
     (if ib_ready (fst (pl_wire st)) then st
      else st\<lparr>pl_wire := (snd (ib_init h (int kIbRailCount) (fst (pl_wire st))), snd (pl_wire st))\<rparr>)"

definition plugin_devices :: "ib_host \<Rightarrow> bool \<Rightarrow> 'g plugin \<Rightarrow> nccl_result \<times> int option \<times> 'g plugin" where
  "plugin_devices h wants_ndev st =
     (if \<not> wants_ndev then (NcclInvalidArgument, None, st)
      else let st' = ensure_ib h st
           in (NcclSuccess, Some (max 1 (int (length (ib_devices (fst (pl_wire st')))))), st'))"

text \<open>The path buffers are static: a rail without a device keeps what was written before.\<close>

definition plugin_getProperties ::
  "ib_host \<Rightarrow> cuda_host \<Rightarrow> int \<Rightarrow> bool \<Rightarrow> 'g plugin \<Rightarrow> nccl_result \<times> nccl_properties option \<times> 'g plugin"
where
  "plugin_getProperties h cu dev wants_props st =
     (if \<not> wants_props then (NcclInvalidArgument, None, st)
      else
        let st1 = ensure_ib h st;
            rail = nat (max 0 (min dev (int kIbRailCount - 1)));
            devs = ib_devices (fst (pl_wire st1));
            st2 = (if rail < length devs
                   then st1\<lparr>pl_pcis := (pl_pcis st1)[rail :=
                          take 95 (''/sys/class/infiniband/'' @ dev_name (devs ! rail) @ ''/device'')]\<rparr>
                   else st1)
        in (NcclSuccess,
            Some \<lparr>np_name = [''hics_rail0'', ''hics_rail1''] ! rail, np_pci_path = pl_pcis st2 ! rail,
                  np_guid = 0x4849435300000000 OR of_nat rail, np_ptr_support = supported_ptr_types cu,
                  np_reg_is_global = 0, np_speed = 400000, np_port = int rail, np_latency = 0.8,
                  np_max_comms = 65536, np_max_recvs = 64, np_net_device_type = 0, np_net_device_version = 0\<rparr>,
            st2))"

section \<open>Communicators\<close>

text \<open>\<open>addr\<close> is the address of the new communicator; the handle is both read and written.\<close>

definition plugin_listen ::
  "ptr \<Rightarrow> int \<Rightarrow> nccl_handle option \<Rightarrow> bool \<Rightarrow> 'g plugin \<Rightarrow> nccl_result \<times> nccl_handle option \<times> ptr option \<times> 'g plugin"
where
  "plugin_listen addr dev handle wants_comm st =
     (if \<not> wants_comm then (NcclInvalidArgument, handle, None, st)
      else
        let comm = comm_fresh\<lparr>pc_is_send := False, pc_rail := max 0 dev\<rparr>
        in (NcclSuccess,
            map_option (\<lambda>h. h\<lparr>nh_name := take 63 (''hics_rail'' @ int_string (pc_rail comm)), nh_ptr := addr\<rparr>) handle,
            Some addr, st\<lparr>pl_comms := (pl_comms st)(addr \<mapsto> comm)\<rparr>))"

definition plugin_connect ::
  "ptr \<Rightarrow> int \<Rightarrow> nccl_handle option \<Rightarrow> bool \<Rightarrow> 'g plugin \<Rightarrow> (nccl_result \<times> ptr option \<times> 'g plugin) option"
where
  "plugin_connect addr dev handle wants_comm st =
     (if \<not> wants_comm then Some (NcclInvalidArgument, None, st)
      else
        let comm = comm_fresh\<lparr>pc_is_send := True, pc_rail := max 0 dev\<rparr>;
            enter = (\<lambda>c. Some (NcclSuccess, Some addr, st\<lparr>pl_comms := (pl_comms st)(addr \<mapsto> c)\<rparr>))
        in case handle of
             None \<Rightarrow> enter comm
           | Some h \<Rightarrow>
               if nh_ptr h = 0 then enter comm
               else case pl_comms st (nh_ptr h) of
                 None \<Rightarrow> None
               | Some l \<Rightarrow> enter (comm\<lparr>pc_peer_rank := pc_local_gpu l,
                                    pc_rail := (if 0 \<le> pc_rail l then pc_rail l else pc_rail comm)\<rparr>))"

definition plugin_accept ::
  "ptr \<Rightarrow> ptr \<Rightarrow> bool \<Rightarrow> 'g plugin \<Rightarrow> (nccl_result \<times> ptr option \<times> 'g plugin) option"
where
  "plugin_accept addr listen_comm wants_comm st =
     (if listen_comm = 0 \<or> \<not> wants_comm then Some (NcclInvalidArgument, None, st)
      else case pl_comms st listen_comm of
        None \<Rightarrow> None
      | Some l \<Rightarrow> Some (NcclSuccess, Some addr, st\<lparr>pl_comms := (pl_comms st)(addr \<mapsto> l)\<rparr>))"

text \<open>\<open>closeSend\<close>, \<open>closeRecv\<close> and \<open>closeListen\<close> delete the communicator; deleting null does nothing.\<close>

definition plugin_close :: "ptr \<Rightarrow> 'g plugin \<Rightarrow> (nccl_result \<times> 'g plugin) option" where
  "plugin_close comm st =
     (if comm = 0 then Some (NcclSuccess, st)
      else if pl_comms st comm = None then None
      else Some (NcclSuccess, st\<lparr>pl_comms := (pl_comms st)(comm := None)\<rparr>))"

section \<open>Memory registrations\<close>

definition plugin_regMr ::
  "cuda_host \<Rightarrow> ptr \<Rightarrow> u64 \<Rightarrow> int \<Rightarrow> bool \<Rightarrow> 'g plugin \<Rightarrow> nccl_result \<times> u64 option \<times> 'g plugin"
where
  "plugin_regMr cu data nbytes ty wants_handle st =
     (if \<not> wants_handle \<or> data = 0 \<or> nbytes = 0 then (NcclInvalidArgument, None, st)
      else
        let (h, reg) = register_mr cu data nbytes ty (pl_registry st); st' = st\<lparr>pl_registry := reg\<rparr>
        in if h = 0 then (NcclSystemError, None, st') else (NcclSuccess, Some h, st'))"

definition plugin_deregMr :: "u64 \<Rightarrow> 'g plugin \<Rightarrow> nccl_result \<times> 'g plugin" where
  "plugin_deregMr mhandle st =
     (if mhandle = 0 then (NcclSuccess, st)
      else
        let (ok, reg) = deregister_mr mhandle (pl_registry st)
        in (if ok then NcclSuccess else NcclInvalidArgument, st\<lparr>pl_registry := reg\<rparr>))"

section \<open>Requests\<close>

definition put_request :: "plugin_request \<Rightarrow> 'g plugin \<Rightarrow> u64 \<times> 'g plugin" where
  "put_request rq st =
     (let i = pl_req_ids st
      in (i, st\<lparr>pl_req_ids := i + 1, pl_requests := AList.update i rq (pl_requests st)\<rparr>))"

definition drop_request :: "u64 \<Rightarrow> 'g plugin \<Rightarrow> 'g plugin" where
  "drop_request i st = st\<lparr>pl_requests := AList.delete i (pl_requests st)\<rparr>"

text \<open>Whether the buffer is device memory; \<open>Inl\<close> when the handle or the bounds are wrong.\<close>

definition buffer_is_cuda :: "cuda_host \<Rightarrow> memory_registry \<Rightarrow> u64 \<Rightarrow> ptr \<Rightarrow> nccl_result + bool" where
  "buffer_is_cuda cu reg mhandle data =
     (if mhandle \<noteq> 0 then
        (case get_mr reg mhandle of None \<Rightarrow> Inl NcclInvalidUsage | Some mr \<Rightarrow> Inr (rg_type mr = Cuda))
      else Inr (data \<noteq> 0 \<and> is_device_pointer cu data \<noteq> None))"

definition send_in_bounds :: "memory_registry \<Rightarrow> u64 \<Rightarrow> ptr \<Rightarrow> u64 \<Rightarrow> bool" where
  "send_in_bounds reg mhandle data nbytes =
     (case get_mr reg mhandle of
        None \<Rightarrow> True
      | Some mr \<Rightarrow> \<not> (rg_addr mr \<noteq> data \<and> data \<noteq> 0 \<and>
                     (data < rg_addr mr \<or> rg_addr mr + rg_size mr < data + nbytes)))"

definition result_int :: "u64 \<Rightarrow> int" where
  "result_int nbytes = sint (ucast nbytes :: u32)"

definition plugin_isend ::
  "call_clock \<Rightarrow> real \<Rightarrow> cuda_host \<Rightarrow> ptr \<Rightarrow> ptr \<Rightarrow> u64 \<Rightarrow> int \<Rightarrow> u64 \<Rightarrow> bool \<Rightarrow> 'g plugin \<Rightarrow>
   (nccl_result \<times> u64 option \<times> 'g plugin) option"
where
  "plugin_isend c junk cu send_comm data nbytes tag mhandle wants_request st =
     (if send_comm = 0 \<or> \<not> wants_request then Some (NcclInvalidArgument, None, st)
      else case pl_shim st of None \<Rightarrow> Some (NcclInternalError, None, st) | Some sh \<Rightarrow>
        (case buffer_is_cuda cu (pl_registry st) mhandle data of Inl err \<Rightarrow> Some (err, None, st) | Inr is_cuda \<Rightarrow>
           if \<not> send_in_bounds (pl_registry st) mhandle data nbytes then Some (NcclInvalidArgument, None, st)
           else case pl_comms st send_comm of None \<Rightarrow> None | Some comm \<Rightarrow>
             let cls = classify_tag tag nbytes;
                 (tid, sh', w') = submit_transfer c junk cls (gpu_ep (pc_local_gpu comm)) (gpu_ep (pc_peer_rank comm))
                                    nbytes (class_deadline cls) data 0 (sh, pl_wire st);
                 rq = \<lparr>rr_transfer_id = tid, rr_size = nbytes, rr_done = False, rr_result_size = result_int nbytes,
                       rr_mhandle = mhandle, rr_data = data, rr_peer_buf = 0, rr_is_cuda = is_cuda,
                       rr_rail = pc_rail comm\<rparr>;
                 (rid, st') = put_request rq (st\<lparr>pl_shim := Some sh', pl_wire := w'\<rparr>)
             in Some (NcclSuccess, Some rid, st')))"

text \<open>
  A receive takes the data of the first request of its size that has data and no peer yet as its
  source, and gives that request its buffer.
\<close>

definition unpaired :: "u64 \<Rightarrow> u64 \<times> plugin_request \<Rightarrow> bool" where
  "unpaired nbytes kv \<longleftrightarrow> \<not> rr_done (snd kv) \<and> rr_data (snd kv) \<noteq> 0 \<and> rr_peer_buf (snd kv) = 0 \<and> rr_size (snd kv) = nbytes"

definition pair_request ::
  "(request_table \<Rightarrow> request_table) \<Rightarrow> u64 \<Rightarrow> ptr \<Rightarrow> request_table \<Rightarrow> ptr \<times> request_table"
where
  "pair_request order nbytes buf tbl =
     (case List.find (unpaired nbytes) (order tbl) of
        None \<Rightarrow> (0, tbl)
      | Some (i, rq) \<Rightarrow> (rr_data rq, AList.update i (rq\<lparr>rr_peer_buf := buf\<rparr>) tbl))"

text \<open>Of the arrays only the first elements are used; a null array is \<open>None\<close>.\<close>

definition plugin_irecv ::
  "(request_table \<Rightarrow> request_table) \<Rightarrow> call_clock \<Rightarrow> real \<Rightarrow> cuda_host \<Rightarrow> ptr \<Rightarrow> int \<Rightarrow> ptr option \<Rightarrow> u64 option \<Rightarrow>
   int option \<Rightarrow> u64 option \<Rightarrow> bool \<Rightarrow> 'g plugin \<Rightarrow> (nccl_result \<times> u64 option \<times> 'g plugin) option"
where
  "plugin_irecv order c junk cu recv_comm n datas sizes tags mhandles wants_request st =
     (if recv_comm = 0 \<or> \<not> wants_request \<or> n < 1 then Some (NcclInvalidArgument, None, st)
      else case pl_shim st of None \<Rightarrow> Some (NcclInternalError, None, st) | Some sh \<Rightarrow>
        let nbytes = (case sizes of None \<Rightarrow> 0 | Some s \<Rightarrow> s);
            tag = (case tags of None \<Rightarrow> 0 | Some t \<Rightarrow> t);
            mhandle = (case mhandles of None \<Rightarrow> 0 | Some m \<Rightarrow> m);
            buf = (case datas of None \<Rightarrow> 0 | Some d \<Rightarrow> d)
        in case buffer_is_cuda cu (pl_registry st) mhandle buf of Inl err \<Rightarrow> Some (err, None, st) | Inr is_cuda \<Rightarrow>
           (case pl_comms st recv_comm of None \<Rightarrow> None | Some comm \<Rightarrow>
             let cls = classify_tag tag nbytes;
                 (src, tbl) = pair_request order nbytes buf (pl_requests st);
                 (tid, sh', w') = submit_transfer c junk cls (gpu_ep (pc_peer_rank comm)) (gpu_ep (pc_local_gpu comm))
                                    nbytes (class_deadline cls) src buf (sh, pl_wire st);
                 rq = \<lparr>rr_transfer_id = tid, rr_size = nbytes, rr_done = False, rr_result_size = result_int nbytes,
                       rr_mhandle = mhandle, rr_data = buf, rr_peer_buf = src, rr_is_cuda = is_cuda,
                       rr_rail = pc_rail comm\<rparr>;
                 (rid, st') = put_request rq (st\<lparr>pl_shim := Some sh', pl_wire := w', pl_requests := tbl\<rparr>)
             in Some (NcclSuccess, Some rid, st')))"

text \<open>The flushes synchronise the stream; their results are ignored and the request is null.\<close>

definition plugin_iflush ::
  "cuda_host \<Rightarrow> u64 list \<Rightarrow> bool \<Rightarrow> 'g plugin \<Rightarrow> bool list \<times> nccl_result \<times> u64 option \<times> 'g plugin"
where
  "plugin_iflush cu mhandles wants_request st =
     (map (\<lambda>m. flush_mr cu m (pl_registry st)) mhandles, NcclSuccess, if wants_request then Some 0 else None, st)"

definition transfer_over :: "transfer_progress \<Rightarrow> bool" where
  "transfer_over p \<longleftrightarrow> tp_state p = Completed \<or> tp_state p = Cancelled \<or> tp_bytes_remaining p = 0"

text \<open>
  The second and third components are what is written through \<open>done\<close> and \<open>sizes\<close>.  A request in the
  table without a shim cannot be asked for: that is undefined.  Before a request of device memory is
  reported done its region is flushed (\<open>flush_mr\<close>): that waits for the stream, its result is ignored and
  no state of the model depends on it.
\<close>

definition plugin_test ::
  "call_clock \<Rightarrow> u64 \<Rightarrow> bool \<Rightarrow> bool \<Rightarrow> 'g plugin \<Rightarrow> (nccl_result \<times> bool option \<times> int option \<times> 'g plugin) option"
where
  "plugin_test c request wants_done wants_sizes st =
     (if \<not> wants_done then Some (NcclInvalidArgument, None, None, st)
      else if request = 0 then Some (NcclSuccess, Some True, None, st)
      else case map_of (pl_requests st) request of
        None \<Rightarrow> Some (NcclSuccess, Some True, None, st)
      | Some rq \<Rightarrow>
          (case pl_shim st of None \<Rightarrow> None | Some sh \<Rightarrow>
             let (n, sh', w') = poll_transfers c 0.2 (sh, pl_wire st);
                 st' = st\<lparr>pl_shim := Some sh', pl_wire := w'\<rparr>
             in if transfer_over (transfer_status sh' (rr_transfer_id rq))
                then Some (NcclSuccess, Some True, if wants_sizes then Some (rr_result_size rq) else None,
                           drop_request request st')
                else Some (NcclSuccess, Some False, None, st')))"

section \<open>The C interface\<close>

definition c_result :: "nccl_result \<Rightarrow> int" where
  "c_result r = (if r = NcclSuccess then 0 else -1)"

definition hics_plugin_init :: "'g boot_env \<Rightarrow> 'g plugin \<Rightarrow> int \<times> 'g plugin" where
  "hics_plugin_init env st = (let (ok, st') = nccl_plugin_bootstrap env None st in (if ok then 0 else -1, st'))"

definition hics_plugin_devices :: "ib_host \<Rightarrow> bool \<Rightarrow> 'g plugin \<Rightarrow> int \<times> int option \<times> 'g plugin" where
  "hics_plugin_devices h wants_ndev st = apfst c_result (plugin_devices h wants_ndev st)"

definition hics_plugin_isend ::
  "call_clock \<Rightarrow> real \<Rightarrow> cuda_host \<Rightarrow> ptr \<Rightarrow> ptr \<Rightarrow> u64 \<Rightarrow> int \<Rightarrow> u64 \<Rightarrow> bool \<Rightarrow> 'g plugin \<Rightarrow>
   (int \<times> u64 option \<times> 'g plugin) option"
where
  "hics_plugin_isend c junk cu send_comm data nbytes tag mhandle wants_request st =
     map_option (apfst c_result) (plugin_isend c junk cu send_comm data nbytes tag mhandle wants_request st)"

definition hics_plugin_irecv ::
  "(request_table \<Rightarrow> request_table) \<Rightarrow> call_clock \<Rightarrow> real \<Rightarrow> cuda_host \<Rightarrow> ptr \<Rightarrow> ptr \<Rightarrow> u64 \<Rightarrow> int \<Rightarrow> u64 \<Rightarrow> bool \<Rightarrow>
   'g plugin \<Rightarrow> (int \<times> u64 option \<times> 'g plugin) option"
where
  "hics_plugin_irecv order c junk cu recv_comm data nbytes tag mhandle wants_request st =
     map_option (apfst c_result)
       (plugin_irecv order c junk cu recv_comm 1 (Some data) (Some nbytes) (Some tag) (Some mhandle) wants_request st)"

definition hics_plugin_test ::
  "call_clock \<Rightarrow> u64 \<Rightarrow> bool \<Rightarrow> bool \<Rightarrow> 'g plugin \<Rightarrow> (int \<times> bool option \<times> int option \<times> 'g plugin) option"
where
  "hics_plugin_test c request wants_done wants_size st =
     map_option (apfst c_result) (plugin_test c request wants_done wants_size st)"

end
