(* ===== verification/Ucx.thy ===== *)
theory Ucx
  imports Shim
begin

text \<open>
  The UCX-style transport, \<open>shim/ucx_transport.hpp\<close> and \<open>shim/ucx_transport.cpp\<close>, over the shim that
  owns it, and the loop in which its clients wait for a request
  (\<open>while (!request_completed(req)) progress(1.0)\<close> in \<open>apps/kv_migration_demo.cpp\<close>).
\<close>

section \<open>Data\<close>

record ucx_endpoint =
  ue_local :: endpoint_id
  ue_remote :: endpoint_id
  ue_uct_ep :: ptr

record ucx_request =
  ur_transfer_id :: transfer_id
  ur_length :: u64
  ur_completed :: bool

definition ucx_request_fresh :: ucx_request where
  "ucx_request_fresh = \<lparr>ur_transfer_id = 0, ur_length = 0, ur_completed = False\<rparr>"

section \<open>Interface and endpoints\<close>

definition close_iface :: "ucx_transport \<Rightarrow> ucx_transport" where
  "close_iface t = t\<lparr>ux_open := False\<rparr>"

definition uct_ep_of :: "endpoint_id \<Rightarrow> endpoint_id \<Rightarrow> ptr" where
  "uct_ep_of l r =
     push_bit 32 (ucast (node_id l)) OR push_bit 16 (ucast (local_id l)) OR
     push_bit 8 (ucast (node_id r)) OR ucast (local_id r)"

definition create_ep :: "ucx_transport \<Rightarrow> endpoint_id \<Rightarrow> endpoint_id \<Rightarrow> ucx_endpoint option" where
  "create_ep t l r =
     (if \<not> ux_open t then None
      else Some \<lparr>ue_local = l, ue_remote = r, ue_uct_ep = uct_ep_of l r\<rparr>)"

section \<open>Transfers\<close>

text \<open>A failed call before the submission leaves the request as it was.\<close>

definition zcopy_put ::
  "call_clock \<Rightarrow> real \<Rightarrow> ucx_endpoint \<Rightarrow> ptr \<Rightarrow> u64 \<Rightarrow> traffic_class \<Rightarrow> real \<Rightarrow> ptr \<Rightarrow> ucx_request \<Rightarrow>
   'g shim \<times> wire \<Rightarrow> int \<times> ucx_request \<times> 'g shim \<times> wire"
where
  "zcopy_put c junk ep buf len cls deadline remote req st =
     (let t = sh_ucx (fst st)
      in if \<not> ux_open t then (-1, req, st)
         else if uc_max_zcopy_bytes (ux_config t) < len then (-1, req, st)
         else
           let dl = (if 0 < deadline then deadline else uc_default_deadline_us (ux_config t));
               (i, st') = submit_transfer c junk cls (ue_local ep) (ue_remote ep) len dl buf remote st
           in (if i = 0 then -1 else 0, \<lparr>ur_transfer_id = i, ur_length = len, ur_completed = False\<rparr>, st'))"

definition zcopy_get ::
  "call_clock \<Rightarrow> real \<Rightarrow> ucx_endpoint \<Rightarrow> ptr \<Rightarrow> u64 \<Rightarrow> traffic_class \<Rightarrow> real \<Rightarrow> ptr \<Rightarrow> ucx_request \<Rightarrow>
   'g shim \<times> wire \<Rightarrow> int \<times> ucx_request \<times> 'g shim \<times> wire"
where
  "zcopy_get c junk ep buf len cls deadline remote req st =
     zcopy_put c junk (ep\<lparr>ue_local := ue_remote ep, ue_remote := ue_local ep\<rparr>) remote len cls deadline buf req st"

text \<open>The count is cut to 32 bits.\<close>

definition progress :: "call_clock \<Rightarrow> real \<Rightarrow> 'g shim \<times> wire \<Rightarrow> u32 \<times> 'g shim \<times> wire" where
  "progress c dt_ms st = (let (n, st') = poll_transfers c dt_ms st in (of_nat n, st'))"

definition request_completed :: "'g shim \<Rightarrow> ucx_request \<Rightarrow> bool" where
  "request_completed sh req \<longleftrightarrow>
     (let p = transfer_status sh (ur_transfer_id req)
      in tp_state p = Completed \<or> tp_bytes_remaining p = 0)"

text \<open>
  The waiting loop; \<open>None\<close> is a loop that does not end.  \<open>clocks n\<close> is the clock of the \<open>n\<close>-th round and
  \<open>D n\<close> what the daemon's thread does to the telemetry before it.
\<close>

partial_function (option) wait_completed ::
  "(nat \<Rightarrow> call_clock) \<Rightarrow> (nat \<Rightarrow> 'g daemon \<Rightarrow> 'g daemon) \<Rightarrow> real \<Rightarrow> ucx_request \<Rightarrow> nat \<Rightarrow> 'g shim \<times> wire \<Rightarrow>
   ('g shim \<times> wire) option"
where
  "wait_completed clocks D dt_ms req n st =
     (if request_completed (fst st) req then Some st
      else wait_completed clocks D dt_ms req (Suc n)
             (snd (progress (clocks n) dt_ms
                ((fst st)\<lparr>sh_telemetry := D n (sh_telemetry (fst st))\<rparr>, snd st))))"

end
