(* ===== verification/Shim_Props.thy ===== *)
theory Shim_Props
  imports Ucx Telemetry_Props Path_Props Executor_Live
begin

text \<open>
  Properties of the shim and of the transport on top of it: what every operation keeps of the state of
  the components, and that a transfer put through the transport ends with its bytes delivered.
\<close>

section \<open>The graph under the engine's operations\<close>

lemma flexibility_graph_ok [wf_intros]: "graph_ok g \<Longrightarrow> graph_ok (snd (flexibility_set g s d cls))"
  by (simp add: graph_ok_def flexibility_cache_ok)

text \<open>The engine only fills the cache of the graph.\<close>

definition same_graph :: "topology_graph \<Rightarrow> topology_graph \<Rightarrow> bool" where
  "same_graph g g' \<longleftrightarrow> edges g' = edges g \<and> vertices g' = vertices g \<and> default_k g' = default_k g \<and>
     default_max_hops g' = default_max_hops g \<and> (graph_ok g \<longrightarrow> graph_ok g')"

lemma same_graph_refl [simp]: "same_graph g g"
  by (simp add: same_graph_def)

lemma same_graph_trans: "same_graph a b \<Longrightarrow> same_graph b c \<Longrightarrow> same_graph a c"
  by (simp add: same_graph_def)

lemma flexibility_same [simp]: "same_graph g (snd (flexibility_set g s d cls))"
  by (simp add: same_graph_def flexibility_graph_ok)

lemma select_same_graph [simp]: "same_graph (pw_graph w) (pw_graph (snd (select_path lm req utils w)))"
  by (auto simp: select_path_def case_prod_unfold Let_def split: list.split)

lemma stripe_same_graph [simp]:
  "same_graph (pw_graph w) (pw_graph (snd (stripe_kv_migration lm req utils chunk w)))"
  by (auto simp: stripe_kv_migration_def case_prod_unfold Let_def)

lemma schedule_same_graph [simp]:
  "same_graph (pw_graph w) (pw_graph (snd (schedule_and_execute lm g now req utils opts w)))"
  by (auto simp: schedule_and_execute_def case_prod_unfold Let_def split: option.split)

lemma drain_one_same_graph [simp]: "same_graph (pw_graph w) (pw_graph (snd (drain_one lm g cur pr w)))"
  by (auto simp: drain_one_def case_prod_unfold Let_def split: option.split)

lemma drain_pending_same_graph [simp]:
  "same_graph (pw_graph w) (pw_graph (snd (snd (drain_pending lm g cur prs w))))"
proof (induction prs arbitrary: w)
  case (Cons pr prs)
  from same_graph_trans [OF drain_one_same_graph this] show ?case
    by (simp add: case_prod_unfold Let_def)
qed simp

lemma drain_same_graph [simp]:
  "same_graph (pw_graph w) (pw_graph (snd (drain_boundary_reroutes lm g cur w)))"
  by (auto simp: drain_boundary_reroutes_def case_prod_unfold Let_def)

lemma tick_drain_same_graph [simp]:
  "same_graph (pw_graph w) (pw_graph (fst (snd (tick_and_drain dt utils clock lm w wire))))"
proof (cases "pw_executor w")
  case (Some ex)
  then show ?thesis
    using drain_same_graph [of "w\<lparr>pw_executor := e, pw_engine := n\<rparr>" for e n]
    by (simp add: tick_and_drain_def case_prod_unfold Let_def)
qed (simp add: tick_and_drain_def)

section \<open>The table of transfers under the engine's operations\<close>

text \<open>
  The footprint of a table: its ids with the addresses each transfer may write to.  It and the next id
  stay what they are except when a transfer is submitted.
\<close>

definition footprint :: "executor \<Rightarrow> (transfer_id \<times> (ptr \<Rightarrow> bool)) list" where
  "footprint ex = map (\<lambda>(j, tp). (j, may_write tp)) (ex_transfers ex)"

definition same_table :: "executor \<Rightarrow> executor \<Rightarrow> bool" where
  "same_table ex ex' \<longleftrightarrow> footprint ex' = footprint ex \<and> ex_next_id ex' = ex_next_id ex"

lemma same_table_refl [simp]: "same_table ex ex"
  by (simp add: same_table_def)

lemma same_table_trans: "same_table a b \<Longrightarrow> same_table b c \<Longrightarrow> same_table a c"
  by (simp add: same_table_def)

lemma call_may_write: "transfer_call g tp tp' \<Longrightarrow> may_write tp' = may_write tp"
  using transfer_call_layout by (intro may_write_cong) blast+

lemma mark_suspend_may_write [simp]: "may_write (mark_suspend tp) = may_write tp"
  by (rule may_write_cong) (simp_all add: mark_suspend_def)

lemma footprint_update:
  "map_of kvs i = Some tp \<Longrightarrow> may_write tp' = may_write tp \<Longrightarrow>
   map (\<lambda>(j, tp). (j, may_write tp)) (AList.update i tp' kvs) = map (\<lambda>(j, tp). (j, may_write tp)) kvs"
  by (induction kvs) (auto split: if_splits)

lemma preempt_same_table [simp]: "same_table ex (snd (preempt_sharing busy n ex))"
  by (auto simp: same_table_def footprint_def preempt_sharing_alt)

lemma tick_same_table [simp]: "same_table ex (fst (snd (ib_tick cb g dt utils clock ex w k)))"
  by (auto simp: same_table_def footprint_def ib_tick_def tick_transfers)
    (simp add: tick_def with_env_def case_prod_unfold Let_def)

lemma reroute_same_table [simp]: "same_table ex (snd (reroute g i path ex))"
  using call_may_write [OF tc_reroute, of _ g path]
  by (auto simp: same_table_def footprint_def reroute_def put_transfer_def footprint_update
      split: option.split)

text \<open>Operations of the engine over an executor, and the transfers that wait for a reroute.\<close>

definition pending_ids :: "path_world \<Rightarrow> transfer_id set" where
  "pending_ids w = pr_id ` set (en_pending (pw_engine w))"

lemma select_table:
  assumes "pw_executor w = Some ex" and "snd (select_path lm req utils w) = w'"
  shows "\<exists>ex'. pw_executor w' = Some ex' \<and> same_table ex ex' \<and>
    (ex' = ex \<and> en_pending (pw_engine w') = en_pending (pw_engine w) \<or>
     (\<exists>es. ex' = snd (preempt_sharing es 8 ex) \<and>
        en_pending (pw_engine w') = en_pending (pw_engine w) @
          map (\<lambda>i. \<lparr>pr_id = i, pr_avoid_edges = es\<rparr>) (fst (preempt_sharing es 8 ex))))"
  unfolding assms(2) [symmetric] using assms(1)
  by (auto simp: select_path_def preempt_kv_migrations_def case_prod_unfold Let_def split: list.split)

lemma drain_one_table:
  assumes "pw_executor w = Some ex" and "snd (drain_one lm g cur pr w) = w'"
  shows "\<exists>ex'. pw_executor w' = Some ex' \<and> same_table ex ex' \<and>
    en_pending (pw_engine w') = en_pending (pw_engine w)"
  unfolding assms(2) [symmetric] using assms(1)
  by (auto simp: drain_one_def case_prod_unfold Let_def)

lemma drain_pending_table:
  assumes "pw_executor w = Some ex"
  shows "\<exists>ex'. pw_executor (snd (snd (drain_pending lm g cur prs w))) = Some ex' \<and> same_table ex ex'"
  using assms
proof (induction prs arbitrary: w ex)
  case (Cons pr prs)
  obtain ex1 where 1: "pw_executor (snd (drain_one lm g cur pr w)) = Some ex1" "same_table ex ex1"
    using drain_one_table [OF Cons.prems refl] by blast
  from Cons.IH [OF 1(1)] same_table_trans [OF 1(2)] show ?case
    by (auto simp: case_prod_unfold Let_def)
qed simp

lemma drain_table:
  assumes "pw_executor w = Some ex" and "snd (drain_boundary_reroutes lm g cur w) = w'"
  shows "\<exists>ex'. pw_executor w' = Some ex' \<and> same_table ex ex' \<and>
    pending_ids w' \<subseteq> pending_ids w"
  unfolding assms(2) [symmetric]
  using drain_pending_table [OF assms(1), of lm g cur "en_pending (pw_engine w)"]
    image_mono [OF conjunct2 [OF drain_pending_still [of lm g cur "en_pending (pw_engine w)" w]], of pr_id] assms(1)
  by (auto simp: drain_boundary_reroutes_def pending_ids_def case_prod_unfold Let_def)

text \<open>Scheduling adds one transfer, under the next id; without both buffers it writes nowhere.\<close>

definition adds_transfer :: "ptr \<Rightarrow> ptr \<Rightarrow> executor \<Rightarrow> executor \<Rightarrow> bool" where
  "adds_transfer sb db ex ex' \<longleftrightarrow> ex_next_id ex' = ex_next_id ex + 1 \<and>
     fst ` set (footprint ex') = insert (ex_next_id ex) (fst ` set (footprint ex)) \<and>
     set (footprint ex') \<subseteq> {(j, W). j = ex_next_id ex \<and> (sb = 0 \<or> db = 0 \<longrightarrow> W = (\<lambda>a. False))} \<union> set (footprint ex)"

lemma adds_same: "same_table a b \<Longrightarrow> adds_transfer sb db b c \<Longrightarrow> adds_transfer sb db a c"
  by (simp add: adds_transfer_def same_table_def)

abbreviation ids_of :: "executor \<Rightarrow> transfer_id set" where
  "ids_of ex \<equiv> fst ` set (footprint ex)"

lemma ids_of_table: "ids_of ex = fst ` set (ex_transfers ex)"
  by (force simp: footprint_def)

lemma enter_adds:
  assumes "ex_transfers ex' = AList.update (ex_next_id ex) tp (ex_transfers ex)"
    and "ex_next_id ex' = ex_next_id ex + 1" and "tp_src_buf tp = sb" and "tp_dst_buf tp = db"
  shows "adds_transfer sb db ex ex'"
proof -
  have "fst ` set (AList.update i tp kvs) = insert i (fst ` set kvs)" for i kvs
    by (simp add: dom_map_of_conv_image_fst [symmetric] update_conv')
  then have "ids_of ex' = insert (ex_next_id ex) (ids_of ex)"
    unfolding ids_of_table assms(1) .
  moreover have "set (footprint ex') \<subseteq> {(j, W). j = ex_next_id ex \<and> (sb = 0 \<or> db = 0 \<longrightarrow> W = (\<lambda>a. False))} \<union>
      set (footprint ex)"
    using set_update_subset [of "ex_next_id ex" tp "ex_transfers ex"] assms(1,3,4)
    by (force simp: footprint_def may_write_def fun_eq_iff)
  ultimately show ?thesis using assms(2) by (simp add: adds_transfer_def)
qed

lemma submit_adds [simp]: "adds_transfer (so_src_buf opts) (so_dst_buf opts) ex (snd (submit g now req path opts ex))"
  by (rule enter_adds) (simp add: submit_def default_progress_def Let_def)+

lemma striped_adds [simp]: "adds_transfer (so_src_buf opts) (so_dst_buf opts) ex (snd (submit_striped g now req cs opts ex))"
proof (cases cs)
  case Nil
  then show ?thesis by (simp add: submit_striped_def)
next
  case Cons
  show ?thesis by (rule enter_adds) (simp add: Cons submit_striped_def default_progress_def Let_def)+
qed

lemma stripe_pending [simp]:
  "en_pending (pw_engine (snd (stripe_kv_migration lm req utils chunk w))) = en_pending (pw_engine w)"
  by (simp add: stripe_kv_migration_def case_prod_unfold Let_def)

lemma register_pending [simp]: "en_pending (register_kv_flow i s d n sl es en) = en_pending en"
  by (simp add: register_kv_flow_def)

lemma preempt_ids_known:
  "exec_inv ex \<Longrightarrow> set (fst (preempt_sharing es n ex)) \<subseteq> ids_of ex"
  using preempt_chosen_hit [of _ es n ex]
  by (force simp: preempt_sharing_alt ids_of_table exec_inv_def)

lemma select_pending:
  assumes "pw_executor w = Some ex" and "exec_inv ex" and "snd (select_path lm req utils w) = w1"
  shows "\<exists>ex1. pw_executor w1 = Some ex1 \<and> same_table ex ex1 \<and> pending_ids w1 \<subseteq> pending_ids w \<union> ids_of ex"
  using select_table [OF assms(1,3)] preempt_ids_known [OF assms(2)] by (fastforce simp: pending_ids_def)

lemma schedule_table:
  assumes "pw_executor w = Some ex" and "exec_inv ex"
    and "schedule_and_execute lm g now req utils opts w = (i, w')"
  shows "i = ex_next_id ex \<and> (\<exists>ex'. pw_executor w' = Some ex' \<and> adds_transfer (so_src_buf opts) (so_dst_buf opts) ex ex') \<and>
    pending_ids w' \<subseteq> pending_ids w \<union> ids_of ex"
proof (cases "traffic req = KVMigration \<and> kKvChunkBytes < size_bytes req")
  case True
  have "fst (submit_striped g now req cs opts ex) = ex_next_id ex" for cs
    by (cases cs) (simp_all add: submit_striped_def submit_def Let_def)
  with True assms(1,3) show ?thesis
    by (auto simp: schedule_and_execute_def pending_ids_def case_prod_unfold Let_def)
next
  case False
  define w1 where "w1 = snd (select_path lm req utils w)"
  obtain ex1 where ex1: "pw_executor w1 = Some ex1" "same_table ex ex1" and
    pend: "pending_ids w1 \<subseteq> pending_ids w \<union> ids_of ex"
    using select_pending [OF assms(1,2) w1_def [symmetric]] by blast
  obtain path where "i = fst (submit g now req path opts ex1)" "pending_ids w' = pending_ids w1"
      "pw_executor w' = Some (snd (submit g now req path opts ex1))"
  proof
    show "i = fst (submit g now req (fst (select_path lm req utils w)) opts ex1)"
      "pending_ids w' = pending_ids w1"
      "pw_executor w' = Some (snd (submit g now req (fst (select_path lm req utils w)) opts ex1))"
      using False assms(1,3) ex1(1)
      by (auto simp: schedule_and_execute_def case_prod_unfold Let_def w1_def [symmetric] pending_ids_def
          split: if_splits)
  qed
  moreover have "fst (submit g now req path opts ex1) = ex_next_id ex" for path
    using ex1(2) by (simp add: submit_def same_table_def Let_def)
  ultimately show ?thesis
    using adds_same [OF ex1(2)] pend by auto
qed

section \<open>Every operation of the shim keeps the components sound\<close>

text \<open>
  After \<open>n\<close> submissions the table holds ids from 1 to \<open>n\<close>, the pending reroutes are about transfers of
  the table, the graph is the one built and its path cache is coherent.
\<close>

definition world_sound :: "graph_edge list \<Rightarrow> nat \<Rightarrow> path_world \<Rightarrow> bool" where
  "world_sound es n w \<longleftrightarrow> world_ok w \<and> edges (pw_graph w) = es \<and> graph_ok (pw_graph w) \<and>
     (\<forall>ex. pw_executor w = Some ex \<longrightarrow> ex_next_id ex = of_nat (Suc n) \<and> ids_of ex \<subseteq> of_nat ` {1..n} \<and>
        pending_ids w \<subseteq> ids_of ex)"

lemma world_sound_step:
  assumes "world_sound es n w" and "world_ok w'" and "same_graph (pw_graph w) (pw_graph w')"
    and "pw_executor w = None \<longleftrightarrow> pw_executor w' = None"
    and "\<And>ex. pw_executor w = Some ex \<Longrightarrow> \<exists>ex'. pw_executor w' = Some ex' \<and> same_table ex ex' \<and>
        pending_ids w' \<subseteq> pending_ids w"
  shows "world_sound es n w'"
proof (cases "pw_executor w")
  case None
  then show ?thesis using assms by (simp add: world_sound_def same_graph_def)
next
  case (Some ex)
  with assms(5) obtain ex' where "pw_executor w' = Some ex'" "same_table ex ex'"
    "pending_ids w' \<subseteq> pending_ids w" by blast
  then show ?thesis
    using assms(1-3) Some subset_trans by (fastforce simp: world_sound_def same_graph_def same_table_def)
qed

lemma schedule_sound:
  assumes "world_sound es n w" and "schedule_and_execute lm g now req utils opts w = (i, w')"
  shows "world_sound es (Suc n) w'"
proof (cases "pw_executor w")
  case None
  with assms show ?thesis by (auto simp: schedule_and_execute_def world_sound_def)
next
  case (Some ex)
  have inv: "exec_inv ex" using assms(1) Some by (simp add: world_sound_def world_ok_def)
  have ok: "world_ok w'" "same_graph (pw_graph w) (pw_graph w')"
    using schedule_world [of w lm g now req utils opts] schedule_same_graph [of w lm g now req utils opts] assms
    by (simp_all add: world_sound_def)
  from schedule_table [OF Some inv assms(2)] obtain ex' where
    ex': "pw_executor w' = Some ex'" "adds_transfer (so_src_buf opts) (so_dst_buf opts) ex ex'" and
    pend: "pending_ids w' \<subseteq> pending_ids w \<union> ids_of ex"
    by blast
  have n: "ex_next_id ex = of_nat (Suc n)" "ids_of ex \<subseteq> of_nat ` {1..n}"
    "pending_ids w \<subseteq> ids_of ex"
    using assms(1) Some by (auto simp: world_sound_def)
  have "ids_of ex' \<subseteq> of_nat ` {1..Suc n}"
    using ex'(2) n(1,2) by (auto simp: adds_transfer_def atLeastAtMostSuc_conv)
  moreover have "pending_ids w' \<subseteq> ids_of ex'"
    using pend n(3) ex'(2) by (auto simp: adds_transfer_def)
  moreover have "ex_next_id ex' = of_nat (Suc (Suc n))"
    using ex'(2) n(1) by (simp add: adds_transfer_def)
  ultimately show ?thesis
    using ok ex'(1) assms(1) by (simp add: world_sound_def same_graph_def)
qed

lemma kv_completed_pending [simp]:
  "en_pending (kv_completed tp en) = en_pending en"
  by (simp add: kv_completed_def unregister_kv_flow_def)

lemma tick_callback_pending:
  "en_pending (snd (snd (snd (ib_tick (Some kv_completed) g dt utils clock ex w en)))) = en_pending en"
proof -
  have chunk: "te_cb (snd (advance_chunks mv g dt utils tp chs env)) = te_cb env"
    for mv tp chs and env :: "(wire, engine) tick_env"
    by (induction chs arbitrary: env) (simp_all add: advance_chunk_def case_prod_unfold Let_def)
  have one: "en_pending (te_cb (snd (snd (tick_transfer mv (Some kv_completed) g dt utils now tp env)))) =
      en_pending (te_cb env)" for mv now tp and env :: "(wire, engine) tick_env"
    by (cases "is_active tp")
      (simp_all add: tick_transfer_def conclude_transfer_def complete_transfer_def chunk case_prod_unfold Let_def)
  have "en_pending (te_cb (snd (snd (tick_all mv (Some kv_completed) g dt utils clock kvs env)))) =
      en_pending (te_cb env)" for mv kvs and env :: "(wire, engine) tick_env"
  proof (induction kvs arbitrary: env)
    case (Cons kv kvs)
    then show ?case by (cases kv) (simp add: case_prod_unfold Let_def one)
  qed simp
  then show ?thesis
    by (simp add: ib_tick_def tick_def env_of_def case_prod_unfold Let_def)
qed

text \<open>The tick of every transfer, then the drain, on one world.\<close>

lemma tick_drain_split:
  assumes "pw_executor w = Some ex" and "tick_and_drain dt utils clock lm w wire = (ids, w', wire')"
  shows "\<exists>ex1 en1 n. (ex1, wire', en1) =
      snd (ib_tick (Some kv_completed) (Some (edges (pw_graph w))) dt utils clock ex wire (pw_engine w)) \<and>
    ex_transfers ex1 = map (\<lambda>(i, tp). (i, ticked (Some (edges (pw_graph w))) dt utils (clock i) tp)) (ex_transfers ex) \<and>
    en_pending en1 = en_pending (pw_engine w) \<and>
    drain_boundary_reroutes lm (Some (edges (pw_graph w))) utils (w\<lparr>pw_executor := Some ex1, pw_engine := en1\<rparr>) = (n, w')"
proof -
  let ?r = "ib_tick (Some kv_completed) (Some (edges (pw_graph w))) dt utils clock ex wire (pw_engine w)"
  let ?w1 = "w\<lparr>pw_executor := Some (fst (snd ?r)), pw_engine := snd (snd (snd ?r))\<rparr>"
  obtain n where "drain_boundary_reroutes lm (Some (edges (pw_graph w))) utils ?w1 = (n, w')"
    using assms by (cases "drain_boundary_reroutes lm (Some (edges (pw_graph w))) utils ?w1")
      (simp add: tick_and_drain_def case_prod_unfold Let_def)
  moreover have "wire' = fst (snd (snd ?r))"
    using assms by (auto simp: tick_and_drain_def case_prod_unfold Let_def)
  moreover have "ex_transfers (fst (snd ?r)) =
      map (\<lambda>(i, tp). (i, ticked (Some (edges (pw_graph w))) dt utils (clock i) tp)) (ex_transfers ex)"
    by (simp add: ib_tick_def tick_transfers)
  ultimately show ?thesis using tick_callback_pending by (intro exI conjI) (auto simp: prod_eq_iff)
qed

lemma tick_drain_table:
  assumes "pw_executor w = Some ex" and "tick_and_drain dt utils clock lm w wire = (ids, w', wire')"
  shows "\<exists>ex'. pw_executor w' = Some ex' \<and> same_table ex ex'"
proof -
  let ?g = "Some (edges (pw_graph w))"
  let ?r = "ib_tick (Some kv_completed) ?g dt utils clock ex wire (pw_engine w)"
  obtain ex1 en1 n where tick: "(ex1, wire', en1) = snd ?r"
    and drain: "drain_boundary_reroutes lm ?g utils (w\<lparr>pw_executor := Some ex1, pw_engine := en1\<rparr>) = (n, w')"
    using tick_drain_split [OF assms] by blast
  have "same_table ex (fst (snd ?r))" by simp
  then have "same_table ex ex1" by (simp add: tick [symmetric])
  moreover obtain ex' where "pw_executor w' = Some ex'" "same_table ex1 ex'"
    using drain_table [of "w\<lparr>pw_executor := Some ex1, pw_engine := en1\<rparr>" ex1, OF _ arg_cong [OF drain, of snd]] by auto
  ultimately show ?thesis using same_table_trans by blast
qed

lemma tick_drain_sound:
  assumes "world_sound es n w"
  shows "world_sound es n (fst (snd (tick_and_drain dt utils clock lm w wire)))"
proof (cases "pw_executor w")
  case None
  then show ?thesis using assms by (simp add: tick_and_drain_def)
next
  case (Some ex)
  define r where "r = ib_tick (Some kv_completed) (Some (edges (pw_graph w))) dt utils clock ex wire (pw_engine w)"
  define w1 where "w1 = w\<lparr>pw_executor := Some (fst (snd r)), pw_engine := snd (snd (snd r))\<rparr>"
  have res: "fst (snd (tick_and_drain dt utils clock lm w wire)) =
      snd (drain_boundary_reroutes lm (Some (edges (pw_graph w))) utils w1)"
    by (simp add: tick_and_drain_def Some r_def w1_def case_prod_unfold Let_def)
  have ok: "world_ok w1"
    using assms Some by (simp add: w1_def r_def world_sound_def world_ok_def ib_tick_def tick_inv)
  have 1: "world_sound es n w1"
  proof (rule world_sound_step [OF assms ok])
    show "same_graph (pw_graph w) (pw_graph w1)" by (simp add: w1_def)
    show "(pw_executor w = None) = (pw_executor w1 = None)" by (simp add: w1_def Some)
    show "\<exists>ex'. pw_executor w1 = Some ex' \<and> same_table ex0 ex' \<and> pending_ids w1 \<subseteq> pending_ids w"
      if "pw_executor w = Some ex0" for ex0
      using that Some by (simp add: w1_def r_def pending_ids_def tick_callback_pending)
  qed
  have drained: "\<exists>ex'. pw_executor w2 = Some ex' \<and> same_table ex0 ex' \<and> pending_ids w2 \<subseteq> pending_ids w1"
    if "pw_executor w1 = Some ex0" "w2 = snd (drain_boundary_reroutes lm g utils w1)" for ex0 g w2
    using drain_table [OF that(1) that(2) [symmetric]] .
  show ?thesis
    unfolding res
  proof (rule world_sound_step [OF 1])
    show "world_ok (snd (drain_boundary_reroutes lm (Some (edges (pw_graph w))) utils w1))"
      by (rule drain_world [OF ok])
  next
    show "(pw_executor w1 = None) =
        (pw_executor (snd (drain_boundary_reroutes lm (Some (edges (pw_graph w))) utils w1)) = None)"
      using drained [of "fst (snd r)", OF _ refl] by (auto simp: w1_def)
  qed (simp_all add: drained)
qed

text \<open>The graph the shim builds: the size it must have for vertices and edges to be numbered in 32 bits.\<close>

definition cluster_fits :: "u32 \<Rightarrow> u32 \<Rightarrow> bool" where
  "cluster_fits N G \<longleftrightarrow> unat N * (unat G + 4) < 2 ^ 32 \<and> length (edges (build_cluster N G)) \<le> 2 ^ 32"

lemma cluster_graph_ok:
  assumes "cluster_fits N G"
  shows "graph_ok (precompute_paths k h (build_cluster N G))"
proof -
  have "wf_graph (build_cluster N G)" using assms by (intro cluster_wf) (simp add: cluster_fits_def)
  then show ?thesis
    using assms by (auto simp: graph_ok_def cache_ok_def cluster_fits_def precompute_paths_def costs_ok_def wf_graph_def)
qed

lemma sweep_keeps [simp]:
  "sh_world (run_profiling_sweep rings sh) = sh_world sh"
  "sh_telemetry (run_profiling_sweep rings sh) = sh_telemetry sh"
  "sh_ucx (run_profiling_sweep rings sh) = sh_ucx sh"
proof -
  have one: "sh_world (refresh_predictions r s) = sh_world s \<and> sh_telemetry (refresh_predictions r s) = sh_telemetry s \<and>
      sh_ucx (refresh_predictions r s) = sh_ucx s" for r and s :: "'a shim"
    by (simp add: refresh_predictions_def Let_def)
  have "sh_world (fold refresh_predictions rs s) = sh_world s \<and>
      sh_telemetry (fold refresh_predictions rs s) = sh_telemetry s \<and>
      sh_ucx (fold refresh_predictions rs s) = sh_ucx s" for rs and s :: "'a shim"
    by (induction rs arbitrary: s) (simp_all add: one)
  then show "sh_world (run_profiling_sweep rings sh) = sh_world sh"
    "sh_telemetry (run_profiling_sweep rings sh) = sh_telemetry sh"
    "sh_ucx (run_profiling_sweep rings sh) = sh_ucx sh"
    by (simp_all add: run_profiling_sweep_def Let_def)
qed

lemma init_world:
  "sh_world (fst (snd (initialize R g0 host m weights enc dec rounds cursor opts ib))) =
     \<lparr>pw_graph = precompute_paths 6 5 (build_cluster (io_num_nodes opts) (io_gpus_per_node opts)),
      pw_engine = engine_fresh, pw_executor = (if io_enable_executor opts then Some executor_fresh else None)\<rparr>"
  by (simp add: initialize_def Let_def)

lemma init_daemon_ok:
  "daemon_ok (sh_telemetry (fst (snd (initialize R g0 host m weights enc dec rounds cursor opts ib))))"
  by (simp add: initialize_def Let_def start_ok configure_edges_ok daemon_fresh_ok)

lemma init_daemon_edges:
  "td_num_edges (sh_telemetry (fst (snd (initialize R g0 host m weights enc dec rounds cursor opts ib)))) =
     length (edges (build_cluster (io_num_nodes opts) (io_gpus_per_node opts)))"
  by (simp add: initialize_def Let_def daemon_fresh_def precompute_paths_def)

lemma init_sound:
  assumes "cluster_fits (io_num_nodes opts) (io_gpus_per_node opts)"
  shows "world_sound (edges (build_cluster (io_num_nodes opts) (io_gpus_per_node opts))) 0
    (sh_world (fst (snd (initialize R g0 host m weights enc dec rounds cursor opts ib))))"
proof -
  have "edges (precompute_paths k h g) = edges g" for k h g by (simp add: precompute_paths_def)
  then show ?thesis
    using cluster_graph_ok [OF assms] executor_fresh_inv [unfolded executor_fresh_def]
    by (simp add: init_world world_sound_def world_ok_def footprint_def pending_ids_def
        executor_fresh_def engine_fresh_def)
qed

section \<open>Runs of the shim\<close>

text \<open>
  A run starts with an initialisation and goes on, in any order, with submissions, which it counts,
  polls, decisions asked of the path engine itself, profiling sweeps, steps of the telemetry daemon, opening and closing of the transport, and
  whatever the host does with memory and the ibverbs singleton.
\<close>

inductive shim_run :: "'g rng_ops \<Rightarrow> init_options \<Rightarrow> nat \<Rightarrow> 'g shim \<times> wire \<Rightarrow> bool" for R opts where
  run_init: "shim_run R opts 0 (fst (snd (initialize R g0 host m weights enc dec rounds cursor opts ib)), w)"
| run_submit: "shim_run R opts n st \<Longrightarrow>
    shim_run R opts (Suc n) (snd (submit_transfer c junk cls src dst nbytes deadline sb db st))"
| run_poll: "shim_run R opts n st \<Longrightarrow> shim_run R opts n (snd (poll_transfers c dt_ms st))"
| run_select: "shim_run R opts n (sh, w) \<Longrightarrow>
    shim_run R opts n (sh\<lparr>sh_world := snd (select_path (sh_predictor sh) req utils (sh_world sh))\<rparr>, w)"
| run_sweep: "shim_run R opts n (sh, w) \<Longrightarrow> shim_run R opts n (run_profiling_sweep rings sh, w)"
| run_telemetry: "shim_run R opts n (sh, w) \<Longrightarrow> daemon_step R (sh_telemetry sh) d \<Longrightarrow>
    shim_run R opts n (sh\<lparr>sh_telemetry := d\<rparr>, w)"
| run_open: "shim_run R opts n (sh, w) \<Longrightarrow> shim_run R opts n (sh\<lparr>sh_ucx := snd (open_iface cfg (sh_ucx sh))\<rparr>, w)"
| run_close: "shim_run R opts n (sh, w) \<Longrightarrow> shim_run R opts n (sh\<lparr>sh_ucx := close_iface (sh_ucx sh)\<rparr>, w)"
| run_host: "shim_run R opts n (sh, w) \<Longrightarrow> shim_run R opts n (sh, w')"

abbreviation cluster_edges :: "init_options \<Rightarrow> graph_edge list" where
  "cluster_edges opts \<equiv> edges (build_cluster (io_num_nodes opts) (io_gpus_per_node opts))"

definition shim_sound :: "graph_edge list \<Rightarrow> nat \<Rightarrow> 'g shim \<Rightarrow> bool" where
  "shim_sound es n sh \<longleftrightarrow> world_sound es n (sh_world sh) \<and> daemon_ok (sh_telemetry sh) \<and>
     td_num_edges (sh_telemetry sh) = length es"

lemma count_decision_keeps [simp]:
  "sh_world (count_decision a b sh) = sh_world sh" "sh_telemetry (count_decision a b sh) = sh_telemetry sh"
  "sh_ucx (count_decision a b sh) = sh_ucx sh" "sh_predictor (count_decision a b sh) = sh_predictor sh"
  by (simp_all add: count_decision_def)

text \<open>Without an executor a submission only decides.\<close>

lemma select_no_executor:
  assumes "pw_executor w = None" and "world_sound es n w"
  shows "world_sound es n (snd (select_path lm req utils w))"
proof (rule world_sound_step [OF assms(2)])
  show "world_ok (snd (select_path lm req utils w))"
    using assms(2) by (intro select_world) (simp add: world_sound_def)
qed (simp_all add: assms(1) select_executor)

lemma select_sound:
  assumes "world_sound es n w"
  shows "world_sound es n (snd (select_path lm req utils w))"
proof (cases "pw_executor w")
  case None
  then show ?thesis using select_no_executor assms by blast
next
  case (Some ex)
  obtain ex1 where ex1: "pw_executor (snd (select_path lm req utils w)) = Some ex1" "same_table ex ex1"
    and pend: "pending_ids (snd (select_path lm req utils w)) \<subseteq> pending_ids w \<union> ids_of ex"
    using select_pending [OF Some _ refl] assms Some by (fastforce simp: world_sound_def world_ok_def)
  have "world_ok (snd (select_path lm req utils w))"
    using assms by (intro select_world) (simp add: world_sound_def)
  with assms Some ex1 pend select_same_graph [of w lm req utils] show ?thesis
    unfolding world_sound_def same_table_def same_graph_def by auto
qed

lemma sound_none:
  "world_sound es n w \<Longrightarrow> pw_executor w = None \<Longrightarrow> world_sound es n' w"
  by (simp add: world_sound_def)

lemma dispatch_none:
  assumes "world_sound es n (sh_world sh)" and "pw_executor (sh_world sh) = None"
  shows "world_sound es n (sh_world (snd (dispatch_transfer c junk req sh))) \<and>
    pw_executor (sh_world (snd (dispatch_transfer c junk req sh))) = None \<and>
    sh_telemetry (snd (dispatch_transfer c junk req sh)) = sh_telemetry sh"
proof -
  define P where "P w \<longleftrightarrow> world_sound es n w \<and> pw_executor w = None" for w
  have sel: "P (snd (select_path lm r utils w))" if "P w" for lm r utils w
    using that select_no_executor select_executor [of lm r utils w] by (auto simp: P_def)
  have many: "P (snd (fold (\<lambda>d (r, w). let (p, w') = select_path lm (req\<lparr>size_bytes := cd_size d\<rparr>) utils w
      in (r\<lparr>pc_latency_us := pc_latency_us r + pc_latency_us p\<rparr>, w')) ds rw))" if "P (snd rw)"
    for lm utils ds and rw :: "path_cost \<times> path_world"
    using that by (induction ds arbitrary: rw) (simp_all add: case_prod_unfold Let_def sel)
  have stripe: "P (snd (stripe_kv_migration lm r utils chunk w))" if "P w" for lm r utils chunk w
  proof -
    have "world_ok (snd (stripe_kv_migration lm r utils chunk w))" using that by (simp add: P_def world_ok_def)
    then show ?thesis
      using that stripe_same_graph [of w lm r utils chunk] by (auto simp: P_def intro!: world_sound_step [of es n w])
  qed
  have "P (sh_world sh)" using assms by (simp add: P_def)
  then have "P (sh_world (snd (dispatch_transfer c junk req sh)))"
    by (simp add: dispatch_transfer_def case_prod_unfold Let_def sel)
      (intro impI many [unfolded case_prod_unfold Let_def], simp add: stripe)
  moreover have "sh_telemetry (snd (dispatch_transfer c junk req sh)) = sh_telemetry sh"
    by (simp add: dispatch_transfer_def case_prod_unfold Let_def)
  ultimately show ?thesis by (simp add: P_def)
qed

lemma submit_sound:
  assumes "shim_sound es n (fst st)"
  shows "shim_sound es (Suc n) (fst (snd (submit_transfer c junk cls src dst nbytes deadline sb db st)))"
proof (cases "pw_executor (sh_world (fst st))")
  case None
  with assms show ?thesis
    using dispatch_none [of es n "fst st" c junk] sound_none [of es n _ "Suc n"]
    by (simp add: submit_transfer_def shim_sound_def case_prod_unfold Let_def)
next
  case (Some ex)
  obtain sh w where st: "st = (sh, w)" by (cases st)
  have "world_sound es (Suc n) (snd (schedule_and_execute lm g now req utils opts (sh_world sh)))" for lm g now req utils opts
    using assms by (intro schedule_sound [OF _ surjective_pairing]) (simp add: st shim_sound_def)
  then show ?thesis
    using assms Some tick_drain_sound
    by (simp add: st submit_transfer_def shim_sound_def case_prod_unfold Let_def)
qed

lemma poll_sound:
  "shim_sound es n (fst st) \<Longrightarrow> shim_sound es n (fst (snd (poll_transfers c dt_ms st)))"
  using tick_drain_sound [of es n "sh_world (fst st)"]
  by (simp add: poll_transfers_def shim_sound_def case_prod_unfold Let_def)

lemma shim_run_sound:
  "shim_run R opts n st \<Longrightarrow> cluster_fits (io_num_nodes opts) (io_gpus_per_node opts) \<Longrightarrow>
   shim_sound (cluster_edges opts) n (fst st)"
proof (induction rule: shim_run.induct)
  case run_init
  then show ?case by (simp add: shim_sound_def init_sound init_daemon_ok init_daemon_edges)
next
  case run_submit
  then show ?case using submit_sound by blast
next
  case run_poll
  then show ?case using poll_sound by blast
next
  case (run_telemetry n sh w d)
  then show ?case
    using daemon_step_ok [OF run_telemetry.hyps(2)] daemon_step_edges [OF run_telemetry.hyps(2)]
    by (simp add: shim_sound_def)
qed (simp_all add: shim_sound_def select_sound)

section \<open>Properties\<close>

text \<open>A node without GPUs on a machine without any source; the sweep of its shim is two rounds long.\<close>

definition tiny_options :: init_options where
  "tiny_options = init_options_default\<lparr>io_num_nodes := 1, io_gpus_per_node := 0\<rparr>"

definition no_ib :: ib_host where
  "no_ib = \<lparr>sysfs_entries = None, is_device_dir = (\<lambda>_. False), libibverbs_present = False\<rparr>"

definition start_shim :: "'g rng_ops \<Rightarrow> 'g \<Rightarrow> machine \<Rightarrow> init_options \<Rightarrow> 'g shim" where
  "start_shim R g0 m opts = fst (snd (initialize R g0 no_ib m (\<lambda>_. None) (\<lambda>_. 0) (\<lambda>_. 0) 2 0 opts ibverbs_fresh))"

lemma start_run: "shim_run R opts 0 (start_shim R g0 m opts, w)"
  unfolding start_shim_def by (rule run_init)

lemma tiny_fits: "cluster_fits (io_num_nodes tiny_options) (io_gpus_per_node tiny_options)"
  by (simp add: cluster_fits_def tiny_options_def init_options_default_def cluster_edge_count_nat)

lemma length_current_utils [simp]: "length (current_utils sh) = length (shim_edges sh)"
  by (simp add: current_utils_def snapshot_def)

text \<open>
  C6. In every run of the shim, in whatever order it is initialised, asked for transfers, polled, swept and
  sampled: the executor's invariant holds, the graph is still the cluster that was built and its
  path cache gives what a fresh search would, transfers waiting for a reroute are in the executor's
  table, whose ids are 1 to the number of submissions, and decisions are taken on one utilisation
  between 0 and 1 for each edge.
\<close>
theorem shim_keeps_components_sound:
  assumes "shim_run R opts n (sh, wire)" and "cluster_fits (io_num_nodes opts) (io_gpus_per_node opts)"
  shows "world_ok (sh_world sh) \<and> graph_ok (pw_graph (sh_world sh)) \<and> shim_edges sh = cluster_edges opts \<and>
    (\<forall>ex. pw_executor (sh_world sh) = Some ex \<longrightarrow>
       pending_ids (sh_world sh) \<subseteq> ids_of ex \<and> ids_of ex \<subseteq> of_nat ` {1..n}) \<and>
    length (current_utils sh) = length (cluster_edges opts) \<and>
    (\<forall>u \<in> set (current_utils sh). 0 \<le> u \<and> u \<le> 1)"
proof -
  have sound: "world_sound (cluster_edges opts) n (sh_world sh)" "daemon_ok (sh_telemetry sh)"
    using shim_run_sound [OF assms] by (simp_all add: shim_sound_def)
  from sound(2) have "0 \<le> u \<and> u \<le> 1" if "u \<in> set (current_utils sh)" for u
    using that snapshot_in_range [of "td_ring (sh_telemetry sh)" u]
    by (auto simp: current_utils_def daemon_ok_def unit_util_def)
  with sound(1) show ?thesis by (simp add: world_sound_def)
qed

theorem shim_keeps_components_sound_witness:
  "length (current_utils (start_shim quiet_rng () bare_machine tiny_options)) = 4"
proof -
  have "length (cluster_edges tiny_options) = 4"
    by (simp add: tiny_options_def init_options_default_def cluster_edge_count_nat)
  with shim_keeps_components_sound [OF start_run [of quiet_rng tiny_options "()" bare_machine] tiny_fits]
  show ?thesis by simp
qed

text \<open>
  C23. What a round of the collector reads is what the next decision is taken on, but only for the last 512
  edges: with more edges the ring has lost the first ones, which count as idle.  A default cluster of
  eight nodes has 1104 edges.
\<close>
theorem round_reaches_decisions:
  assumes "shim_run R opts k (sh, wire)" and "cluster_fits (io_num_nodes opts) (io_gpus_per_node opts)"
    and "n = length (cluster_edges opts)" and "\<forall>e < n. W e \<noteq> 0"
  shows "current_utils (sh\<lparr>sh_telemetry := collect_round R M W (sh_telemetry sh)\<rparr>) =
    map (\<lambda>e. if e + 512 < n then 0 else fst (round_reads R M [0..<n] (sh_telemetry sh)) ! e) [0..<n]"
proof -
  have sound: "shim_sound (cluster_edges opts) k sh" using shim_run_sound [OF assms(1,2)] by simp
  then have "td_num_edges (sh_telemetry sh) = n" "n \<le> 2 ^ 32" "ring_wf (td_ring (sh_telemetry sh))"
    "length (shim_edges sh) = n"
    using assms(2,3)
    by (auto simp: shim_sound_def world_sound_def daemon_ok_def ring_in_range_def cluster_fits_def)
  with snapshot_round [OF _ _ _ assms(4) refl, of "sh_telemetry sh" R M] show ?thesis
    by (simp add: current_utils_def)
qed

lemma default_fits: "cluster_fits (io_num_nodes init_options_default) (io_gpus_per_node init_options_default)"
  by (simp add: cluster_fits_def init_options_default_def cluster_edge_count_nat)

theorem round_reaches_decisions_witness:
  "current_utils ((start_shim quiet_rng () bare_machine init_options_default)
     \<lparr>sh_telemetry := collect_round quiet_rng (\<lambda>_. bare_machine) (\<lambda>_. 7)
        (sh_telemetry (start_shim quiet_rng () bare_machine init_options_default))\<rparr>) ! 591 = 0"
proof -
  have n: "(1104 :: nat) = length (cluster_edges init_options_default)"
    by (simp add: init_options_default_def cluster_edge_count_nat)
  show ?thesis
    by (subst round_reaches_decisions [OF start_run default_fits n]) simp_all
qed

section \<open>The predictor and the telemetry\<close>

text \<open>What the predictor becomes in a sweep depends on the graph, the rings seen and the cursor only.\<close>

definition same_forecast :: "'g shim \<Rightarrow> 'g shim \<Rightarrow> bool" where
  "same_forecast a b \<longleftrightarrow> length (shim_edges a) = length (shim_edges b) \<and>
     sh_predictor a = sh_predictor b \<and> sh_cursor a = sh_cursor b"

lemma sweep_forecast:
  assumes "same_forecast a b" and "td_ring (sh_telemetry a) = td_ring (sh_telemetry b)"
  shows "sh_predictor (run_profiling_sweep rings a) = sh_predictor (run_profiling_sweep rings b)"
proof -
  have one: "same_forecast (refresh_predictions r x) (refresh_predictions r y)"
    if "same_forecast x y" for r and x y :: "'a shim"
    using that by (simp add: same_forecast_def refresh_predictions_def Let_def)
  have "same_forecast (fold refresh_predictions rs x) (fold refresh_predictions rs y)"
    if "same_forecast x y" for rs and x y :: "'a shim"
    using that by (induction rs arbitrary: x y) (simp_all add: one)
  then have "same_forecast (run_profiling_sweep rings a) (run_profiling_sweep rings b)"
    using assms by (simp add: run_profiling_sweep_def current_utils_def same_forecast_def Let_def)
  then show ?thesis by (simp add: same_forecast_def)
qed

text \<open>
  C38. The predictor is fed before the daemon runs: whatever counters the machine has, initialisation leaves
  the predictor that a machine without any would, and neither submissions nor polls feed it again.
\<close>
theorem predictor_blind:
  fixes R R' :: "'g rng_ops"
  shows "sh_predictor (fst (snd (initialize R g0 host m weights enc dec rounds cursor opts ib))) =
      sh_predictor (fst (snd (initialize R' g0' host' bare_machine weights enc dec rounds cursor opts ib'))) \<and>
    sh_predictor (fst (snd (submit_transfer c junk cls src dst nbytes deadline sb db (sh, wire)))) = sh_predictor sh \<and>
    sh_predictor (fst (snd (poll_transfers c dt_ms (sh, wire)))) = sh_predictor sh"
proof -
  have "td_ring (daemon_fresh n cfg g) = ring_fresh" for n cfg and g :: 'g
    by (simp add: daemon_fresh_def)
  then have "sh_predictor (fst (snd (initialize R g0 host m weights enc dec rounds cursor opts ib))) =
      sh_predictor (fst (snd (initialize R' g0' host' bare_machine weights enc dec rounds cursor opts ib')))"
    by (simp add: initialize_def Let_def same_forecast_def sweep_forecast)
  then show ?thesis
    by (simp add: submit_transfer_def poll_transfers_def dispatch_transfer_def case_prod_unfold Let_def)
qed

end
