(* ===== verification/Ucx_Props.thy ===== *)
theory Ucx_Props
  imports Shim_Props
begin

text \<open>
  A transfer put through the transport: it is entered under a fresh id, polling keeps it on its way
  whatever else is in the table, the waiting loop ends, and then the bytes are there.
\<close>

section \<open>A transfer on its course\<close>

text \<open>
  Transfer \<open>i\<close> of the world is on its way (\<open>on_its_way\<close>), nobody else writes to its buffers, it waits
  for no reroute, and it is in flight or completed.
\<close>

definition on_course :: "memory \<Rightarrow> transfer_id \<Rightarrow> transfer_progress \<Rightarrow> path_world \<Rightarrow> wire \<Rightarrow> bool" where
  "on_course m0 i tp0 w wire \<longleftrightarrow>
     (\<exists>ex tp. pw_executor w = Some ex \<and> on_its_way m0 i tp0 (ex, wire, pw_engine w) \<and>
        (\<forall>(j, W) \<in> set (footprint ex). j \<noteq> i \<longrightarrow> (\<forall>a. W a \<longrightarrow> \<not> in_buffers tp0 a)) \<and>
        i \<noteq> ex_next_id ex \<and> i \<notin> pending_ids w \<and>
        map_of (ex_transfers ex) i = Some tp \<and> tp_state tp \<in> {InFlight, Completed})"

lemma footprint_isolated:
  "isolated i tp ex \<longleftrightarrow> (\<forall>(j, W) \<in> set (footprint ex). j \<noteq> i \<longrightarrow> (\<forall>a. W a \<longrightarrow> \<not> in_buffers tp a))"
  by (auto simp: isolated_def footprint_def apart_def)

lemma on_its_way_lookup:
  "on_its_way m0 i tp0 (ex, w, k) \<Longrightarrow> exec_inv ex' \<Longrightarrow>
   map_of (ex_transfers ex') i = map_of (ex_transfers ex) i \<Longrightarrow> on_its_way m0 i tp0 (ex', w, k')"
  by (simp add: on_its_way_def)

text \<open>A tick followed by the reroutes of others: the transfer advances by exactly one tick.\<close>

lemma tick_drain_course:
  assumes course: "on_course m0 i tp0 w wire" and ex: "pw_executor w = Some ex"
    and tp: "map_of (ex_transfers ex) i = Some tp"
    and res: "tick_and_drain dt utils clock lm w wire = (ids, w', wire')"
  defines "tp' \<equiv> ticked (Some (edges (pw_graph w))) dt utils (clock i) tp"
  shows "on_course m0 i tp0 w' wire' \<and> map_of (ex_transfers (the (pw_executor w'))) i = Some tp'"
proof -
  let ?g = "Some (edges (pw_graph w))" and ?cb = "Some kv_completed"
  let ?r = "ib_tick ?cb ?g dt utils clock ex wire (pw_engine w)"
  obtain ex1 en1 n where tick: "(ex1, wire', en1) = snd ?r" and pend1: "en_pending en1 = en_pending (pw_engine w)"
    and moved: "ex_transfers ex1 = map (\<lambda>(i, tp). (i, ticked ?g dt utils (clock i) tp)) (ex_transfers ex)"
    and drain: "drain_boundary_reroutes lm ?g utils (w\<lparr>pw_executor := Some ex1, pw_engine := en1\<rparr>) = (n, w')"
    using tick_drain_split [OF ex res] by blast
  let ?w1 = "w\<lparr>pw_executor := Some ex1, pw_engine := en1\<rparr>"
  from course ex tp have way: "on_its_way m0 i tp0 (ex, wire, pw_engine w)"
    and iso: "isolated i tp0 ex" and free: "i \<noteq> ex_next_id ex" "i \<notin> pending_ids w"
    and state: "tp_state tp \<in> {InFlight, Completed}"
    by (auto simp: on_course_def footprint_isolated)
  have inv: "exec_inv ex" using way by (simp add: on_its_way_def)
  have "isolated_step ?g ?cb i tp0 (ex, wire, pw_engine w) (ex1, wire', en1)"
    unfolding tick using free(1) iso by (intro isolated_step.intros step_tick) simp_all
  from on_its_way_step [OF this way] have way1: "on_its_way m0 i tp0 (ex1, wire', en1)" .
  have look1: "map_of (ex_transfers ex1) i = Some tp'" using tp by (simp add: moved lookup_mapped tp'_def)
  have free1: "i \<notin> pending_ids ?w1" using free(2) pend1 by (simp add: pending_ids_def)
  from drain_table [of ?w1 ex1, OF _ arg_cong [OF drain, of snd]] obtain ex2 where
    ex2: "pw_executor w' = Some ex2" "pending_ids w' \<subseteq> pending_ids ?w1" by auto
  have "world_ok (snd (drain_boundary_reroutes lm ?g utils ?w1))"
    using way1 by (intro drain_world) (simp add: on_its_way_def)
  then have inv2: "exec_inv ex2" using ex2(1) by (simp add: drain world_ok_def)
  have look2: "map_of (ex_transfers ex2) i = Some tp'"
    using drain_lookup [of ?w1 ex1, OF _ drain look1] free1 ex2(1) pend1 by (simp add: pending_ids_def)
  have way2: "on_its_way m0 i tp0 (ex2, wire', pw_engine w')"
    by (rule on_its_way_lookup [OF way1 inv2]) (simp_all add: look1 look2)
  have table: "same_table ex ex2" using tick_drain_table [OF ex res] ex2(1) by simp
  have "tp_state tp' \<in> {InFlight, Completed}"
    using ticked_settles [OF conjunct2 [OF exec_inv_lookup [OF inv tp]], of ?g dt utils "clock i"] state
    by (auto simp: tp'_def settles_def)
  with way2 look2 ex2 free free1 table iso show ?thesis
    by (auto simp: on_course_def footprint_isolated same_table_def)
qed

text \<open>After a tick a transfer that is not suspended is completed or has bytes left.\<close>

definition settled :: "transfer_progress \<Rightarrow> bool" where
  "settled tp \<longleftrightarrow> tp_state tp = Completed \<or> tp_state tp = InFlight \<and> tp_bytes_remaining tp \<noteq> 0"

lemma ticked_settled:
  assumes "tp_inv tp" and "tp_state tp \<in> {InFlight, Completed}"
  shows "settled (ticked g dt utils now tp)"
proof (cases "tp_state tp = Completed")
  case True
  then show ?thesis by (simp add: settled_def ticked_def is_active_def)
next
  case False
  then have "is_active tp" using assms(2) by (simp add: is_active_def)
  moreover have "tp_state (ticked g dt utils now tp) \<in> {InFlight, Completed}"
    using ticked_settles [OF assms(1), of g dt utils now] assms(2) by (auto simp: settles_def)
  moreover have "tp_bytes_remaining (concluded now tp1) \<noteq> 0" if "tp_state (concluded now tp1) = InFlight" for tp1
    using that by (auto simp: concluded_def Let_def split: if_splits)
  ultimately show ?thesis by (auto simp: settled_def ticked_def)
qed

section \<open>Waiting\<close>

lemma transfer_status_lookup:
  "pw_executor (sh_world sh) = Some ex \<Longrightarrow> map_of (ex_transfers ex) i = Some tp \<Longrightarrow> transfer_status sh i = tp"
  by (simp add: transfer_status_def get_transfer_def)

text \<open>
  A poll keeps a transfer on its course, and completes it or takes away some of the work left in its chunks.
\<close>

abbreviation work_left :: "'g shim \<Rightarrow> transfer_id \<Rightarrow> nat" where
  "work_left sh i \<equiv> work 1 (tp_chunks (transfer_status sh i))"

lemma poll_course:
  assumes course: "on_course m0 i tp0 (sh_world sh) wire" and settled: "settled (transfer_status sh i)"
    and dt: "1 / 10 ^ 5 \<le> dt" "dt \<le> 10 ^ 4" and poll: "poll_transfers c dt (sh, wire) = (n, sh', wire')"
  shows "on_course m0 i tp0 (sh_world sh') wire'" and "settled (transfer_status sh' i)"
    and "tp_state (transfer_status sh' i) \<noteq> Completed \<Longrightarrow> work_left sh' i < work_left sh i"
proof -
  obtain ex tp where ex: "pw_executor (sh_world sh) = Some ex" and tp: "map_of (ex_transfers ex) i = Some tp"
    and inv: "exec_inv ex"
    using course by (auto simp: on_course_def on_its_way_def)
  have status: "transfer_status sh i = tp" using ex tp by (rule transfer_status_lookup)
  obtain ids w' wr where td: "tick_and_drain dt (current_utils sh) (cl_tick c) (sh_predictor sh) (sh_world sh) wire =
      (ids, w', wr)" by (rule prod_cases3)
  with poll have sh': "sh' = sh\<lparr>sh_world := w'\<rparr>" "wire' = wr" by (auto simp: poll_transfers_def)
  let ?tp' = "ticked (Some (shim_edges sh)) dt (current_utils sh) (cl_tick c i) tp"
  show course': "on_course m0 i tp0 (sh_world sh') wire'"
    using tick_drain_course [OF course ex tp td] by (simp add: sh')
  then have status': "transfer_status sh' i = ?tp'"
    using tick_drain_course [OF course ex tp td] by (auto simp: on_course_def sh' intro: transfer_status_lookup)
  have tpi: "tp_inv tp" using exec_inv_lookup [OF inv tp] by simp
  show set': "settled (transfer_status sh' i)"
    unfolding status' by (rule ticked_settled [OF tpi]) (use settled status in \<open>auto simp: settled_def\<close>)
  assume "tp_state (transfer_status sh' i) \<noteq> Completed"
  then have active: "is_active ?tp'" using set' by (auto simp: settled_def status' is_active_def)
  then have "is_active tp" by (cases "is_active tp") (simp_all add: ticked_def)
  then show "work_left sh' i < work_left sh i"
    unfolding status' status using dt by (intro ticked_work [OF tpi _ _ active]) simp_all
qed

text \<open>Only the world of the shim matters to a transfer.\<close>

lemma transfer_status_world: "sh_world a = sh_world b \<Longrightarrow> transfer_status a i = transfer_status b i"
  by (simp add: transfer_status_def)

lemma wait_ends:
  assumes "on_course m0 i tp0 (sh_world sh) wire" and "ur_transfer_id req = i"
    and "settled (transfer_status sh i)" and dt: "1 / 10 ^ 5 \<le> dt" "dt \<le> 10 ^ 4"
  shows "\<exists>sh' wire'. wait_completed clocks D dt req k (sh, wire) = Some (sh', wire') \<and>
    on_course m0 i tp0 (sh_world sh') wire' \<and> tp_state (transfer_status sh' i) = Completed"
  using assms(1,3)
proof (induction "work_left sh i" arbitrary: k sh wire rule: less_induct)
  case less
  have completed: "request_completed s req \<longleftrightarrow> tp_state (transfer_status s i) = Completed"
    if "settled (transfer_status s i)" for s :: "'a shim"
    using that by (auto simp: request_completed_def settled_def assms(2) Let_def)
  have stop: "wait_completed clocks D dt req k (s, w) = Some (s, w)" if "request_completed s req" for s w k
    using that by (subst wait_completed.simps) simp
  show ?case
  proof (cases "tp_state (transfer_status sh i) = Completed")
    case True
    then show ?thesis using less.prems completed stop by blast
  next
    case False
    let ?sh = "sh\<lparr>sh_telemetry := D k (sh_telemetry sh)\<rparr>"
    have same: "transfer_status ?sh i = transfer_status sh i" by (rule transfer_status_world) simp
    have set1: "settled (transfer_status ?sh i)" unfolding same by (rule less.prems(2))
    have course: "on_course m0 i tp0 (sh_world ?sh) wire" using less.prems(1) by simp
    obtain n sh' wire' where poll: "poll_transfers (clocks k) dt (?sh, wire) = (n, sh', wire')"
      by (rule prod_cases3)
    note after = poll_course [OF course set1 dt poll]
    have step: "wait_completed clocks D dt req k (sh, wire) = wait_completed clocks D dt req (Suc k) (sh', wire')"
      using False poll completed [OF less.prems(2)] by (subst wait_completed.simps) (simp add: progress_def)
    show ?thesis
    proof (cases "tp_state (transfer_status sh' i) = Completed")
      case True
      then show ?thesis using step stop completed after(1,2) by fastforce
    next
      case False
      then have "work_left sh' i < work_left sh i" using after(3) same by simp
      from less.hyps [OF this after(1,2), of "Suc k"] show ?thesis unfolding step .
    qed
  qed
qed

section \<open>Submitting\<close>

text \<open>No transfer of the table may write to \<open>n\<close> bytes at either address.\<close>

definition buffers_free :: "executor \<Rightarrow> ptr \<Rightarrow> ptr \<Rightarrow> nat \<Rightarrow> bool" where
  "buffers_free ex src dst n \<longleftrightarrow> (\<forall>(j, tq) \<in> set (ex_transfers ex). \<forall>a. may_write tq a \<longrightarrow>
     \<not> in_range a src n \<and> \<not> in_range a dst n)"

lemma next_id_fresh:
  assumes "ids \<subseteq> of_nat ` {1..n}" and "Suc n < 2 ^ 64"
  shows "(of_nat (Suc n) :: u64) \<notin> ids" and "(of_nat (Suc n) :: u64) \<noteq> 0"
    and "(of_nat (Suc n) :: u64) \<noteq> of_nat (Suc n) + 1"
proof -
  have inj: "unat (of_nat m :: u64) = m" if "m \<le> Suc n" for m
    using that assms(2) by (intro unat_of_nat_small) simp
  show "(of_nat (Suc n) :: u64) \<notin> ids"
  proof
    assume "(of_nat (Suc n) :: u64) \<in> ids"
    then obtain m where m: "m \<in> {1..n}" "(of_nat (Suc n) :: u64) = of_nat m" using assms(1) by blast
    from m(2) have "unat (of_nat (Suc n) :: u64) = unat (of_nat m :: u64)" by (rule arg_cong)
    with m(1) inj [of m] inj [of "Suc n"] show False by simp
  qed
  show "(of_nat (Suc n) :: u64) \<noteq> 0"
    using inj [of "Suc n"] by (metis le_refl nat.simps(3) unat_0)
qed simp

lemma schedule_course:
  assumes sound: "world_sound es n w" and ex: "pw_executor w = Some ex" and n: "Suc n < 2 ^ 64"
    and ready: "ib_ready (fst wire)" and bufs: "buffers_sound opts (size_bytes req)"
    and free: "buffers_free ex (so_src_buf opts) (so_dst_buf opts) (unat (size_bytes req))"
    and run: "schedule_and_execute lm g now req utils opts w = (i, w1)"
  shows "\<exists>tp0. i \<noteq> 0 \<and> on_course (snd wire) i tp0 w1 wire \<and> tp_src_buf tp0 = so_src_buf opts \<and>
    tp_dst_buf tp0 = so_dst_buf opts \<and> tp_bytes_total tp0 = size_bytes req \<and>
    length (tp_chunks tp0) \<le> chunk_limit (size_bytes req)"
proof -
  have inv: "exec_inv ex" using sound ex by (simp add: world_sound_def world_ok_def)
  have ids: "ex_next_id ex = of_nat (Suc n)" "ids_of ex \<subseteq> of_nat ` {1..n}" "pending_ids w \<subseteq> ids_of ex"
    using sound ex by (auto simp: world_sound_def)
  note fresh = next_id_fresh [OF ids(2) n]
  obtain ex1 tp0 where ex1: "pw_executor w1 = Some ex1" and look: "map_of (ex_transfers ex1) i = Some tp0"
    and tp0: "tp_state tp0 = InFlight" "tp_bytes_sent tp0 = 0" "tp_bytes_total tp0 = size_bytes req"
      "tp_src_buf tp0 = so_src_buf opts" "tp_dst_buf tp0 = so_dst_buf opts" "layout_ok tp0"
      "length (tp_chunks tp0) \<le> chunk_limit (size_bytes req)"
    using schedule_layout [OF ex bufs run] by blast
  from schedule_table [OF ex inv run] ex1
  have i: "i = of_nat (Suc n)" and adds: "adds_transfer (so_src_buf opts) (so_dst_buf opts) ex ex1"
    and pend: "pending_ids w1 \<subseteq> pending_ids w \<union> ids_of ex"
    by (auto simp: ids(1))
  have "world_ok w1" using schedule_world [of w lm g now req utils opts] sound run by (simp add: world_sound_def)
  then have "exec_inv ex1" by (simp add: world_ok_def ex1)
  from fresh_on_its_way [OF this ready look tp0(6,2)]
  have way: "on_its_way (snd wire) i tp0 (ex1, wire, pw_engine w1)" .
  have others: "\<forall>(j, W) \<in> set (footprint ex1). j \<noteq> i \<longrightarrow> (\<forall>a. W a \<longrightarrow> \<not> in_buffers tp0 a)"
  proof (intro ballI, clarify)
    fix j W a assume j: "(j, W) \<in> set (footprint ex1)" "j \<noteq> i" "W a" "in_buffers tp0 a"
    then have "(j, W) \<in> set (footprint ex)" using adds by (auto simp: adds_transfer_def i ids(1))
    with j(3,4) free show False by (fastforce simp: buffers_free_def footprint_def in_buffers_def tp0)
  qed
  have "ex_next_id ex1 = of_nat (Suc n) + 1" using adds by (simp add: adds_transfer_def ids(1))
  moreover have "i \<notin> pending_ids w1" using pend ids(3) fresh(1) by (auto simp: i)
  ultimately have "on_course (snd wire) i tp0 w1 wire"
    using ex1 way others look tp0(1) fresh(3) by (auto simp: on_course_def i)
  then show ?thesis using tp0 fresh(2) by (auto simp: i)
qed

text \<open>A submission, with its first tick, and what a completed transfer has done.\<close>

lemma submit_course:
  assumes sound: "shim_sound es n sh" and ex: "pw_executor (sh_world sh) = Some ex" and n: "Suc n < 2 ^ 64"
    and ready: "ib_ready (fst wire)" and bufs: "buffers_sound \<lparr>so_src_buf = sb, so_dst_buf = db\<rparr> nbytes"
    and free: "buffers_free ex sb db (unat nbytes)"
    and run: "submit_transfer c junk cls src dst nbytes deadline sb db (sh, wire) = (i, sh', wire')"
  shows "\<exists>tp0. i \<noteq> 0 \<and> on_course (snd wire) i tp0 (sh_world sh') wire' \<and> settled (transfer_status sh' i) \<and>
    tp_src_buf tp0 = sb \<and> tp_dst_buf tp0 = db \<and> tp_bytes_total tp0 = nbytes \<and>
    length (tp_chunks tp0) \<le> chunk_limit nbytes"
proof -
  define rq where "rq = \<lparr>rq_source = src, rq_dest = dst, size_bytes = nbytes, traffic = cls, deadline_us = deadline\<rparr>"
  let ?opts = "\<lparr>so_src_buf = sb, so_dst_buf = db\<rparr>"
  have world: "world_sound es n (sh_world sh)" using sound by (simp add: shim_sound_def)
  obtain j w1 where sched: "schedule_and_execute (sh_predictor sh) (Some (shim_edges sh)) (cl_now c) rq
      (current_utils sh) ?opts (sh_world sh) = (j, w1)" by (rule prod.exhaust)
  obtain tp0 where j: "j \<noteq> 0" and course: "on_course (snd wire) j tp0 w1 wire"
    and tp0: "tp_src_buf tp0 = sb" "tp_dst_buf tp0 = db" "tp_bytes_total tp0 = nbytes"
      "length (tp_chunks tp0) \<le> chunk_limit nbytes"
    using schedule_course [OF world ex n ready _ _ sched] bufs free by (auto simp: rq_def)
  obtain ids w2 wire2 where td: "tick_and_drain 0.05 (current_utils sh) (cl_tick c) (sh_predictor sh) w1 wire =
      (ids, w2, wire2)" by (rule prod_cases3)
  have res: "i = j" "sh_world sh' = w2" "wire' = wire2"
    using ex run sched td by (auto simp: submit_transfer_def Let_def rq_def)
  obtain ex1 tp where ex1: "pw_executor w1 = Some ex1" and look: "map_of (ex_transfers ex1) j = Some tp"
    and flight: "tp_state tp \<in> {InFlight, Completed}" and inv: "exec_inv ex1"
    using course by (auto simp: on_course_def on_its_way_def)
  have course2: "on_course (snd wire) i tp0 (sh_world sh') wire'"
    using tick_drain_course [OF course ex1 look td] by (simp add: res)
  moreover have "settled (transfer_status sh' i)"
    using tick_drain_course [OF course ex1 look td] exec_inv_lookup [OF inv look] ticked_settled [OF _ flight] course2
    by (auto simp: on_course_def res transfer_status_def get_transfer_def)
  ultimately show ?thesis using j tp0 res by blast
qed

lemma course_delivers:
  assumes "on_course m0 i tp0 (sh_world sh) wire" and "tp_state (transfer_status sh i) = Completed"
    and "x < unat (tp_bytes_total tp0)"
  shows "snd wire (tp_dst_buf tp0 + of_nat x) = m0 (tp_src_buf tp0 + of_nat x) \<and>
    snd wire (tp_src_buf tp0 + of_nat x) = m0 (tp_src_buf tp0 + of_nat x)"
proof -
  obtain ex tp where tp: "pw_executor (sh_world sh) = Some ex" "map_of (ex_transfers ex) i = Some tp"
    and way: "on_its_way m0 i tp0 (ex, wire, pw_engine (sh_world sh))"
    using assms(1) by (auto simp: on_course_def)
  have "snd wire (tp_src_buf tp0 + of_nat x) = m0 (tp_src_buf tp0 + of_nat x)"
    using way assms(3) by (auto simp: on_its_way_def)
  with on_its_way_completed [OF way _ _ assms(3), of tp] tp assms(2) show ?thesis
    by (simp add: transfer_status_lookup)
qed

text \<open>A put, and the loop that waits for it.\<close>

lemma put_delivers:
  assumes "shim_run R opts n (sh, wire)" and "cluster_fits (io_num_nodes opts) (io_gpus_per_node opts)"
    and "Suc n < 2 ^ 64" and "pw_executor (sh_world sh) = Some ex"
    and "ux_open (sh_ucx sh)" and "len \<le> uc_max_zcopy_bytes (ux_config (sh_ucx sh))"
    and "ib_ready (fst wire)" and "buffers_sound \<lparr>so_src_buf = buf, so_dst_buf = remote\<rparr> len"
    and "buffers_free ex buf remote (unat len)"
    and "1 / 10 ^ 5 \<le> dt" and "dt \<le> 10 ^ 4"
    and "zcopy_put c junk ep buf len cls deadline remote req0 (sh, wire) = (rc, req, st)"
  shows "rc = 0 \<and> (\<exists>sh' wire'. wait_completed clocks D dt req k st = Some (sh', wire') \<and>
    tp_state (transfer_status sh' (ur_transfer_id req)) = Completed \<and>
    (\<forall>x < unat len. snd wire' (remote + of_nat x) = snd wire (buf + of_nat x) \<and>
       snd wire' (buf + of_nat x) = snd wire (buf + of_nat x)))"
proof -
  define dl where "dl = (if 0 < deadline then deadline else uc_default_deadline_us (ux_config (sh_ucx sh)))"
  have sound: "shim_sound (cluster_edges opts) n sh" using shim_run_sound [OF assms(1,2)] by simp
  obtain i sh1 wire1 where sub: "submit_transfer c junk cls (ue_local ep) (ue_remote ep) len dl buf remote (sh, wire) =
      (i, sh1, wire1)" by (rule prod_cases3)
  from submit_course [OF sound assms(4,3,7-9) sub] obtain tp0 where
    i: "i \<noteq> 0" and course: "on_course (snd wire) i tp0 (sh_world sh1) wire1" and
    settled: "settled (transfer_status sh1 i)" and
    tp0: "tp_src_buf tp0 = buf" "tp_dst_buf tp0 = remote" "tp_bytes_total tp0 = len" by blast
  have put: "rc = 0" "ur_transfer_id req = i" "st = (sh1, wire1)"
    using assms(5,6,12) sub [unfolded dl_def] i
    by (auto simp: zcopy_put_def Let_def split: if_splits prod.splits)
  from wait_ends [OF course put(2) settled assms(10,11)] obtain sh' wire' where
    wait: "wait_completed clocks D dt req k (sh1, wire1) = Some (sh', wire')" and
    end_course: "on_course (snd wire) i tp0 (sh_world sh') wire'" and
    fin: "tp_state (transfer_status sh' i) = Completed" by blast
  from course_delivers [OF end_course fin] tp0
  have "\<forall>x < unat len. snd wire' (remote + of_nat x) = snd wire (buf + of_nat x) \<and>
      snd wire' (buf + of_nat x) = snd wire (buf + of_nat x)" by simp
  with wait fin put show ?thesis by blast
qed

section \<open>Properties\<close>

text \<open>
  C2. End to end.  In any state of the shim with an executor and an open interface, put a message of at most
  the configured size between separate buffers that no transfer of the table may write to, over a
  ready transport: the call succeeds, and however the telemetry changes meanwhile, waiting with any
  tick between ten nanoseconds and ten seconds ends, with the transfer completed, every byte of the
  message at its place in the remote buffer and the message itself as it was.
\<close>
theorem zcopy_put_delivers:
  assumes "shim_run R opts n (sh, wire)" and "cluster_fits (io_num_nodes opts) (io_gpus_per_node opts)"
    and "Suc n < 2 ^ 64" and "pw_executor (sh_world sh) = Some ex"
    and "ux_open (sh_ucx sh)" and "len \<le> uc_max_zcopy_bytes (ux_config (sh_ucx sh))"
    and "ib_ready (fst wire)" and "buffers_sound \<lparr>so_src_buf = buf, so_dst_buf = remote\<rparr> len"
    and "buffers_free ex buf remote (unat len)"
    and "1 / 10 ^ 5 \<le> dt" and "dt \<le> 10 ^ 4"
    and "zcopy_put c junk ep buf len cls deadline remote req0 (sh, wire) = (rc, req, st)"
  shows "rc = 0 \<and> (\<exists>sh' wire'. wait_completed clocks D dt req k st = Some (sh', wire') \<and>
    tp_state (transfer_status sh' (ur_transfer_id req)) = Completed \<and>
    (\<forall>x < unat len. snd wire' (remote + of_nat x) = snd wire (buf + of_nat x) \<and>
       snd wire' (buf + of_nat x) = snd wire (buf + of_nat x)))"
  using assms by (rule put_delivers)

text \<open>A node with two GPUs, the bytes at 16 and one of them set, and a clock that stands still.\<close>

definition pair_options :: init_options where
  "pair_options = init_options_default\<lparr>io_num_nodes := 1, io_gpus_per_node := 2\<rparr>"

definition pair_shim :: "unit shim" where
  "pair_shim = start_shim quiet_rng () bare_machine pair_options"

definition pair_wire :: wire where
  "pair_wire = (ibverbs_fresh\<lparr>ib_ready := True\<rparr>, (\<lambda>a. 0)(21 := 9))"

definition still_clock :: call_clock where
  "still_clock = \<lparr>cl_now = 0, cl_tick = (\<lambda>i. 0), cl_t0 = 0, cl_t1 = 0, cl_d0 = 0, cl_d1 = 0\<rparr>"

definition pair_ep :: ucx_endpoint where
  "pair_ep = \<lparr>ue_local = \<lparr>node_id = 0, local_id = 0, ep_type = GPU\<rparr>,
              ue_remote = \<lparr>node_id = 0, local_id = 1, ep_type = GPU\<rparr>, ue_uct_ep = 1\<rparr>"

lemma pair_run: "shim_run quiet_rng pair_options 0 (pair_shim, w)"
  unfolding pair_shim_def by (rule start_run)

lemma pair_fits: "cluster_fits (io_num_nodes pair_options) (io_gpus_per_node pair_options)"
  by (simp add: cluster_fits_def pair_options_def init_options_default_def cluster_edge_count_nat)

lemma start_ucx: "sh_ucx (start_shim R g0 m opts) = snd (open_iface ucx_config_default ucx_fresh)"
  by (simp add: start_shim_def initialize_def Let_def)

lemma pair_shim_simps:
  "pw_executor (sh_world pair_shim) = Some executor_fresh"
  "ux_open (sh_ucx pair_shim)" "uc_max_zcopy_bytes (ux_config (sh_ucx pair_shim)) = 1073741824"
  "ib_ready (fst pair_wire)" "buffers_free executor_fresh src dst k"
  by (simp_all add: pair_shim_def start_ucx open_iface_def ucx_config_default_def pair_wire_def push_bit_eq_mult
      buffers_free_def executor_fresh_def)
    (simp add: start_shim_def init_world pair_options_def init_options_default_def executor_fresh_def)

theorem zcopy_put_delivers_witness:
  "\<exists>rc req st sh' wire'. zcopy_put still_clock 0 pair_ep 16 8 KVMigration 0 64 ucx_request_fresh (pair_shim, pair_wire) =
      (rc, req, st) \<and> rc = 0 \<and>
     wait_completed (\<lambda>_. still_clock) (\<lambda>_ d. d) 1 req 0 st = Some (sh', wire') \<and>
     snd wire' 69 = 9"
proof -
  obtain rc req st where put: "zcopy_put still_clock 0 pair_ep 16 8 KVMigration 0 64 ucx_request_fresh (pair_shim, pair_wire) =
      (rc, req, st)" by (rule prod_cases3)
  have max: "(8 :: u64) \<le> uc_max_zcopy_bytes (ux_config (sh_ucx pair_shim))"
    by (simp add: pair_shim_simps)
  have bufs: "buffers_sound \<lparr>so_src_buf = 16, so_dst_buf = 64\<rparr> 8"
    using copy_ok(3) by (simp add: copy_buffers_def copy_request_def)
  have "rc = 0 \<and> (\<exists>sh' wire'. wait_completed (\<lambda>_. still_clock) (\<lambda>_ d. d) 1 req 0 st = Some (sh', wire') \<and>
      tp_state (transfer_status sh' (ur_transfer_id req)) = Completed \<and>
      (\<forall>x < unat (8 :: u64). snd wire' (64 + of_nat x) = snd pair_wire (16 + of_nat x) \<and>
        snd wire' (16 + of_nat x) = snd pair_wire (16 + of_nat x)))"
    by (rule zcopy_put_delivers [OF pair_run pair_fits _ pair_shim_simps(1,2) max pair_shim_simps(4) bufs
          pair_shim_simps(5) _ _ put]) simp_all
  then obtain sh' wire' where "rc = 0" and
    w: "wait_completed (\<lambda>_. still_clock) (\<lambda>_ d. d) 1 req 0 st = Some (sh', wire')" and
    bytes: "\<forall>x < unat (8 :: u64). snd wire' (64 + of_nat x) = snd pair_wire (16 + of_nat x)" by blast
  moreover have "snd wire' 69 = 9"
    using bytes [rule_format, of 5] by (simp add: pair_wire_def)
  ultimately show ?thesis using put by blast
qed

text \<open>
  C32. When a put fails.  With an executor it is exactly when the interface is closed or the message is
  longer than configured, and then nothing at all has happened; without one every put fails, after the
  decision has been taken, and counted, twice.
\<close>
theorem zcopy_put_fails:
  assumes "shim_run R opts n (sh, wire)" and "cluster_fits (io_num_nodes opts) (io_gpus_per_node opts)"
    and "Suc n < 2 ^ 64"
    and "zcopy_put c junk ep buf len cls deadline remote req0 (sh, wire) = (rc, req, sh', wire')"
    and "refused = (\<not> ux_open (sh_ucx sh) \<or> uc_max_zcopy_bytes (ux_config (sh_ucx sh)) < len)"
  shows "(rc = 0 \<longleftrightarrow> \<not> refused \<and> pw_executor (sh_world sh) \<noteq> None) \<and> (rc = 0 \<or> rc = -1) \<and>
    (refused \<longrightarrow> req = req0 \<and> sh' = sh \<and> wire' = wire) \<and>
    (\<not> refused \<and> pw_executor (sh_world sh) = None \<longrightarrow>
       wire' = wire \<and> sh_decisions_made sh' = sh_decisions_made sh + 2)"
proof (cases "refused \<or> pw_executor (sh_world sh) = None")
  case True
  then show ?thesis
    using assms(4,5)
    by (auto simp: zcopy_put_def submit_transfer_def dispatch_transfer_def count_decision_def case_prod_unfold Let_def
        split: if_splits)
next
  case False
  then obtain ex where ex: "pw_executor (sh_world sh) = Some ex" by auto
  have sound: "world_sound (cluster_edges opts) n (sh_world sh)"
    using shim_run_sound [OF assms(1,2)] by (simp add: shim_sound_def)
  then have inv: "exec_inv ex" and ids: "ex_next_id ex = of_nat (Suc n)" "ids_of ex \<subseteq> of_nat ` {1..n}"
    using ex by (simp_all add: world_sound_def world_ok_def)
  have "fst (schedule_and_execute lm g now rq utils so (sh_world sh)) = of_nat (Suc n)" for lm g now rq utils so
    using schedule_table [OF ex inv prod.collapse [symmetric]] ids(1) by metis
  then show ?thesis
    using False assms(4,5) ex next_id_fresh(2) [OF ids(2) assms(3)]
    by (auto simp: zcopy_put_def submit_transfer_def case_prod_unfold Let_def)
qed

theorem zcopy_put_fails_witness:
  "fst (zcopy_put still_clock 0 pair_ep 16 1073741825 KVMigration 0 64 ucx_request_fresh (pair_shim, pair_wire)) = -1"
proof -
  obtain rc req sh' wire' where put: "zcopy_put still_clock 0 pair_ep 16 1073741825 KVMigration 0 64 ucx_request_fresh
      (pair_shim, pair_wire) = (rc, req, sh', wire')" by (rule prod_cases4)
  from zcopy_put_fails [OF pair_run pair_fits _ put refl] put show ?thesis
    by (auto simp: pair_shim_simps)
qed

end
