(* ===== verification/Plugin_Props.thy ===== *)
theory Plugin_Props
  imports Nccl_Plugin Ucx_Props
begin

text \<open>
  Properties of the NCCL plugin: its request table keeps the contract of a handle table, every run of
  the plugin keeps its tables and its shim sound, and a receive that is paired with a send ends, after
  enough tests, with the sender's bytes in the receiver's buffer.
\<close>

section \<open>The request table\<close>

definition request_inv :: "nat \<Rightarrow> 'g plugin \<Rightarrow> bool" where
  "request_inv k st \<longleftrightarrow> handles_inv k (pl_req_ids st) (pl_requests st)"

definition request_of :: "'g plugin \<Rightarrow> u64 \<Rightarrow> plugin_request option" where
  "request_of st i = map_of (pl_requests st) i"

interpretation requests: handle_table put_request drop_request request_of request_inv
proof
  fix k and s :: "'a plugin" and v :: plugin_request and h :: u64
  assume "request_inv k s"
  then have inv: "handles_inv k (pl_req_ids s) (pl_requests s)" by (simp add: request_inv_def)
  show "fst (put_request v s) = of_nat (Suc k)"
    using inv by (simp add: put_request_def handles_inv_def Let_def)
  show "request_inv (Suc k) (snd (put_request v s))" if "Suc k < 2 ^ 64"
    using handles_put [OF inv that] by (simp add: put_request_def request_inv_def Let_def)
  show "request_inv k (drop_request h s)"
    using handles_drop [OF inv] by (simp add: request_inv_def drop_request_def)
  show "\<exists>v'. request_of (snd (put_request v s)) = (request_of s)(fst (put_request v s) \<mapsto> v')"
    by (intro exI [of _ v]) (auto simp: fun_eq_iff request_of_def put_request_def Let_def)
  show "request_of (drop_request h s) = (request_of s)(h := None)"
    by (auto simp: fun_eq_iff request_of_def drop_request_def)
  show "h \<noteq> 0 \<and> unat h \<le> k" if "request_of s h \<noteq> None"
    using that handles_bound [OF inv] by (auto simp: request_of_def)
qed

lemma register_inv:
  assumes "registry_inv m r" and "Suc m < 2 ^ 64"
  shows "registry_inv m (snd (register_mr h data nbytes ty r)) \<or> registry_inv (Suc m) (snd (register_mr h data nbytes ty r))"
  using assms(1) registry.put_inv [OF assms] by (auto simp: register_mr_def)

lemma deregister_inv: "registry_inv m r \<Longrightarrow> registry_inv m (snd (deregister_mr i r))"
  using handles_change [of m "mg_next_id r" "mg_regions r" i] registry.drop_inv [of m r i]
  by (auto simp: deregister_mr_def registry_inv_def dest: map_of_SomeD split: option.split)
    (metis (no_types) fst_conv image_eqI map_of_SomeD)

section \<open>The shim under the plugin\<close>

lemma submit_table:
  assumes "shim_sound es n sh" and "pw_executor (sh_world sh) = Some ex"
    and "submit_transfer c junk cls src dst nbytes deadline sb db (sh, wire) = (i, sh', wire')"
  shows "i = of_nat (Suc n) \<and> (\<exists>ex'. pw_executor (sh_world sh') = Some ex' \<and> adds_transfer sb db ex ex' \<and>
    ids_of ex' = insert i (ids_of ex))"
proof -
  define rq where "rq = \<lparr>rq_source = src, rq_dest = dst, size_bytes = nbytes, traffic = cls, deadline_us = deadline\<rparr>"
  have inv: "exec_inv ex" and next_id: "ex_next_id ex = of_nat (Suc n)"
    using assms(1,2) by (simp_all add: shim_sound_def world_sound_def world_ok_def)
  obtain j w1 where sched: "schedule_and_execute (sh_predictor sh) (Some (shim_edges sh)) (cl_now c) rq
      (current_utils sh) \<lparr>so_src_buf = sb, so_dst_buf = db\<rparr> (sh_world sh) = (j, w1)" by (rule prod.exhaust)
  obtain ids w2 wire2 where td: "tick_and_drain 0.05 (current_utils sh) (cl_tick c) (sh_predictor sh) w1 wire =
      (ids, w2, wire2)" by (rule prod_cases3)
  have res: "i = j" "sh_world sh' = w2"
    using assms(2,3) sched td by (auto simp: submit_transfer_def Let_def rq_def)
  obtain ex1 where ex1: "pw_executor w1 = Some ex1" "adds_transfer sb db ex ex1" and j: "j = ex_next_id ex"
    using schedule_table [OF assms(2) inv sched] by auto
  obtain ex2 where "pw_executor w2 = Some ex2" "same_table ex1 ex2"
    using tick_drain_table [OF ex1(1) td] by blast
  with ex1(2) j show ?thesis by (simp add: res next_id adds_transfer_def same_table_def)
qed

lemma poll_table:
  assumes "pw_executor (sh_world sh) = Some ex" and "poll_transfers c dt (sh, wire) = (m, sh', wire')"
  shows "\<exists>ex'. pw_executor (sh_world sh') = Some ex' \<and> same_table ex ex'"
proof -
  obtain ids w' wr where "tick_and_drain dt (current_utils sh) (cl_tick c) (sh_predictor sh) (sh_world sh) wire =
      (ids, w', wr)" by (rule prod_cases3)
  with tick_drain_table [OF assms(1) this] assms(2) show ?thesis by (auto simp: poll_transfers_def)
qed

text \<open>A transfer of no bytes has nothing left to send, whatever happens to it.\<close>

definition empty_entry :: "transfer_id \<Rightarrow> path_world \<Rightarrow> bool" where
  "empty_entry i w \<longleftrightarrow> (\<exists>ex tp. pw_executor w = Some ex \<and> map_of (ex_transfers ex) i = Some tp \<and>
     tp_bytes_total tp = 0 \<and> i \<notin> pending_ids w)"

lemma tick_drain_empty:
  assumes "empty_entry i w" and run: "tick_and_drain dt utils clock lm w wire = (ids, w', wire')"
  shows "empty_entry i w'"
proof -
  obtain ex tp where ex: "pw_executor w = Some ex" and tp: "map_of (ex_transfers ex) i = Some tp" "tp_bytes_total tp = 0"
    and pend: "i \<notin> pending_ids w"
    using assms(1) by (auto simp: empty_entry_def)
  obtain ex1 en1 n where ex1: "ex_transfers ex1 = map (\<lambda>(i, tp). (i, ticked (Some (edges (pw_graph w))) dt utils (clock i) tp)) (ex_transfers ex)"
    and pend1: "en_pending en1 = en_pending (pw_engine w)"
    and drain: "drain_boundary_reroutes lm (Some (edges (pw_graph w))) utils
        (w\<lparr>pw_executor := Some ex1, pw_engine := en1\<rparr>) = (n, w')"
    using tick_drain_split [OF ex run] by blast
  let ?w1 = "w\<lparr>pw_executor := Some ex1, pw_engine := en1\<rparr>"
  have look: "map_of (ex_transfers ex1) i = Some (ticked (Some (edges (pw_graph w))) dt utils (clock i) tp)"
    using tp by (simp add: ex1 lookup_mapped)
  from drain_table [of ?w1 ex1, OF _ arg_cong [OF drain, of snd]] obtain ex2 where
    "pw_executor w' = Some ex2" "pending_ids w' \<subseteq> pending_ids ?w1" by auto
  with drain_lookup [of ?w1 ex1, OF _ drain look] pend pend1 tp(2) show ?thesis
    by (auto simp: empty_entry_def pending_ids_def)
qed

lemma empty_over:
  assumes "shim_sound es n sh" and "empty_entry i (sh_world sh)"
  shows "transfer_over (transfer_status sh i)"
proof -
  obtain ex tp where ex: "pw_executor (sh_world sh) = Some ex" "map_of (ex_transfers ex) i = Some tp"
    and total: "tp_bytes_total tp = 0"
    using assms(2) by (auto simp: empty_entry_def)
  have "exec_inv ex" using assms(1) ex(1) by (simp add: shim_sound_def world_sound_def world_ok_def)
  from exec_inv_lookup [OF this ex(2)] have acc: "accounted tp" by (simp add: tp_inv_def)
  then have "total_sent (tp_chunks tp) \<le> total_size (tp_chunks tp)"
    by (intro total_sent_le_size) (simp add: accounted_def)
  with acc total have "tp_bytes_sent tp = 0" by (simp add: accounted_def unat_eq_0)
  with acc total ex show ?thesis
    by (simp add: transfer_over_def transfer_status_lookup accounted_def split: if_splits)
qed

lemma submit_empty:
  assumes sound: "shim_sound es n sh" and ex: "pw_executor (sh_world sh) = Some ex" and "Suc n < 2 ^ 64"
    and run: "submit_transfer c junk cls src dst 0 deadline sb db (sh, wire) = (i, sh', wire')"
  shows "empty_entry i (sh_world sh')"
proof -
  define rq where "rq = \<lparr>rq_source = src, rq_dest = dst, size_bytes = 0, traffic = cls, deadline_us = deadline\<rparr>"
  have inv: "exec_inv ex" and ids: "ex_next_id ex = of_nat (Suc n)" "ids_of ex \<subseteq> of_nat ` {1..n}"
    "pending_ids (sh_world sh) \<subseteq> ids_of ex"
    using sound ex by (auto simp: shim_sound_def world_sound_def world_ok_def)
  obtain j w1 where sched: "schedule_and_execute (sh_predictor sh) (Some (shim_edges sh)) (cl_now c) rq
      (current_utils sh) \<lparr>so_src_buf = sb, so_dst_buf = db\<rparr> (sh_world sh) = (j, w1)" by (rule prod.exhaust)
  obtain ids w2 wire2 where td: "tick_and_drain 0.05 (current_utils sh) (cl_tick c) (sh_predictor sh) w1 wire =
      (ids, w2, wire2)" by (rule prod_cases3)
  have res: "i = j" "sh_world sh' = w2"
    using ex run sched td by (auto simp: submit_transfer_def Let_def rq_def)
  from schedule_table [OF ex inv sched] have "j = ex_next_id ex" "pending_ids w1 \<subseteq> ids_of ex"
    using ids(3) by auto
  then have "j \<notin> pending_ids w1"
    using next_id_fresh(1) [OF ids(2) assms(3)] ids(1) by auto
  moreover have "\<exists>ex1 tp. pw_executor w1 = Some ex1 \<and> map_of (ex_transfers ex1) j = Some tp \<and> tp_bytes_total tp = 0"
    using sched ex
    by (auto simp: schedule_and_execute_def rq_def submit_def update_conv' default_progress_def case_prod_unfold Let_def
        split: if_splits)
  ultimately have "empty_entry j w1" by (auto simp: empty_entry_def)
  from tick_drain_empty [OF this td] show ?thesis by (simp add: res)
qed

section \<open>Runs of the plugin\<close>

text \<open>
  After \<open>k\<close> requests and at most \<open>m\<close> registrations: the tables keep their contract, the shim, once there is
  one, is in a run of \<open>k\<close> submissions, it has an executor, whose table holds the transfer of every request,
  and every communicator is of rank 0.
\<close>

definition plugin_options :: "string \<Rightarrow> init_options" where
  "plugin_options path = init_options_default\<lparr>io_weights_path := path, io_enable_executor := True\<rparr>"

definition shim_part :: "'g rng_ops \<Rightarrow> nat \<Rightarrow> 'g plugin \<Rightarrow> bool" where
  "shim_part R k st \<longleftrightarrow> (case pl_shim st of None \<Rightarrow> k = 0 | Some sh \<Rightarrow>
     (\<exists>path ex. shim_run R (plugin_options path) k (sh, pl_wire st) \<and> pw_executor (sh_world sh) = Some ex \<and>
        (\<forall>(i, rq) \<in> set (pl_requests st). rr_transfer_id rq \<in> ids_of ex)))"

definition comms_part :: "'g plugin \<Rightarrow> bool" where
  "comms_part st \<longleftrightarrow> (\<forall>p comm. pl_comms st p = Some comm \<longrightarrow>
     pc_peer_rank comm = 0 \<and> pc_local_gpu comm = 0 \<and> 0 \<le> pc_rail comm)"

definition plugin_sound :: "'g rng_ops \<Rightarrow> nat \<Rightarrow> nat \<Rightarrow> 'g plugin \<Rightarrow> bool" where
  "plugin_sound R k m st \<longleftrightarrow> request_inv k st \<and> (\<exists>m' \<le> m. registry_inv m' (pl_registry st)) \<and>
     comms_part st \<and> shim_part R k st"

inductive plugin_run ::
  "'g boot_env \<Rightarrow> (request_table \<Rightarrow> request_table) \<Rightarrow> nat \<Rightarrow> nat \<Rightarrow> 'g plugin \<Rightarrow> bool"
  for env order where
  plugin_start: "plugin_run env order 0 0 (plugin_fresh w)"
| plugin_boot: "plugin_run env order k m st \<Longrightarrow> plugin_run env order k m (snd (nccl_plugin_bootstrap env wp st))"
| plugin_initialise: "plugin_run env order k m st \<Longrightarrow> plugin_run env order k m (snd (plugin_init env lg st))"
| plugin_enumerate: "plugin_run env order k m st \<Longrightarrow> plugin_run env order k m (snd (snd (plugin_devices h b st)))"
| plugin_describe: "plugin_run env order k m st \<Longrightarrow>
    plugin_run env order k m (snd (snd (plugin_getProperties h cu dev b st)))"
| plugin_listening: "plugin_run env order k m st \<Longrightarrow>
    plugin_run env order k m (snd (snd (snd (plugin_listen addr dev hnd b st))))"
| plugin_connected: "plugin_run env order k m st \<Longrightarrow> plugin_connect addr dev hnd b st = Some (r, p, st') \<Longrightarrow>
    plugin_run env order k m st'"
| plugin_accepted: "plugin_run env order k m st \<Longrightarrow> plugin_accept addr l b st = Some (r, p, st') \<Longrightarrow>
    plugin_run env order k m st'"
| plugin_closed: "plugin_run env order k m st \<Longrightarrow> plugin_close p st = Some (r, st') \<Longrightarrow> plugin_run env order k m st'"
| plugin_registered: "plugin_run env order k m st \<Longrightarrow> Suc m < 2 ^ 64 \<Longrightarrow>
    plugin_run env order k (Suc m) (snd (snd (plugin_regMr cu data nbytes ty b st)))"
| plugin_deregistered: "plugin_run env order k m st \<Longrightarrow> plugin_run env order k m (snd (plugin_deregMr i st))"
| plugin_sent: "plugin_run env order k m st \<Longrightarrow> Suc k < 2 ^ 64 \<Longrightarrow>
    plugin_isend c junk cu p data nbytes tag mh b st = Some (NcclSuccess, rid, st') \<Longrightarrow>
    plugin_run env order (Suc k) m st'"
| plugin_received: "plugin_run env order k m st \<Longrightarrow> Suc k < 2 ^ 64 \<Longrightarrow>
    plugin_irecv order c junk cu p n ds szs tags mhs b st = Some (NcclSuccess, rid, st') \<Longrightarrow>
    plugin_run env order (Suc k) m st'"
| plugin_tested: "plugin_run env order k m st \<Longrightarrow> plugin_test c i b b' st = Some (r, d, s, st') \<Longrightarrow>
    plugin_run env order k m st'"
| plugin_telemetry: "plugin_run env order k m st \<Longrightarrow> pl_shim st = Some sh \<Longrightarrow>
    daemon_step (be_rng env) (sh_telemetry sh) d \<Longrightarrow>
    plugin_run env order k m (st\<lparr>pl_shim := Some (sh\<lparr>sh_telemetry := d\<rparr>)\<rparr>)"
| plugin_host: "plugin_run env order k m st \<Longrightarrow> plugin_run env order k m (st\<lparr>pl_wire := w\<rparr>)"

text \<open>Calls that fail leave the plugin as it was.\<close>

lemma isend_failed:
  "plugin_isend c junk cu p data nbytes tag mh b st = Some (r, rid, st') \<Longrightarrow> r \<noteq> NcclSuccess \<Longrightarrow> st' = st \<and> rid = None"
  by (auto simp: plugin_isend_def case_prod_unfold Let_def split: if_splits option.splits sum.splits)

lemma irecv_failed:
  "plugin_irecv order c junk cu p n ds szs tags mhs b st = Some (r, rid, st') \<Longrightarrow> r \<noteq> NcclSuccess \<Longrightarrow>
   st' = st \<and> rid = None"
  by (auto simp: plugin_irecv_def case_prod_unfold Let_def split: if_splits option.splits sum.splits)

section \<open>Every operation keeps the plugin sound\<close>

lemma shim_part_cong:
  assumes "pl_shim st' = pl_shim st" and "pl_requests st' = pl_requests st" and "shim_part R k st"
  shows "shim_part R k st'"
proof (cases "pl_shim st")
  case None
  then show ?thesis using assms by (simp add: shim_part_def)
next
  case (Some sh)
  with assms(3) obtain path ex where "shim_run R (plugin_options path) k (sh, pl_wire st)"
    "pw_executor (sh_world sh) = Some ex" "\<forall>(i, rq) \<in> set (pl_requests st). rr_transfer_id rq \<in> ids_of ex"
    by (auto simp: shim_part_def)
  with run_host [OF this(1), of "pl_wire st'"] show ?thesis
    using assms(1,2) Some by (auto simp: shim_part_def)
qed

lemma sound_cong:
  assumes "plugin_sound R k m st" and "pl_shim st' = pl_shim st" and "pl_requests st' = pl_requests st"
    and "pl_req_ids st' = pl_req_ids st" and "pl_registry st' = pl_registry st" and "comms_part st'"
  shows "plugin_sound R k m st'"
  using assms shim_part_cong [OF assms(2,3)] by (simp add: plugin_sound_def request_inv_def)

lemma boot_sound:
  assumes "plugin_sound (be_rng env) k m st"
  shows "plugin_sound (be_rng env) k m (snd (nccl_plugin_bootstrap env wp st))"
proof (cases "pl_shim st")
  case None
  then have k: "k = 0" using assms by (simp add: plugin_sound_def shim_part_def)
  then have empty: "pl_requests st = []"
    using assms by (cases "pl_requests st") (auto simp: plugin_sound_def request_inv_def handles_inv_def unat_eq_0)
  define path where "path = (case wp of None \<Rightarrow> pl_weights_path st | Some p \<Rightarrow> p)"
  define init where "init = initialize (be_rng env) (be_seed env) (be_host env) (be_machine env) (be_weights env)
      (be_enc env) (be_dec env) (be_rounds env) (be_cursor env) (plugin_options path) (fst (pl_wire st))"
  define st' where "st' = snd (nccl_plugin_bootstrap env wp st)"
  have st': "st' = st\<lparr>pl_weights_path := path, pl_shim := Some (fst (snd init)),
      pl_wire := (snd (snd init), snd (pl_wire st))\<rparr>"
    by (simp add: st'_def nccl_plugin_bootstrap_def None path_def init_def plugin_options_def case_prod_unfold Let_def)
  have "pw_executor (sh_world (fst (snd init))) = Some executor_fresh"
    by (simp add: init_def init_world plugin_options_def init_options_default_def)
  moreover have "shim_run (be_rng env) (plugin_options path) 0 (fst (snd init), pl_wire st')"
    unfolding init_def by (rule run_init)
  ultimately have "shim_part (be_rng env) 0 st'"
    by (auto simp: shim_part_def st' empty)
  then show ?thesis
    using assms unfolding st'_def [symmetric] by (simp add: plugin_sound_def st' k request_inv_def comms_part_def)
qed (use assms in \<open>simp add: nccl_plugin_bootstrap_def\<close>)

lemma init_plugin_sound:
  assumes "plugin_sound (be_rng env) k m st"
  shows "plugin_sound (be_rng env) k m (snd (plugin_init env lg st))"
proof -
  have "plugin_sound (be_rng env) k m (st\<lparr>pl_logger := lg\<rparr>)"
    by (rule sound_cong [OF assms]) (use assms in \<open>simp_all add: plugin_sound_def comms_part_def\<close>)
  from boot_sound [OF this] show ?thesis by (simp add: plugin_init_def case_prod_unfold Let_def)
qed

lemma ensure_ib_keeps [simp]:
  "pl_shim (ensure_ib h st) = pl_shim st" "pl_requests (ensure_ib h st) = pl_requests st"
  "pl_req_ids (ensure_ib h st) = pl_req_ids st" "pl_registry (ensure_ib h st) = pl_registry st"
  "pl_comms (ensure_ib h st) = pl_comms st"
  by (simp_all add: ensure_ib_def)

lemma devices_sound:
  assumes "plugin_sound R k m st"
  shows "plugin_sound R k m (snd (snd (plugin_devices h b st)))"
    and "plugin_sound R k m (snd (snd (plugin_getProperties h cu dev b st)))"
proof -
  have keep: "plugin_sound R k m st'" if "pl_shim st' = pl_shim st" "pl_requests st' = pl_requests st"
    "pl_req_ids st' = pl_req_ids st" "pl_registry st' = pl_registry st" "pl_comms st' = pl_comms st" for st'
    by (rule sound_cong [OF assms]) (use that assms in \<open>simp_all add: plugin_sound_def comms_part_def\<close>)
  show "plugin_sound R k m (snd (snd (plugin_devices h b st)))"
    by (simp add: plugin_devices_def Let_def keep)
  show "plugin_sound R k m (snd (snd (plugin_getProperties h cu dev b st)))"
    by (rule keep) (simp_all add: plugin_getProperties_def Let_def)
qed

lemma comms_sound:
  assumes "plugin_sound R k m st"
  shows "plugin_sound R k m (snd (snd (snd (plugin_listen addr dev hnd b st))))"
    and "plugin_connect addr dev hnd b st = Some (r, p, st') \<Longrightarrow> plugin_sound R k m st'"
    and "plugin_accept addr l b st = Some (r, p, st') \<Longrightarrow> plugin_sound R k m st'"
    and "plugin_close p' st = Some (r, st') \<Longrightarrow> plugin_sound R k m st'"
proof -
  have comms: "comms_part st" using assms by (simp add: plugin_sound_def)
  have enter: "plugin_sound R k m (st\<lparr>pl_comms := (pl_comms st)(a \<mapsto> c)\<rparr>)"
    if "pc_peer_rank c = 0" "pc_local_gpu c = 0" "0 \<le> pc_rail c" for a c
    by (rule sound_cong [OF assms]) (use that comms in \<open>auto simp: comms_part_def\<close>)
  show "plugin_sound R k m (snd (snd (snd (plugin_listen addr dev hnd b st))))"
    using assms by (simp add: plugin_listen_def enter comm_fresh_def Let_def)
  show "plugin_sound R k m st'" if "plugin_connect addr dev hnd b st = Some (r, p, st')"
    using that assms comms
    by (auto simp: plugin_connect_def comm_fresh_def comms_part_def Let_def split: if_splits option.splits intro!: enter)
  show "plugin_sound R k m st'" if "plugin_accept addr l b st = Some (r, p, st')"
    using that assms comms
    by (auto simp: plugin_accept_def comms_part_def split: if_splits option.splits intro!: enter)
  show "plugin_sound R k m st'" if "plugin_close p' st = Some (r, st')"
  proof -
    have "plugin_sound R k m (st\<lparr>pl_comms := (pl_comms st)(p' := None)\<rparr>)"
      by (rule sound_cong [OF assms]) (use comms in \<open>auto simp: comms_part_def\<close>)
    then show ?thesis using that assms by (auto simp: plugin_close_def split: if_splits)
  qed
qed

lemma registry_sound:
  assumes "plugin_sound R k m st"
  shows "Suc m < 2 ^ 64 \<Longrightarrow> plugin_sound R k (Suc m) (snd (snd (plugin_regMr cu data nbytes ty b st)))"
    and "plugin_sound R k m (snd (plugin_deregMr i st))"
proof -
  obtain m' where m': "m' \<le> m" "registry_inv m' (pl_registry st)" using assms by (auto simp: plugin_sound_def)
  have keep: "plugin_sound R k j (st\<lparr>pl_registry := reg\<rparr>)" if "\<exists>m' \<le> j. registry_inv m' reg" for j reg
    using assms that shim_part_cong [of "st\<lparr>pl_registry := reg\<rparr>" st R k]
    by (simp add: plugin_sound_def request_inv_def comms_part_def)
  have weaken: "plugin_sound R k (Suc m) st" using assms by (auto simp: plugin_sound_def intro: le_SucI)
  show "plugin_sound R k (Suc m) (snd (snd (plugin_regMr cu data nbytes ty b st)))" if "Suc m < 2 ^ 64"
  proof -
    have "Suc m' < 2 ^ 64" using m'(1) that by simp
    from register_inv [OF m'(2) this, of cu data nbytes ty]
    have "\<exists>m' \<le> Suc m. registry_inv m' (snd (register_mr cu data nbytes ty (pl_registry st)))"
      using m'(1) by (meson Suc_le_mono le_SucI)
    then show ?thesis using weaken keep by (simp add: plugin_regMr_def case_prod_unfold Let_def)
  qed
  show "plugin_sound R k m (snd (plugin_deregMr i st))"
    using assms m' deregister_inv [OF m'(2), of i] keep
    by (auto simp: plugin_deregMr_def case_prod_unfold Let_def)
qed

text \<open>A new request, with its submission, on top of a table whose transfers are known.\<close>

lemma plugin_fits: "cluster_fits (io_num_nodes (plugin_options path)) (io_gpus_per_node (plugin_options path))"
  using default_fits by (simp add: plugin_options_def)

lemma request_sound:
  assumes sound: "plugin_sound R k m st" and n: "Suc k < 2 ^ 64" and sh: "pl_shim st = Some sh"
    and run: "submit_transfer c junk cls src dst nbytes deadline sb db (sh, pl_wire st) = (tid, sh', w')"
    and tbl: "map fst tbl = map fst (pl_requests st)"
      "rr_transfer_id ` snd ` set tbl = rr_transfer_id ` snd ` set (pl_requests st)"
    and rq: "rr_transfer_id rq = tid"
  shows "plugin_sound R (Suc k) m
    (snd (put_request rq (st\<lparr>pl_shim := Some sh', pl_wire := w', pl_requests := tbl\<rparr>)))"
proof -
  let ?st = "st\<lparr>pl_shim := Some sh', pl_wire := w', pl_requests := tbl\<rparr>"
  obtain path ex where shim: "shim_run R (plugin_options path) k (sh, pl_wire st)"
    and ex: "pw_executor (sh_world sh) = Some ex"
    and known: "\<forall>(i, rq) \<in> set (pl_requests st). rr_transfer_id rq \<in> ids_of ex"
    using sound sh by (auto simp: plugin_sound_def shim_part_def)
  have run': "shim_run R (plugin_options path) (Suc k) (sh', w')"
    using run_submit [OF shim, of c junk cls src dst nbytes deadline sb db] run by simp
  obtain ex' where ex': "pw_executor (sh_world sh') = Some ex'" "ids_of ex' = insert tid (ids_of ex)"
    using submit_table [OF shim_run_sound [OF shim plugin_fits, unfolded fst_conv] ex run] by blast
  have tbl': "rr_transfer_id r \<in> ids_of ex'" if "(i, r) \<in> set tbl" for i r
  proof -
    have "rr_transfer_id r \<in> rr_transfer_id ` snd ` set tbl" using that by force
    then have "rr_transfer_id r \<in> ids_of ex" using known unfolding tbl(2) by auto
    then show ?thesis by (simp add: ex'(2))
  qed
  have "request_inv k ?st"
    using sound handles_keys [OF tbl(1)] by (simp add: plugin_sound_def request_inv_def)
  from requests.put_inv [OF this n, of rq] have req: "request_inv (Suc k) (snd (put_request rq ?st))" .
  have "set (pl_requests (snd (put_request rq ?st))) \<subseteq> insert (pl_req_ids st, rq) (set tbl)"
    using set_update_subset [of "pl_req_ids st" rq tbl] by (simp add: put_request_def Let_def)
  then have known': "\<forall>(i, r) \<in> set (pl_requests (snd (put_request rq ?st))). rr_transfer_id r \<in> ids_of ex'"
    using tbl' rq by (auto simp: ex'(2) dest!: subsetD)
  have "pl_shim (snd (put_request rq ?st)) = Some sh'" "pl_wire (snd (put_request rq ?st)) = w'"
    by (simp_all add: put_request_def Let_def)
  then have "shim_part R (Suc k) (snd (put_request rq ?st))"
    using run' ex'(1) known' unfolding shim_part_def by auto
  with req sound show ?thesis by (simp add: plugin_sound_def put_request_def comms_part_def Let_def)
qed

lemma pair_keeps:
  assumes "\<And>xs. set (order xs) \<subseteq> set xs" and "distinct (map fst tbl)"
  shows "map fst (snd (pair_request order nbytes buf tbl)) = map fst tbl"
    and "rr_transfer_id ` snd ` set (snd (pair_request order nbytes buf tbl)) = rr_transfer_id ` snd ` set tbl"
proof -
  have upd: "map fst (AList.update i rq' kvs) = map fst kvs \<and>
      map (rr_transfer_id \<circ> snd) (AList.update i rq' kvs) = map (rr_transfer_id \<circ> snd) kvs"
    if "map_of kvs i = Some rq" "rr_transfer_id rq' = rr_transfer_id rq" for i rq rq' and kvs :: request_table
    using that by (induction kvs) (auto split: if_splits)
  have "map_of tbl i = Some rq" if "List.find (unpaired nbytes) (order tbl) = Some (i, rq)" for i rq
  proof -
    have "(i, rq) \<in> set (order tbl)" using that by (auto simp: find_Some_iff)
    then show ?thesis using assms by (auto intro: map_of_is_SomeI)
  qed
  from upd [OF this] have all: "map fst (snd (pair_request order nbytes buf tbl)) = map fst tbl \<and>
      map (rr_transfer_id \<circ> snd) (snd (pair_request order nbytes buf tbl)) = map (rr_transfer_id \<circ> snd) tbl"
    by (auto simp: pair_request_def split: option.split)
  then show "map fst (snd (pair_request order nbytes buf tbl)) = map fst tbl" by simp
  from all have "set (map (rr_transfer_id \<circ> snd) (snd (pair_request order nbytes buf tbl))) = set (map (rr_transfer_id \<circ> snd) tbl)"
    by simp
  then show "rr_transfer_id ` snd ` set (snd (pair_request order nbytes buf tbl)) = rr_transfer_id ` snd ` set tbl"
    by (simp add: image_comp)
qed

lemma buffer_is_cuda_error [simp]: "buffer_is_cuda cu reg mh data \<noteq> Inl NcclSuccess"
  by (simp add: buffer_is_cuda_def split: option.split)

lemma isend_sound:
  assumes "plugin_sound R k m st" and "Suc k < 2 ^ 64"
    and "plugin_isend c junk cu p data nbytes tag mh b st = Some (NcclSuccess, rid, st')"
  shows "plugin_sound R (Suc k) m st'"
proof -
  obtain sh comm is_cuda where parts: "pl_shim st = Some sh" "pl_comms st p = Some comm"
    "buffer_is_cuda cu (pl_registry st) mh data = Inr is_cuda"
    "send_in_bounds (pl_registry st) mh data nbytes" "p \<noteq> 0" b
    using assms(3) by (auto simp: plugin_isend_def split: if_splits option.splits sum.splits)
  define cls where "cls = classify_tag tag nbytes"
  obtain tid sh' w' where run: "submit_transfer c junk cls (gpu_ep (pc_local_gpu comm)) (gpu_ep (pc_peer_rank comm))
      nbytes (class_deadline cls) data 0 (sh, pl_wire st) = (tid, sh', w')" by (rule prod_cases3)
  from request_sound [OF assms(1,2) parts(1) run refl refl, of "\<lparr>rr_transfer_id = tid, rr_size = nbytes,
      rr_done = False, rr_result_size = result_int nbytes, rr_mhandle = mh, rr_data = data, rr_peer_buf = 0,
      rr_is_cuda = is_cuda, rr_rail = pc_rail comm\<rparr>"]
  show ?thesis
    using assms(3) parts run by (simp add: plugin_isend_def cls_def [symmetric] case_prod_unfold Let_def)
qed

text \<open>A receive that succeeds, taken apart.\<close>

abbreviation null_or :: "'v::zero option \<Rightarrow> 'v" where
  "null_or v \<equiv> (case v of None \<Rightarrow> 0 | Some x \<Rightarrow> x)"

lemma irecv_parts:
  assumes "plugin_irecv order c junk cu p n ds szs tags mhs b st = Some (NcclSuccess, rid, st')"
  obtains sh comm is_cuda src tbl tid sh' w' i where "pl_shim st = Some sh" and "pl_comms st p = Some comm"
    and "pair_request order (null_or szs) (null_or ds) (pl_requests st) = (src, tbl)"
    and "submit_transfer c junk (classify_tag (null_or tags) (null_or szs)) (gpu_ep (pc_peer_rank comm))
      (gpu_ep (pc_local_gpu comm)) (null_or szs) (class_deadline (classify_tag (null_or tags) (null_or szs)))
      src (null_or ds) (sh, pl_wire st) = (tid, sh', w')"
    and "rid = Some i"
    and "put_request \<lparr>rr_transfer_id = tid, rr_size = null_or szs, rr_done = False,
        rr_result_size = result_int (null_or szs), rr_mhandle = null_or mhs, rr_data = null_or ds, rr_peer_buf = src,
        rr_is_cuda = is_cuda, rr_rail = pc_rail comm\<rparr>
      (st\<lparr>pl_shim := Some sh', pl_wire := w', pl_requests := tbl\<rparr>) = (i, st')"
proof -
  have "p \<noteq> 0 \<and> b \<and> \<not> n < 1" using assms by (auto simp: plugin_irecv_def split: if_splits)
  moreover obtain sh where sh: "pl_shim st = Some sh"
    using assms calculation by (auto simp: plugin_irecv_def split: option.splits)
  moreover obtain is_cuda where "buffer_is_cuda cu (pl_registry st) (null_or mhs) (null_or ds) = Inr is_cuda"
    using assms calculation by (auto simp: plugin_irecv_def Let_def split: sum.splits)
  moreover obtain comm where comm: "pl_comms st p = Some comm"
    using assms calculation by (simp add: plugin_irecv_def Let_def split: option.splits sum.splits)
  moreover obtain src tbl where pair: "pair_request order (null_or szs) (null_or ds) (pl_requests st) = (src, tbl)"
    by (rule prod.exhaust)
  moreover obtain tid sh' w' where run: "submit_transfer c junk (classify_tag (null_or tags) (null_or szs))
      (gpu_ep (pc_peer_rank comm)) (gpu_ep (pc_local_gpu comm)) (null_or szs)
      (class_deadline (classify_tag (null_or tags) (null_or szs))) src (null_or ds) (sh, pl_wire st) = (tid, sh', w')"
    by (rule prod_cases3)
  moreover obtain i st1 where put: "put_request \<lparr>rr_transfer_id = tid, rr_size = null_or szs, rr_done = False,
        rr_result_size = result_int (null_or szs), rr_mhandle = null_or mhs, rr_data = null_or ds, rr_peer_buf = src,
        rr_is_cuda = is_cuda, rr_rail = pc_rail comm\<rparr>
      (st\<lparr>pl_shim := Some sh', pl_wire := w', pl_requests := tbl\<rparr>) = (i, st1)" by (rule prod.exhaust)
  ultimately have res: "rid = Some i" "st' = st1"
    using assms by (simp_all add: plugin_irecv_def Let_def)
  show thesis by (rule that [OF sh comm pair run res(1) put [folded res(2)]])
qed

lemma irecv_sound:
  assumes "plugin_sound R k m st" and "Suc k < 2 ^ 64" and order: "\<And>xs. set (order xs) \<subseteq> set xs"
    and run: "plugin_irecv order c junk cu p n ds szs tags mhs b st = Some (NcclSuccess, rid, st')"
  shows "plugin_sound R (Suc k) m st'"
proof -
  have keys: "distinct (map fst (pl_requests st))"
    using assms(1) by (simp add: plugin_sound_def request_inv_def handles_inv_def)
  from run show ?thesis
  proof (rule irecv_parts)
    fix sh comm is_cuda src tbl tid sh' w' i
    assume parts: "pl_shim st = Some sh"
      "pair_request order (null_or szs) (null_or ds) (pl_requests st) = (src, tbl)"
      "submit_transfer c junk (classify_tag (null_or tags) (null_or szs)) (gpu_ep (pc_peer_rank comm))
        (gpu_ep (pc_local_gpu comm)) (null_or szs) (class_deadline (classify_tag (null_or tags) (null_or szs)))
        src (null_or ds) (sh, pl_wire st) = (tid, sh', w')"
      "put_request \<lparr>rr_transfer_id = tid, rr_size = null_or szs, rr_done = False,
          rr_result_size = result_int (null_or szs), rr_mhandle = null_or mhs, rr_data = null_or ds, rr_peer_buf = src,
          rr_is_cuda = is_cuda, rr_rail = pc_rail comm\<rparr>
        (st\<lparr>pl_shim := Some sh', pl_wire := w', pl_requests := tbl\<rparr>) = (i, st')"
    have tbl: "map fst tbl = map fst (pl_requests st)"
      "rr_transfer_id ` snd ` set tbl = rr_transfer_id ` snd ` set (pl_requests st)"
      using pair_keeps [OF order keys, of "null_or szs" "null_or ds"] parts(2) by simp_all
    from request_sound [OF assms(1,2) parts(1,3) tbl, of "\<lparr>rr_transfer_id = tid, rr_size = null_or szs, rr_done = False,
          rr_result_size = result_int (null_or szs), rr_mhandle = null_or mhs, rr_data = null_or ds, rr_peer_buf = src,
          rr_is_cuda = is_cuda, rr_rail = pc_rail comm\<rparr>"] parts(4)
    show ?thesis by simp
  qed
qed

lemma irecv_id:
  assumes "plugin_sound R k m st" and "Suc k < 2 ^ 64" and "\<And>xs. set (order xs) \<subseteq> set xs"
    and "plugin_irecv order c junk cu p n ds szs tags mhs b st = Some (NcclSuccess, Some rid, st')"
  shows "rid \<noteq> 0"
proof -
  have "request_inv (Suc k) st'" using irecv_sound [OF assms] by (simp add: plugin_sound_def)
  moreover have "request_of st' rid \<noteq> None"
    by (rule irecv_parts [OF assms(4)]) (auto simp: put_request_def request_of_def Let_def)
  ultimately show ?thesis using requests.entry_bound by blast
qed

lemma drop_sound:
  assumes "plugin_sound R k m st"
  shows "plugin_sound R k m (drop_request i st)"
proof -
  have "set (pl_requests (drop_request i st)) \<subseteq> set (pl_requests st)"
    by (auto simp: drop_request_def AList.delete_eq)
  then have "shim_part R k (drop_request i st)"
    using assms by (fastforce simp: plugin_sound_def shim_part_def drop_request_def split: option.splits)
  moreover have "request_inv k (drop_request i st)"
    using assms by (intro requests.drop_inv) (simp add: plugin_sound_def)
  ultimately show ?thesis using assms by (simp add: plugin_sound_def drop_request_def comms_part_def)
qed

lemma test_sound:
  assumes sound: "plugin_sound R k m st" and run: "plugin_test c i b b' st = Some (r, d, s, st')"
  shows "plugin_sound R k m st'"
proof (cases "b \<and> i \<noteq> 0 \<and> map_of (pl_requests st) i \<noteq> None")
  case False
  then show ?thesis using assms by (auto simp: plugin_test_def split: if_splits)
next
  case True
  then obtain rq sh where rq: "map_of (pl_requests st) i = Some rq" and sh: "pl_shim st = Some sh"
    using run by (auto simp: plugin_test_def split: option.splits)
  obtain n sh' w' where poll: "poll_transfers c 0.2 (sh, pl_wire st) = (n, sh', w')" by (rule prod_cases3)
  let ?st = "st\<lparr>pl_shim := Some sh', pl_wire := w'\<rparr>"
  obtain path ex where shim: "shim_run R (plugin_options path) k (sh, pl_wire st)"
    and ex: "pw_executor (sh_world sh) = Some ex"
    and known: "\<forall>(i, rq) \<in> set (pl_requests st). rr_transfer_id rq \<in> ids_of ex"
    using sound sh by (auto simp: plugin_sound_def shim_part_def)
  obtain ex' where "pw_executor (sh_world sh') = Some ex'" "same_table ex ex'"
    using poll_table [OF ex poll] by blast
  then have "shim_part R k ?st"
    using run_poll [OF shim, of c "0.2"] poll known by (auto simp: shim_part_def same_table_def)
  then have "plugin_sound R k m ?st"
    using sound by (simp add: plugin_sound_def request_inv_def comms_part_def)
  then show ?thesis
    using True run rq sh poll drop_sound [of R k m ?st i]
    by (auto simp: plugin_test_def Let_def split: if_splits)
qed

lemma plugin_run_sound:
  assumes "plugin_run env order k m st" and "\<And>xs. set (order xs) \<subseteq> set xs"
  shows "plugin_sound (be_rng env) k m st"
  using assms(1)
proof (induction rule: plugin_run.induct)
  case (plugin_start w)
  show ?case
    by (auto simp: plugin_sound_def plugin_fresh_def request_inv_def shim_part_def comms_part_def
        registry_inv_fresh)
next
  case (plugin_telemetry k m st sh d)
  then obtain path ex where shim: "shim_run (be_rng env) (plugin_options path) k (sh, pl_wire st)"
    "pw_executor (sh_world sh) = Some ex" "\<forall>(i, rq) \<in> set (pl_requests st). rr_transfer_id rq \<in> ids_of ex"
    by (auto simp: plugin_sound_def shim_part_def)
  with run_telemetry [OF shim(1) plugin_telemetry.hyps(3)]
  have "shim_part (be_rng env) k (st\<lparr>pl_shim := Some (sh\<lparr>sh_telemetry := d\<rparr>)\<rparr>)"
    by (auto simp: shim_part_def)
  then show ?case
    using plugin_telemetry.IH by (simp add: plugin_sound_def request_inv_def comms_part_def)
next
  case (plugin_host k m st w)
  show ?case
    by (rule sound_cong [OF plugin_host.IH]) (use plugin_host.IH in \<open>simp_all add: plugin_sound_def comms_part_def\<close>)
next
  case (plugin_received k m st)
  then show ?case using irecv_sound [OF _ _ assms(2)] by blast
qed (auto intro: boot_sound init_plugin_sound devices_sound comms_sound registry_sound isend_sound test_sound)

section \<open>Properties\<close>

text \<open>
  C15. In every run of the plugin, whatever order its requests are walked in: request ids are not null and
  at most the number of requests made, so a handle is never taken for another; the transfer of every
  request is in the executor's table, so a test never reports a request done because its transfer is
  unknown; and since no call ever sets a rank, both ends of every communicator are the same GPU.
\<close>
theorem plugin_requests_known:
  assumes "plugin_run env order k m st" and "\<forall>xs. set (order xs) = set xs"
  shows "(\<forall>i rq. request_of st i = Some rq \<longrightarrow> i \<noteq> 0 \<and> unat i \<le> k \<and>
      (\<exists>sh ex. pl_shim st = Some sh \<and> pw_executor (sh_world sh) = Some ex \<and>
         map_of (ex_transfers ex) (rr_transfer_id rq) \<noteq> None)) \<and>
    (\<forall>p comm. pl_comms st p = Some comm \<longrightarrow> gpu_ep (pc_local_gpu comm) = gpu_ep (pc_peer_rank comm))"
proof (intro conjI allI impI)
  have sound: "plugin_sound (be_rng env) k m st"
    using assms(2) by (intro plugin_run_sound [OF assms(1)]) simp
  fix i rq assume rq: "request_of st i = Some rq"
  have "request_inv k st" using sound by (simp add: plugin_sound_def)
  from requests.entry_bound [OF this, of i] show "i \<noteq> 0" "unat i \<le> k" using rq by simp_all
  have mem: "(i, rq) \<in> set (pl_requests st)" using rq by (simp add: request_of_def map_of_SomeD)
  have "k \<noteq> 0" using \<open>i \<noteq> 0\<close> \<open>unat i \<le> k\<close> by (metis le_zero_eq unat_eq_0)
  then obtain sh ex where shim: "pl_shim st = Some sh" "pw_executor (sh_world sh) = Some ex"
    and known: "\<forall>(i, rq) \<in> set (pl_requests st). rr_transfer_id rq \<in> ids_of ex"
    using sound by (auto simp: plugin_sound_def shim_part_def split: option.splits)
  have "rr_transfer_id rq \<in> ids_of ex" using bspec [OF known mem] by simp
  with shim show "\<exists>sh ex. pl_shim st = Some sh \<and> pw_executor (sh_world sh) = Some ex \<and>
      map_of (ex_transfers ex) (rr_transfer_id rq) \<noteq> None"
    by (auto simp: ids_of_table map_of_eq_None_iff)
next
  fix p comm assume "pl_comms st p = Some comm"
  then show "gpu_ep (pc_local_gpu comm) = gpu_ep (pc_peer_rank comm)"
    using plugin_run_sound [OF assms(1)] assms(2) by (auto simp: plugin_sound_def comms_part_def)
qed

text \<open>A plugin that has been started, with a pair of communicators, on a wire whose byte 21 is set.\<close>

definition quiet_env :: "unit boot_env" where
  "quiet_env = \<lparr>be_rng = quiet_rng, be_seed = (), be_host = no_ib, be_machine = bare_machine,
     be_weights = (\<lambda>_. None), be_enc = (\<lambda>_. 0), be_dec = (\<lambda>_. 0), be_rounds = 2, be_cursor = 0\<rparr>"

definition booted :: "unit plugin" where
  "booted = (snd (nccl_plugin_bootstrap quiet_env None (plugin_fresh pair_wire)))\<lparr>pl_wire := pair_wire\<rparr>"

definition listening :: "unit plugin" where
  "listening = snd (snd (snd (plugin_listen 4096 0 None True booted)))"

lemma listening_run: "plugin_run quiet_env order 0 0 listening"
  unfolding listening_def booted_def by (intro plugin_listening plugin_host plugin_boot plugin_start)

lemma listening_comm: "pl_comms listening 4096 = Some (comm_fresh\<lparr>pc_is_send := False, pc_rail := 0\<rparr>)"
  by (simp add: listening_def plugin_listen_def)

theorem plugin_requests_known_witness:
  "\<exists>comm. pl_comms listening 4096 = Some comm \<and> gpu_ep (pc_local_gpu comm) = gpu_ep (pc_peer_rank comm)"
  using plugin_requests_known [OF listening_run [of "\<lambda>xs. xs"]] listening_comm by blast

text \<open>Calls on the plugin that listens: host memory, no registrations.\<close>

lemma host_memory [simp]: "buffer_is_cuda cuda_absent reg 0 data = Inr False"
  by (simp add: buffer_is_cuda_def is_device_pointer_def cuda_absent_def)

lemma listening_parts:
  "\<exists>sh. pl_shim listening = Some sh \<and> pw_executor (sh_world sh) = Some executor_fresh"
  "pl_requests listening = []" "pl_req_ids listening = 1" "pl_registry listening = registry_fresh"
  "pl_wire listening = pair_wire"
  by (simp_all add: listening_def booted_def plugin_listen_def nccl_plugin_bootstrap_def plugin_fresh_def
      init_world init_options_default_def case_prod_unfold Let_def)

lemma listening_sound:
  assumes "pl_shim listening = Some sh"
  shows "\<exists>es. shim_sound es 0 sh"
proof -
  have "plugin_sound quiet_rng 0 0 listening"
    using plugin_run_sound [OF listening_run [of "\<lambda>xs. xs"]] by (simp add: quiet_env_def)
  then obtain path where "shim_run quiet_rng (plugin_options path) 0 (sh, pair_wire)"
    using assms by (auto simp: plugin_sound_def shim_part_def listening_parts)
  from shim_run_sound [OF this plugin_fits] show ?thesis by auto
qed

definition send_entry :: "transfer_id \<Rightarrow> ptr \<Rightarrow> u64 \<Rightarrow> plugin_request" where
  "send_entry tid data nbytes = \<lparr>rr_transfer_id = tid, rr_size = nbytes, rr_done = False,
     rr_result_size = result_int nbytes, rr_mhandle = 0, rr_data = data, rr_peer_buf = 0, rr_is_cuda = False,
     rr_rail = 0\<rparr>"

lemma listening_send:
  "\<exists>sh tid sh' w'. pl_shim listening = Some sh \<and> pw_executor (sh_world sh) = Some executor_fresh \<and>
     submit_transfer still_clock 0 (classify_tag tag nbytes) (gpu_ep 0) (gpu_ep 0) nbytes
       (class_deadline (classify_tag tag nbytes)) data 0 (sh, pair_wire) = (tid, sh', w') \<and>
     plugin_isend still_clock 0 cuda_absent 4096 data nbytes tag 0 True listening =
       Some (NcclSuccess, Some 1, listening\<lparr>pl_shim := Some sh', pl_wire := w', pl_req_ids := 2,
         pl_requests := [(1, send_entry tid data nbytes)]\<rparr>)"
proof -
  obtain sh where sh: "pl_shim listening = Some sh" "pw_executor (sh_world sh) = Some executor_fresh"
    using listening_parts(1) by blast
  obtain tid sh' w' where run: "submit_transfer still_clock 0 (classify_tag tag nbytes) (gpu_ep 0) (gpu_ep 0) nbytes
       (class_deadline (classify_tag tag nbytes)) data 0 (sh, pair_wire) = (tid, sh', w')" by (rule prod_cases3)
  with sh show ?thesis
    by (cases w') (simp add: plugin_isend_def listening_parts(2-5) listening_comm comm_fresh_def send_in_bounds_def
        get_mr_def registry_fresh_def put_request_def send_entry_def Let_def)
qed

lemma irecv_runs:
  assumes "pl_shim st = Some sh" and "pl_comms st p = Some comm" and "p \<noteq> 0" and "1 \<le> n"
  shows "\<exists>rid st1. plugin_irecv order c junk cuda_absent p n ds szs tags None True st = Some (NcclSuccess, Some rid, st1) \<and>
    pl_comms st1 = pl_comms st \<and> pl_shim st1 \<noteq> None"
  using assms by (simp add: plugin_irecv_def put_request_def case_prod_unfold Let_def)

section \<open>Receiving\<close>

text \<open>A client that tests a request until it is done or its patience, the list of clocks, is over.\<close>

fun test_until :: "u64 \<Rightarrow> call_clock list \<Rightarrow> 'g plugin \<Rightarrow> (bool \<times> 'g plugin) option" where
  "test_until rid [] st = Some (False, st)"
| "test_until rid (c # cs) st =
     (case plugin_test c rid True False st of
        None \<Rightarrow> None
      | Some (r, d, s, st') \<Rightarrow> if d = Some True then Some (True, st') else test_until rid cs st')"

lemma test_until_ends:
  assumes "pl_shim st = Some sh" and "on_course m0 i tp0 (sh_world sh) (pl_wire st)"
    and "settled (transfer_status sh i)" and "request_of st rid = Some rq" and "rr_transfer_id rq = i" and "rid \<noteq> 0"
    and "work_left sh i < length cs"
  shows "\<exists>sh2 st2. test_until rid cs st = Some (True, st2) \<and> pl_shim st2 = Some sh2 \<and>
    on_course m0 i tp0 (sh_world sh2) (pl_wire st2) \<and> tp_state (transfer_status sh2 i) = Completed"
  using assms(1-4,7)
proof (induction cs arbitrary: st sh)
  case (Cons c cs)
  obtain n sh' w' where poll: "poll_transfers c 0.2 (sh, pl_wire st) = (n, sh', w')" by (rule prod_cases3)
  have dt: "1 / 10 ^ 5 \<le> (0.2 :: real)" "(0.2 :: real) \<le> 10 ^ 4" by simp_all
  note after = poll_course [OF Cons.prems(2,3) dt poll]
  let ?st = "st\<lparr>pl_shim := Some sh', pl_wire := w'\<rparr>"
  have over: "transfer_over (transfer_status sh' i) \<longleftrightarrow> tp_state (transfer_status sh' i) = Completed"
    using after(2) by (auto simp: transfer_over_def settled_def)
  have test: "plugin_test c rid True False st =
      (if tp_state (transfer_status sh' i) = Completed then Some (NcclSuccess, Some True, None, drop_request rid ?st)
       else Some (NcclSuccess, Some False, None, ?st))"
    using Cons.prems(1,4) assms(5,6) poll over by (simp add: plugin_test_def request_of_def)
  show ?case
  proof (cases "tp_state (transfer_status sh' i) = Completed")
    case True
    with test after(1) show ?thesis by (simp add: drop_request_def)
  next
    case False
    have "request_of ?st rid = Some rq" using Cons.prems(4) by (simp add: request_of_def)
    moreover have "work_left sh' i < length cs" using after(3) [OF False] Cons.prems(5) by simp
    ultimately have "\<exists>sh2 st2. test_until rid cs ?st = Some (True, st2) \<and> pl_shim st2 = Some sh2 \<and>
        on_course m0 i tp0 (sh_world sh2) (pl_wire st2) \<and> tp_state (transfer_status sh2 i) = Completed"
      using after(1,2) by (intro Cons.IH) simp_all
    with test False show ?thesis by simp
  qed
qed simp

lemma receive_ends:
  assumes "plugin_run env order k m st" and "\<forall>xs. set (order xs) = set xs" and "Suc k < 2 ^ 64"
    and "pl_shim st = Some sh" and "pw_executor (sh_world sh) = Some ex" and "ib_ready (fst (pl_wire st))"
    and "List.find (unpaired nbytes) (order (pl_requests st)) = Some (j, rq)"
    and "buffers_sound \<lparr>so_src_buf = rr_data rq, so_dst_buf = buf\<rparr> nbytes"
    and "buffers_free ex (rr_data rq) buf (unat nbytes)"
    and "plugin_irecv order c junk cu p n (Some buf) (Some nbytes) tags mhs b st = Some (NcclSuccess, Some rid, st1)"
  shows "\<exists>N. \<forall>cs. N \<le> length cs \<longrightarrow> (\<exists>st2. test_until rid cs st1 = Some (True, st2) \<and>
    (\<forall>x < unat nbytes. snd (pl_wire st2) (buf + of_nat x) = snd (pl_wire st) (rr_data rq + of_nat x)))"
proof -
  have sound: "plugin_sound (be_rng env) k m st"
    using plugin_run_sound [OF assms(1)] assms(2) by simp
  then obtain path where "shim_run (be_rng env) (plugin_options path) k (sh, pl_wire st)"
    using assms(4) by (auto simp: plugin_sound_def shim_part_def)
  from shim_run_sound [OF this plugin_fits] have shim: "shim_sound (cluster_edges (plugin_options path)) k sh" by simp
  have "rid \<noteq> 0" using irecv_id [OF sound assms(3) _ assms(10)] assms(2) by simp
  from assms(10) show ?thesis
  proof (rule irecv_parts)
    fix sh0 comm is_cuda src tbl tid sh' w' i
    assume parts: "pl_shim st = Some sh0"
      "pair_request order (null_or (Some nbytes)) (null_or (Some buf)) (pl_requests st) = (src, tbl)"
      and run: "submit_transfer c junk (classify_tag (null_or tags) (null_or (Some nbytes))) (gpu_ep (pc_peer_rank comm))
        (gpu_ep (pc_local_gpu comm)) (null_or (Some nbytes))
        (class_deadline (classify_tag (null_or tags) (null_or (Some nbytes)))) src (null_or (Some buf))
        (sh0, pl_wire st) = (tid, sh', w')"
      and rid: "Some rid = Some i"
      and put: "put_request \<lparr>rr_transfer_id = tid, rr_size = null_or (Some nbytes), rr_done = False,
          rr_result_size = result_int (null_or (Some nbytes)), rr_mhandle = null_or mhs, rr_data = null_or (Some buf),
          rr_peer_buf = src, rr_is_cuda = is_cuda, rr_rail = pc_rail comm\<rparr>
        (st\<lparr>pl_shim := Some sh', pl_wire := w', pl_requests := tbl\<rparr>) = (i, st1)"
    have src: "src = rr_data rq" using parts(2) assms(7) by (simp add: pair_request_def)
    have sh0: "sh0 = sh" using parts(1) assms(4) by simp
    from submit_course [OF shim assms(5,3,6,8,9) run [unfolded src sh0, simplified]] obtain tp0 where
      course: "on_course (snd (pl_wire st)) tid tp0 (sh_world sh') w'" and set1: "settled (transfer_status sh' tid)"
      and tp0: "tp_src_buf tp0 = rr_data rq" "tp_dst_buf tp0 = buf" "tp_bytes_total tp0 = nbytes" by blast
    have st1: "pl_shim st1 = Some sh'" "pl_wire st1 = w'" "\<exists>rq1. request_of st1 rid = Some rq1 \<and> rr_transfer_id rq1 = tid"
      using put rid by (auto simp: put_request_def request_of_def Let_def)
    then obtain rq1 where rq1: "request_of st1 rid = Some rq1" "rr_transfer_id rq1 = tid" by blast
    have "\<exists>st2. test_until rid cs st1 = Some (True, st2) \<and>
        (\<forall>x < unat nbytes. snd (pl_wire st2) (buf + of_nat x) = snd (pl_wire st) (rr_data rq + of_nat x))"
      if "Suc (work_left sh' tid) \<le> length cs" for cs
      using test_until_ends [OF st1(1) course [folded st1(2)] set1 rq1 \<open>rid \<noteq> 0\<close>, of cs] that
        course_delivers [of "snd (pl_wire st)" tid tp0] tp0 by fastforce
    then show ?thesis by blast
  qed
qed

text \<open>
  C9. A receive paired with a send ends.  When an unpaired request of the size of the receive has data, the
  receive takes the first one in the order of the table; tested often enough it is reported done, and
  then its buffer holds, byte by byte, what the data of that request was when the receive was posted,
  provided the transport is ready and no transfer of the table may write to either buffer.
\<close>
theorem receive_delivers:
  assumes "plugin_run env order k m st" and "\<forall>xs. set (order xs) = set xs" and "Suc k < 2 ^ 64"
    and "pl_shim st = Some sh" and "pw_executor (sh_world sh) = Some ex" and "ib_ready (fst (pl_wire st))"
    and "List.find (unpaired nbytes) (order (pl_requests st)) = Some (j, rq)"
    and "buffers_sound \<lparr>so_src_buf = rr_data rq, so_dst_buf = buf\<rparr> nbytes"
    and "buffers_free ex (rr_data rq) buf (unat nbytes)"
    and "plugin_irecv order c junk cu p n (Some buf) (Some nbytes) tags mhs b st = Some (NcclSuccess, Some rid, st1)"
  shows "\<exists>N. \<forall>cs. N \<le> length cs \<longrightarrow> (\<exists>st2. test_until rid cs st1 = Some (True, st2) \<and>
    (\<forall>x < unat nbytes. snd (pl_wire st2) (buf + of_nat x) = snd (pl_wire st) (rr_data rq + of_nat x)))"
  using assms by (rule receive_ends)

theorem receive_delivers_witness:
  "\<exists>st rid st1 cs st2. plugin_run quiet_env (\<lambda>xs. xs) 1 0 st \<and>
     plugin_irecv (\<lambda>xs. xs) still_clock 0 cuda_absent 4096 1 (Some 64) (Some 8) None None True st =
       Some (NcclSuccess, Some rid, st1) \<and>
     test_until rid cs st1 = Some (True, st2) \<and> snd (pl_wire st2) 69 = 9"
proof -
  obtain sh tid sh' w' where sh: "pl_shim listening = Some sh" "pw_executor (sh_world sh) = Some executor_fresh" and
    run: "submit_transfer still_clock 0 (classify_tag 1000 8) (gpu_ep 0) (gpu_ep 0) 8
      (class_deadline (classify_tag 1000 8)) 16 0 (sh, pair_wire) = (tid, sh', w')" and
    send: "plugin_isend still_clock 0 cuda_absent 4096 16 8 1000 0 True listening =
       Some (NcclSuccess, Some 1, listening\<lparr>pl_shim := Some sh', pl_wire := w', pl_req_ids := 2,
         pl_requests := [(1, send_entry tid 16 8)]\<rparr>)" (is "_ = Some (_, _, ?sent)")
    using listening_send [of 1000 8 16] by blast
  define st where "st = ?sent\<lparr>pl_wire := pair_wire\<rparr>"
  have st_run: "plugin_run quiet_env (\<lambda>xs. xs) 1 0 st"
    unfolding st_def One_nat_def by (rule plugin_host) (rule plugin_sent [OF listening_run _ send], simp)
  obtain es where "shim_sound es 0 sh" using listening_sound [OF sh(1)] by blast
  from submit_table [OF this sh(2) run] obtain ex where ex: "pw_executor (sh_world sh') = Some ex"
    and adds: "adds_transfer 16 0 executor_fresh ex" by blast
  have free: "buffers_free ex (rr_data (send_entry tid 16 8)) 64 (unat (8 :: u64))"
    using adds by (fastforce simp: adds_transfer_def buffers_free_def footprint_def executor_fresh_def)
  have bufs: "buffers_sound \<lparr>so_src_buf = rr_data (send_entry tid 16 8), so_dst_buf = 64\<rparr> 8"
    using copy_ok(3) by (simp add: copy_buffers_def copy_request_def send_entry_def)
  have st: "pl_shim st = Some sh'" "pl_comms st 4096 = Some (comm_fresh\<lparr>pc_is_send := False, pc_rail := 0\<rparr>)"
    "pl_wire st = pair_wire" "List.find (unpaired 8) (pl_requests st) = Some (1, send_entry tid 16 8)"
    using listening_comm by (simp_all add: st_def unpaired_def send_entry_def)
  obtain rid st1 where recv: "plugin_irecv (\<lambda>xs. xs) still_clock 0 cuda_absent 4096 1 (Some 64) (Some 8) None None True st =
      Some (NcclSuccess, Some rid, st1)"
    using irecv_runs [OF st(1,2)] by fastforce
  have ready: "ib_ready (fst (pl_wire st))" by (simp add: st(3) pair_shim_simps)
  from receive_delivers [OF st_run _ _ st(1) ex ready st(4) bufs free recv] obtain N where
    N: "\<forall>cs. N \<le> length cs \<longrightarrow> (\<exists>st2. test_until rid cs st1 = Some (True, st2) \<and>
      (\<forall>x < unat (8 :: u64). snd (pl_wire st2) (64 + of_nat x) = snd (pl_wire st) (rr_data (send_entry tid 16 8) + of_nat x)))"
    by auto
  from mp [OF spec [OF N], of "replicate N still_clock"] obtain st2 where
    done_st: "test_until rid (replicate N still_clock) st1 = Some (True, st2)" and
    bytes: "\<forall>x < unat (8 :: u64). snd (pl_wire st2) (64 + of_nat x) = snd pair_wire (16 + of_nat x)"
    by (auto simp: st(3) send_entry_def)
  have "snd (pl_wire st2) 69 = 9" using bytes [rule_format, of 5] by (simp add: pair_wire_def)
  with st_run recv done_st show ?thesis by blast
qed

text \<open>
  C36. A receive can be paired with a receive: posted while no request of its size is unpaired, a receive
  becomes itself unpaired, and the next receive of that size takes its buffer, which nothing has filled,
  as the data to copy.  Whatever the host does between the two calls, if the transport is ready and no
  transfer of the table may write to either buffer when the second receive is posted, then tested often
  enough it is reported done, and its buffer holds what the first receive's buffer held.
\<close>
theorem receive_pairs_with_receive:
  assumes "plugin_run env order k m st" and "\<forall>xs. set (order xs) = set xs" and "Suc (Suc k) < 2 ^ 64"
    and "List.find (unpaired nbytes) (order (pl_requests st)) = None" and "buf1 \<noteq> 0"
    and "plugin_irecv order c junk cu p n (Some buf1) (Some nbytes) tags mhs b st = Some (NcclSuccess, Some r1, st1)"
    and "pl_shim st1 = Some sh1" and "pw_executor (sh_world sh1) = Some ex1" and "ib_ready (fst wire)"
    and "buffers_sound \<lparr>so_src_buf = buf1, so_dst_buf = buf2\<rparr> nbytes" and "buffers_free ex1 buf1 buf2 (unat nbytes)"
    and "plugin_irecv order c' junk' cu p' n' (Some buf2) (Some nbytes) tags' mhs' b' (st1\<lparr>pl_wire := wire\<rparr>) =
      Some (NcclSuccess, Some r2, st2)"
  shows "(\<exists>rq. request_of st2 r2 = Some rq \<and> rr_data rq = buf2 \<and> rr_peer_buf rq = buf1) \<and>
    (\<exists>N. \<forall>cs. N \<le> length cs \<longrightarrow> (\<exists>st3. test_until r2 cs st2 = Some (True, st3) \<and>
      (\<forall>x < unat nbytes. snd (pl_wire st3) (buf2 + of_nat x) = snd wire (buf1 + of_nat x))))"
proof -
  obtain rq1 where rq1: "pl_requests st1 = AList.update r1 rq1 (pl_requests st)" and un: "unpaired nbytes (r1, rq1)"
    and data1: "rr_data rq1 = buf1"
    using assms(4,5) by (rule_tac irecv_parts [OF assms(6)])
      (auto simp: pair_request_def put_request_def unpaired_def Let_def)
  have mem: "(r1, rq1) \<in> set (order (pl_requests st1))"
    using assms(2) by (simp add: rq1 map_of_SomeD)
  have only: "y = (r1, rq1)" if "y \<in> set (order (pl_requests st1))" "unpaired nbytes y" for y
  proof -
    have "y \<in> insert (r1, rq1) (set (pl_requests st))"
      using that(1) assms(2) set_update_subset [of r1 rq1 "pl_requests st"] by (auto simp: rq1)
    then show ?thesis using that(2) assms(2,4) by (cases y) (auto simp: find_None_iff)
  qed
  have first: "List.find (unpaired nbytes) (order (pl_requests st1)) = Some (r1, rq1)"
    by (rule find_unique [where P = "unpaired nbytes" and x = "(r1, rq1)", OF mem un only])
  then have "\<exists>tbl. pair_request order nbytes buf2 (pl_requests st1) = (buf1, tbl)"
    by (simp add: pair_request_def data1)
  then have entry: "\<exists>rq. request_of st2 r2 = Some rq \<and> rr_data rq = buf2 \<and> rr_peer_buf rq = buf1"
    by (rule_tac irecv_parts [OF assms(12)]) (auto simp: put_request_def request_of_def Let_def)
  have "Suc k < 2 ^ 64" using assms(3) by simp
  from plugin_host [OF plugin_received [OF assms(1) this assms(6)]]
  have run: "plugin_run env order (Suc k) m (st1\<lparr>pl_wire := wire\<rparr>)" .
  from receive_ends [OF run assms(2,3) _ assms(8) _ _ _ _ assms(12), of r1 rq1] assms(7,9,10,11) first entry show ?thesis
    by (simp add: data1)
qed

theorem receive_pairs_with_receive_witness:
  "\<exists>r1 st1 r2 st2 rq cs st3.
     plugin_irecv (\<lambda>xs. xs) still_clock 0 cuda_absent 4096 1 (Some 16) (Some 8) None None True listening =
       Some (NcclSuccess, Some r1, st1) \<and>
     plugin_irecv (\<lambda>xs. xs) still_clock 0 cuda_absent 4096 1 (Some 64) (Some 8) None None True
       (st1\<lparr>pl_wire := pair_wire\<rparr>) = Some (NcclSuccess, Some r2, st2) \<and>
     request_of st2 r2 = Some rq \<and> rr_data rq = 64 \<and> rr_peer_buf rq = 16 \<and>
     test_until r2 cs st2 = Some (True, st3) \<and> snd (pl_wire st3) 69 = 9"
proof -
  obtain sh where sh: "pl_shim listening = Some sh" "pw_executor (sh_world sh) = Some executor_fresh"
    using listening_parts(1) by blast
  obtain r1 st1 where r1: "plugin_irecv (\<lambda>xs. xs) still_clock 0 cuda_absent 4096 1 (Some 16) (Some 8) None None True
      listening = Some (NcclSuccess, Some r1, st1)" and st1: "pl_comms st1 = pl_comms listening"
    using irecv_runs [OF sh(1) listening_comm] by fastforce
  have "\<exists>sh1 ex1. pl_shim st1 = Some sh1 \<and> pw_executor (sh_world sh1) = Some ex1 \<and> adds_transfer 0 16 executor_fresh ex1"
  proof (rule irecv_parts [OF r1])
    fix sh0 comm is_cuda src tbl tid sh' w' i
    assume "pl_shim listening = Some sh0"
      "pair_request (\<lambda>xs. xs) (null_or (Some 8)) (null_or (Some 16)) (pl_requests listening) = (src, tbl)"
      and run: "submit_transfer still_clock 0 (classify_tag (null_or None) (null_or (Some 8))) (gpu_ep (pc_peer_rank comm))
        (gpu_ep (pc_local_gpu comm)) (null_or (Some 8)) (class_deadline (classify_tag (null_or None) (null_or (Some 8))))
        src (null_or (Some 16)) (sh0, pl_wire listening) = (tid, sh', w')"
      and put: "put_request \<lparr>rr_transfer_id = tid, rr_size = null_or (Some 8), rr_done = False,
          rr_result_size = result_int (null_or (Some 8)), rr_mhandle = null_or None, rr_data = null_or (Some 16),
          rr_peer_buf = src, rr_is_cuda = is_cuda, rr_rail = pc_rail comm\<rparr>
        (listening\<lparr>pl_shim := Some sh', pl_wire := w', pl_requests := tbl\<rparr>) = (i, st1)"
    then have "sh0 = sh" "src = 0" using sh(1) by (simp_all add: pair_request_def listening_parts(2))
    moreover obtain es where "shim_sound es 0 sh" using listening_sound [OF sh(1)] by blast
    ultimately have "\<exists>ex1. pw_executor (sh_world sh') = Some ex1 \<and> adds_transfer 0 16 executor_fresh ex1"
      using submit_table [OF _ sh(2)] run by (simp add: listening_parts(5)) blast
    moreover have "pl_shim st1 = Some sh'" using put by (auto simp: put_request_def Let_def)
    ultimately show ?thesis by simp
  qed
  then obtain sh1 ex1 where sh1: "pl_shim st1 = Some sh1" "pw_executor (sh_world sh1) = Some ex1"
    and adds: "adds_transfer 0 16 executor_fresh ex1" by blast
  have free: "buffers_free ex1 16 64 (unat (8 :: u64))"
    using adds by (fastforce simp: adds_transfer_def buffers_free_def footprint_def executor_fresh_def)
  have bufs: "buffers_sound \<lparr>so_src_buf = 16, so_dst_buf = 64\<rparr> 8"
    using copy_ok(3) by (simp add: copy_buffers_def copy_request_def)
  have ready: "ib_ready (fst pair_wire)" by (simp add: pair_shim_simps)
  let ?st = "st1\<lparr>pl_wire := pair_wire\<rparr>"
  obtain r2 st2 where r2: "plugin_irecv (\<lambda>xs. xs) still_clock 0 cuda_absent 4096 1 (Some 64) (Some 8) None None True ?st =
      Some (NcclSuccess, Some r2, st2)"
    using irecv_runs [of ?st sh1 4096] sh1(1) st1 listening_comm by fastforce
  have "List.find (unpaired 8) (pl_requests listening) = None" by (simp add: listening_parts)
  from receive_pairs_with_receive [OF listening_run _ _ this _ r1 sh1 ready bufs free r2]
  obtain rq N where rq: "request_of st2 r2 = Some rq" "rr_data rq = 64" "rr_peer_buf rq = 16" and
    N: "\<forall>cs. N \<le> length cs \<longrightarrow> (\<exists>st3. test_until r2 cs st2 = Some (True, st3) \<and>
      (\<forall>x < unat (8 :: u64). snd (pl_wire st3) (64 + of_nat x) = snd pair_wire (16 + of_nat x)))" by auto
  from mp [OF spec [OF N], of "replicate N still_clock"] obtain st3 where
    tests: "test_until r2 (replicate N still_clock) st2 = Some (True, st3)" and
    bytes: "\<forall>x < unat (8 :: u64). snd (pl_wire st3) (64 + of_nat x) = snd pair_wire (16 + of_nat x)" by auto
  have "snd (pl_wire st3) 69 = 9" using bytes [rule_format, of 5] by (simp add: pair_wire_def)
  with r1 r2 rq tests show ?thesis by blast
qed

end
