(* ===== verification/Reroutes.thy ===== *)
theory Reroutes
  imports Shim_Props
begin

text \<open>
  When a suspended transfer can be put on another path: the candidates of a request are the same as long
  as the graph is, a request whose chosen path was not empty has candidates that are not empty, and on
  the edges of a cluster their costs never reach the largest double, which stands for no path.
\<close>

section \<open>The candidates of a request\<close>

definition candidates_of :: "topology_graph \<Rightarrow> transfer_request \<Rightarrow> edge_path list" where
  "candidates_of g rq =
     fst (flexibility_set g (vertex_of g (rq_source rq)) (vertex_of g (rq_dest rq)) (traffic rq))"

definition reroutable :: "topology_graph \<Rightarrow> transfer_request \<Rightarrow> bool" where
  "reroutable g rq \<longleftrightarrow> (\<exists>p \<in> set (candidates_of g rq). p \<noteq> [])"

lemma candidates_same:
  "same_graph g g' \<Longrightarrow> graph_ok g \<Longrightarrow> candidates_of g' rq = candidates_of g rq"
  by (cases "traffic rq = KVMigration")
    (simp_all add: candidates_of_def flexibility_set_def same_graph_def graph_ok_def paths_result vertex_of_def
      case_prod_unfold Let_def)

lemma reroutable_same: "same_graph g g' \<Longrightarrow> graph_ok g \<Longrightarrow> reroutable g' rq = reroutable g rq"
  by (simp add: reroutable_def candidates_same)

lemma yen_self: "set (yen_k_shortest es v v k h) \<subseteq> {[]}"
  by (simp add: yen_k_shortest_def yen_search.simps pq_pop_def Let_def)

lemma candidates_yen:
  "graph_ok g \<Longrightarrow> set (candidates_of g rq) \<subseteq> set (yen_k_shortest (edges g) (vertex_of g (rq_source rq))
     (vertex_of g (rq_dest rq)) (default_k g) (default_max_hops g))"
  by (auto simp: candidates_of_def flexibility_set_def graph_ok_def paths_result case_prod_unfold Let_def)

lemma candidates_admissible:
  assumes "graph_ok g" and "p \<in> set (candidates_of g rq)"
  shows "admissible (edges g) (unat (default_max_hops g)) (vertex_of g (rq_source rq)) (vertex_of g (rq_dest rq)) p"
  using candidates_yen [OF assms(1), of rq] assms yen_admissible by (auto simp: graph_ok_def)

lemma reroutable_candidates:
  assumes "graph_ok g" and "reroutable g rq"
  shows "candidates_of g rq \<noteq> [] \<and> [] \<notin> set (candidates_of g rq)"
proof -
  obtain p where p: "p \<in> set (candidates_of g rq)" "p \<noteq> []"
    using assms(2) by (auto simp: reroutable_def)
  have "vertex_of g (rq_source rq) \<noteq> vertex_of g (rq_dest rq)"
    using candidates_yen [OF assms(1), of rq] yen_self p by fastforce
  then have "[] \<notin> set (candidates_of g rq)"
    using candidates_admissible [OF assms(1), of "[]" rq] by (auto simp: partial_path_def)
  with p show ?thesis by auto
qed

section \<open>Costs stay below the largest double\<close>

definition plain_edges :: "graph_edge list \<Rightarrow> bool" where
  "plain_edges es \<longleftrightarrow> (\<forall>e \<in> set es. \<exists>f r. attrs e = default_fabric_attrs f r)"

lemma plain_costs_ok: "plain_edges es \<Longrightarrow> costs_ok es"
  by (force simp: plain_edges_def costs_ok_def)

lemma cluster_plain: "plain_edges (edges (build_cluster N G))"
proof -
  define P where "P c \<longleftrightarrow> (\<exists>f r. snd (snd c) = default_fabric_attrs f r)" for c :: "u32 \<times> u32 \<times> edge_attributes"
  have P: "P (a, b, default_fabric_attrs f r)" for a b f r by (auto simp: P_def)
  have "\<exists>f r. snd (snd c) = default_fabric_attrs f r" if "c \<in> set (node_links n)" for c n
    using that unfolding P_def [symmetric]
    by (auto simp: node_links_def nvlink_mesh_def gpu_links_def cpu_links_def Let_def P)
  moreover have "\<exists>f r. snd (snd c) = default_fabric_attrs f r" if "c \<in> set (rail_links a b ij)" for c a b ij
    using that unfolding P_def [symmetric] by (auto simp: rail_links_def Let_def P split: prod.splits)
  ultimately show ?thesis
    unfolding plain_edges_def build_cluster_edges by auto
qed

lemma default_latency_bound: "edge_latency_us (default_fabric_attrs f r) sz u \<le> 10 ^ 25"
proof -
  define x where "x = 1 - clamp u 0 0.99"
  define a where "a = default_fabric_attrs f r"
  have x: "1 / 100 \<le> x" "x \<le> 1" using residual_bounds [of u] by (simp_all add: x_def)
  have "0 \<le> contention_alpha a \<and> contention_alpha a \<le> 3 \<and> 50 \<le> bandwidth_gbps a \<and> latency_us a \<le> 5"
    unfolding a_def by (cases f) (simp_all add: default_fabric_attrs.simps)
  then have al: "0 \<le> contention_alpha a" "contention_alpha a \<le> 3" and bw: "50 \<le> bandwidth_gbps a"
    and lat: "latency_us a \<le> 5" by simp_all
  have "(1 / 100) ^ 3 \<le> x ^ 3" using x by (intro power_mono) simp_all
  also have "x ^ 3 = x powr 3" using x by (simp add: powr_numeral)
  also have "\<dots> \<le> x powr contention_alpha a"
    using x al by (intro powr_mono') simp_all
  finally have res: "1 / 10 ^ 6 \<le> x powr contention_alpha a" by (simp add: power3_eq_cube)
  have "50 * (1 / 10 ^ 6) \<le> bandwidth_gbps a * x powr contention_alpha a"
    using bw res by (intro mult_mono) simp_all
  then have den: "5 / 10 ^ 5 \<le> bandwidth_gbps a * x powr contention_alpha a" by simp
  have "unat sz \<le> 2 ^ 64" using unat_u64_less [of sz] by simp
  then have "real (unat sz) \<le> real (2 ^ 64)" by (rule of_nat_mono)
  then have num: "real (unat sz) / 10 ^ 9 \<le> 10 ^ 11" by (simp add: field_simps)
  have "real (unat sz) / 10 ^ 9 / (bandwidth_gbps a * x powr contention_alpha a) \<le> 10 ^ 11 / (5 / 10 ^ 5)"
    using num den by (intro frac_le) simp_all
  then have "real (unat sz) / 10 ^ 9 / (bandwidth_gbps a * x powr contention_alpha a) * 10 ^ 6 \<le> 10 ^ 24" by simp
  with lat have "edge_latency_us a sz u \<le> 5 + 10 ^ 24"
    by (simp add: edge_latency_us_def x_def Let_def)
  then show ?thesis by (simp add: a_def)
qed

lemma plain_path_cost:
  assumes "plain_edges es" and "\<forall>e \<in> set p. unat e < length es"
  shows "0 \<le> path_cost_of (effective_util lm) es utils p n dur"
    and "path_cost_of (effective_util lm) es utils p n dur \<le> real (length p) * 10 ^ 25"
proof -
  have at: "\<exists>f r. attrs (es ! unat e) = default_fabric_attrs f r" if "e \<in> set p" for e
    using assms that by (auto simp: plain_edges_def)
  have "attrs_ok (attrs (es ! unat e))" if "e \<in> set p" for e
    using at [OF that] by auto
  then show "0 \<le> path_cost_of (effective_util lm) es utils p n dur"
    by (intro blend.path_cost_nonneg) simp
  have "path_cost_of (effective_util lm) es utils p n dur \<le> (\<Sum>e \<leftarrow> p. 10 ^ 25)"
    unfolding path_cost_of_def by (rule sum_list_mono) (use at default_latency_bound in \<open>metis (no_types)\<close>)
  then show "path_cost_of (effective_util lm) es utils p n dur \<le> real (length p) * 10 ^ 25"
    by (simp add: sum_list_triv)
qed

lemma mean_util_le: "\<forall>u \<in> set utils. u \<le> 1 \<Longrightarrow> path_mean_util p utils \<le> 1"
proof -
  assume le: "\<forall>u \<in> set utils. u \<le> 1"
  define us where "us = map (\<lambda>e. utils ! unat e) (filter (\<lambda>e. unat e < length utils) p)"
  have sum: "sum_list vs \<le> real (length vs)" if "\<forall>v \<in> set vs. v \<le> 1" for vs :: "real list"
    using that by (induction vs) auto
  have "sum_list us \<le> real (length us)" using le by (intro sum) (auto simp: us_def)
  then have "us \<noteq> [] \<Longrightarrow> sum_list us / real (length us) \<le> 1" by (simp add: divide_le_eq)
  then show ?thesis by (simp add: path_mean_util_def us_def [symmetric] Let_def)
qed

lemma heat_le: "\<forall>u \<in> set utils. u \<le> 1 \<Longrightarrow> \<forall>u \<in> set (heat d p utils). u \<le> 1"
  unfolding heat_def
proof (induction p arbitrary: utils)
  case (Cons e p)
  have "\<forall>u \<in> set (if unat e < length utils then utils[unat e := min 0.99 (utils ! unat e + d)] else utils). u \<le> 1"
    using Cons.prems by (auto dest!: in_set_conv_nth [THEN iffD1] simp: nth_list_update split: if_splits)
  from Cons.IH [OF this] show ?case by simp
qed simp

lemma reroute_cost_finite:
  assumes "plain_edges es" and "\<forall>e \<in> set p. unat e < length es" and "length p < 2 ^ 32"
    and "\<forall>u \<in> set utils. u \<le> 1"
  shows "reroute_cost lm es utils avoid remain p < DBL_MAX"
proof -
  define c0 where "c0 = path_cost_of (effective_util lm) es utils p remain (est_dur_ms remain)"
  define c2 where "c2 = reroute_cost lm es utils avoid remain p / (0.75 + 0.5 * path_mean_util p utils)"
  have c0: "0 \<le> c0" "c0 \<le> 2 ^ 32 * 10 ^ 25"
    using plain_path_cost [OF assms(1,2), of lm utils remain "est_dur_ms remain"] assms(3)
      mult_right_mono [of "real (length p)" "2 ^ 32" "10 ^ 25"] by (simp_all add: c0_def)
  have "\<exists>k. 0 \<le> k \<and> k \<le> 1 \<and> reroute_cost lm es utils avoid remain p =
      c0 * k * (0.75 + 0.5 * path_mean_util p utils)"
    by (auto simp: reroute_cost_def c0_def [symmetric] Let_def intro: exI [of _ 1] exI [of _ "0.5"] exI [of _ "0.6"]
        exI [of _ "0.3"])
  then obtain k where k: "0 \<le> k" "k \<le> 1" and
    eq: "reroute_cost lm es utils avoid remain p = c0 * k * (0.75 + 0.5 * path_mean_util p utils)" by blast
  have "c0 * k \<le> c0" using c0(1) k mult_left_le [of k c0] by simp
  have "c0 * k * (0.75 + 0.5 * path_mean_util p utils) \<le> c0 * k * 2"
    using mean_util_le [OF assms(4), of p] c0(1) k(1) by (intro mult_left_mono) simp_all
  also have "\<dots> \<le> 2 ^ 32 * 10 ^ 25 * 2" using \<open>c0 * k \<le> c0\<close> c0(2) by simp
  also have "\<dots> < 2 ^ 1023" by simp
  also have "\<dots> \<le> DBL_MAX" by (rule DBL_MAX_ge_pow)
  finally show ?thesis by (simp add: eq)
qed

section \<open>A paused transfer is rerouted\<close>

lemma cheapest_finite:
  assumes "cs \<noteq> []" and "\<forall>p \<in> set cs. cost p < DBL_MAX"
  shows "edge_indices (cheapest cost cs no_path) \<in> set cs"
proof -
  obtain p where p: "p \<in> set cs" using assms(1) by (cases cs) auto
  have "pc_latency_us (cheapest cost cs no_path) < DBL_MAX"
    using cheapest_least [OF p, of cost no_path] assms(2) p by fastforce
  then show ?thesis using cheapest_origin [of cost cs no_path] by (auto simp: no_path_def)
qed

lemma drain_one_reroutes:
  assumes ok: "graph_ok (pw_graph w)" and plain: "plain_edges (edges (pw_graph w))"
    and utils: "\<forall>u \<in> set cur. u \<le> 1" and ex: "pw_executor w = Some ex"
    and tp: "map_of (ex_transfers ex) (pr_id pr) = Some tp" and paused: "tp_state tp = Paused"
    and left: "tp_bytes_remaining tp \<noteq> 0" and route: "reroutable (pw_graph w) (tp_request tp)"
    and run: "drain_one lm g cur pr w = (fin, w')"
  shows "fin \<and> (\<exists>ex' path. pw_executor w' = Some ex' \<and> edge_indices path \<in> set (candidates_of (pw_graph w) (tp_request tp)) \<and>
    map_of (ex_transfers ex') (pr_id pr) = Some (reroute_transfer g path tp))"
proof -
  let ?g = "pw_graph w" and ?u = "heat 0.5 (pr_avoid_edges pr) cur"
  define cs where "cs = candidates_of ?g (tp_request tp)"
  define best where "best = cheapest (reroute_cost lm (edges ?g) ?u (pr_avoid_edges pr) (tp_bytes_remaining tp)) cs no_path"
  have cs: "cs \<noteq> []" "[] \<notin> set cs" using reroutable_candidates [OF ok route] by (simp_all add: cs_def)
  have "reroute_cost lm (edges ?g) ?u (pr_avoid_edges pr) (tp_bytes_remaining tp) p < DBL_MAX" if "p \<in> set cs" for p
  proof (rule reroute_cost_finite [OF plain])
    have adm: "admissible (edges ?g) (unat (default_max_hops ?g)) (vertex_of ?g (rq_source (tp_request tp)))
        (vertex_of ?g (rq_dest (tp_request tp))) p"
      using candidates_admissible [OF ok] that by (simp add: cs_def)
    then show "\<forall>e \<in> set p. unat e < length (edges ?g)" using walk_indices by (auto simp: partial_path_def)
    have "unat (default_max_hops ?g) < 2 ^ 32" using unsigned_less [of "default_max_hops ?g"] by simp
    with adm show "length p < 2 ^ 32" by (simp add: partial_path_def)
    show "\<forall>u \<in> set ?u. u \<le> 1" using utils by (rule heat_le)
  qed
  then have best: "edge_indices best \<in> set cs" unfolding best_def by (intro cheapest_finite cs(1)) blast
  then have "edge_indices best \<noteq> []" using cs(2) by metis
  then have res: "fin \<and> pw_executor w' = Some (snd (reroute g (pr_id pr) best ex))"
    using run ex tp paused left
    by (auto simp: drain_one_def get_transfer_def reroute_def best_def cs_def candidates_of_def case_prod_unfold Let_def
        split: if_splits)
  have "map_of (ex_transfers (snd (reroute g (pr_id pr) best ex))) (pr_id pr) = Some (reroute_transfer g best tp)"
    using tp paused by (simp add: reroute_def)
  with res best show ?thesis by (auto simp: cs_def)
qed

end
