(* ===== verification/Shim_Live.thy ===== *)
theory Shim_Live
  imports Reroutes Ucx_Props
begin

text \<open>
  No transfer of the shim is left behind: a transfer that makes way for another one waits for a reroute,
  the poll that pauses it puts it on another path, and polls bring every transfer to completion.
\<close>

section \<open>Transfers under way\<close>

text \<open>How many pending reroutes are about a transfer.\<close>

definition waits_in :: "transfer_id \<Rightarrow> pending_reroute list \<Rightarrow> nat" where
  "waits_in i prs = length (filter (\<lambda>pr. pr_id pr = i) prs)"

abbreviation waits :: "transfer_id \<Rightarrow> path_world \<Rightarrow> nat" where
  "waits i w \<equiv> waits_in i (en_pending (pw_engine w))"

lemma waits_in_simps [simp]:
  "waits_in i [] = 0" "waits_in i (pr # prs) = (if pr_id pr = i then 1 else 0) + waits_in i prs"
  "waits_in i (prs @ qs) = waits_in i prs + waits_in i qs"
  by (simp_all add: waits_in_def)

lemma waits_in_pos: "0 < waits_in i prs \<longleftrightarrow> i \<in> pr_id ` set prs"
  by (auto simp: waits_in_def filter_empty_conv)

definition on_edges :: "transfer_progress \<Rightarrow> bool" where
  "on_edges tp \<longleftrightarrow> tp_path_edges tp \<noteq> [] \<or> (\<exists>ch \<in> set (tp_chunks tp). ch_edges ch \<noteq> [])"

text \<open>
  A transfer that uses edges has a path that is not empty to take, and one that is being suspended, or
  is suspended, also waits for a reroute.
\<close>

definition routed :: "topology_graph \<Rightarrow> nat \<Rightarrow> transfer_progress \<Rightarrow> bool" where
  "routed g n tp \<longleftrightarrow> (on_edges tp \<longrightarrow> reroutable g (tp_request tp)) \<and>
     tp_state tp \<in> {InFlight, SuspendPending, Paused, Completed} \<and>
     (tp_state tp \<in> {SuspendPending, Paused} \<longrightarrow> 0 < n \<and> reroutable g (tp_request tp)) \<and>
     (tp_state tp = Paused \<longrightarrow> tp_bytes_remaining tp \<noteq> 0)"

definition under_way :: "topology_graph \<Rightarrow> nat \<Rightarrow> transfer_progress \<Rightarrow> bool" where
  "under_way g n tp \<longleftrightarrow> routed g n tp \<and> tp_state tp \<noteq> Paused"

definition table_under_way :: "topology_graph \<Rightarrow> pending_reroute list \<Rightarrow> executor \<Rightarrow> bool" where
  "table_under_way g prs ex \<longleftrightarrow>
     (\<forall>i tp. map_of (ex_transfers ex) i = Some tp \<longrightarrow> under_way g (waits_in i prs) tp)"

definition all_under_way :: "path_world \<Rightarrow> bool" where
  "all_under_way w \<longleftrightarrow> (\<forall>ex. pw_executor w = Some ex \<longrightarrow>
     table_under_way (pw_graph w) (en_pending (pw_engine w)) ex)"

lemma routed_same: "same_graph g g' \<Longrightarrow> graph_ok g \<Longrightarrow> routed g' n tp = routed g n tp"
  by (simp add: routed_def reroutable_same)

lemma under_way_same: "same_graph g g' \<Longrightarrow> graph_ok g \<Longrightarrow> under_way g' n tp = under_way g n tp"
  by (simp add: under_way_def routed_same)

lemma under_way_more: "under_way g n tp \<Longrightarrow> n \<le> m \<Longrightarrow> under_way g m tp"
  by (auto simp: under_way_def routed_def)

section \<open>A tick\<close>

lemma concluded_on_edges: "on_edges (concluded now tp) = on_edges tp"
  by (simp add: concluded_def refresh_aggregate_def on_edges_def Let_def)

lemma promote_edges: "map ch_edges (promote busy chs) = map ch_edges chs"
  by (induction busy chs rule: promote.induct) (simp_all add: Let_def)

lemma settle_edges: "map ch_edges (settle_chunks tp) = map ch_edges (tp_chunks tp)"
  by (simp add: settle_chunks_def promote_edges park_chunk_def)

lemma on_edges_map: "on_edges tp \<longleftrightarrow> tp_path_edges tp \<noteq> [] \<or> (\<exists>p \<in> set (map ch_edges (tp_chunks tp)). p \<noteq> [])"
  by (simp add: on_edges_def)

lemma ticked_on_edges [simp]: "on_edges (ticked g dt utils now tp) = on_edges tp"
proof (cases "is_active tp")
  case True
  let ?tp = "tp\<lparr>tp_chunks := map (advanced g dt utils) (settle_chunks tp)\<rparr>"
  have "map ch_edges (tp_chunks ?tp) = map ch_edges (settle_chunks tp)" by simp
  then have "on_edges ?tp = on_edges tp"
    unfolding on_edges_map by (simp only: settle_edges) simp
  then show ?thesis using True by (simp add: ticked_def concluded_on_edges)
qed (simp add: ticked_def)

lemma ticked_paused:
  "tp_state tp \<noteq> Paused \<Longrightarrow> tp_state (ticked g dt utils now tp) = Paused \<Longrightarrow>
   tp_bytes_remaining (ticked g dt utils now tp) \<noteq> 0"
  by (auto simp: ticked_def concluded_def Let_def split: if_splits)

lemma ticked_routed:
  assumes "tp_inv tp" and "under_way g n tp"
  shows "routed g n (ticked es dt utils now tp)"
  using ticked_settles [OF assms(1), of es dt utils now] ticked_paused [of tp es dt utils now] assms(2)
  by (auto simp: under_way_def routed_def settles_def)

text \<open>A tick leaves no more work than there was, less if the transfer is still active afterwards.\<close>

lemma ticked_work_le:
  assumes "tp_inv tp" and "is_active tp" and dt: "long_enough q dt"
    and "tp_state (ticked g dt utils now tp) \<noteq> Completed"
  shows "work q (tp_chunks (ticked g dt utils now tp)) \<le> work q (tp_chunks tp)"
proof -
  let ?tp = "tp\<lparr>tp_chunks := map (advanced g dt utils) (settle_chunks tp)\<rparr>"
  have ticked: "ticked g dt utils now tp = concluded now ?tp" using assms(2) by (simp add: ticked_def)
  have "\<forall>ch \<in> set (settle_chunks tp). chunk_inv ch"
    using assms(1) settle_inv [of tp] by (simp add: tp_inv_def accounted_def)
  then have "work q (tp_chunks ?tp) \<le> work q (tp_chunks tp)"
    using advanced_list_work(1) [OF _ dt, of "settle_chunks tp" g utils] settle_work [of q tp] by simp
  moreover have "tp_chunks (concluded now ?tp) = tp_chunks ?tp" if "tp_state (concluded now ?tp) \<noteq> Completed"
    using that by (auto simp: concluded_def refresh_aggregate_def Let_def split: if_splits)
  ultimately show ?thesis using assms(4) unfolding ticked by simp
qed

section \<open>A reroute\<close>

lemma reroute_on_edges: "on_edges (reroute_transfer g path tp) \<Longrightarrow> on_edges tp \<or> edge_indices path \<noteq> []"
proof -
  assume on: "on_edges (reroute_transfer g path tp)"
  have "map ch_edges (tp_chunks (reroute_transfer g path tp)) =
      map (\<lambda>ch. if ch_state ch = Completed then ch_edges ch else edge_indices path) (tp_chunks tp)"
    by (simp add: promote_edges reroute_chunk_def)
  moreover have "tp_path_edges (reroute_transfer g path tp) = edge_indices path"
    by (simp add: reroute_transfer_def Let_def)
  ultimately show ?thesis
    using on unfolding on_edges_map [of "reroute_transfer g path tp"]
    by (auto simp: on_edges_def split: if_splits)
qed

lemma reroute_work: "work q (tp_chunks (reroute_transfer g path tp)) = work q (tp_chunks tp)"
proof -
  have "work q (map (reroute_chunk es r) chs) = work q chs" for es r chs
    by (induction chs) (auto simp: chunk_work_def reroute_chunk_def)
  then show ?thesis by (simp add: reroute_transfer_def promote_work Let_def)
qed

lemma reroute_routed:
  assumes "routed g n tp" and "tp_state tp = Paused"
  shows "under_way g m (reroute_transfer es path tp)"
  using assms by (simp add: under_way_def routed_def reroute_transfer_def Let_def)

section \<open>Draining the pending reroutes\<close>

text \<open>What one entry, and the whole list, do to one transfer.\<close>

lemma drain_one_active:
  assumes "pw_executor w = Some ex" and "map_of (ex_transfers ex) (pr_id pr) = Some tp" and "is_active tp"
  shows "drain_one lm g cur pr w = (False, w)"
  using assms by (auto simp: drain_one_def get_transfer_def is_active_def)

lemma drain_one_elsewhere:
  assumes "pw_executor w = Some ex" and "map_of (ex_transfers ex) i = Some tp"
    and "pr_id pr \<noteq> i \<or> tp_state tp \<noteq> Paused"
  shows "\<exists>ex'. pw_executor (snd (drain_one lm g cur pr w)) = Some ex' \<and> map_of (ex_transfers ex') i = Some tp"
  using drain_one_executor [OF assms(1), of lm g cur pr] assms(2,3) by (fastforce simp: rerouted_once_def)

lemma drain_pending_keeps:
  assumes "pw_executor w = Some ex" and "map_of (ex_transfers ex) i = Some tp"
    and "tp_state tp \<noteq> Paused \<or> i \<notin> pr_id ` set prs"
  shows "\<exists>ex'. pw_executor (snd (snd (drain_pending lm g cur prs w))) = Some ex' \<and>
      map_of (ex_transfers ex') i = Some tp \<and>
      (is_active tp \<longrightarrow> waits_in i (fst (snd (drain_pending lm g cur prs w))) = waits_in i prs)"
  using assms
proof (induction prs arbitrary: w ex)
  case (Cons pr prs)
  obtain fin w1 where run: "drain_one lm g cur pr w = (fin, w1)" by fastforce
  have elsewhere: "pr_id pr \<noteq> i \<or> tp_state tp \<noteq> Paused" using Cons.prems(3) by auto
  obtain ex1 where ex1: "pw_executor w1 = Some ex1" "map_of (ex_transfers ex1) i = Some tp"
    using drain_one_elsewhere [OF Cons.prems(1,2) elsewhere, of lm g cur] run by auto
  have "\<not> fin" if "pr_id pr = i" "is_active tp"
    using drain_one_active [OF Cons.prems(1), of pr tp lm g cur] Cons.prems(2) that run by simp
  moreover have "tp_state tp \<noteq> Paused \<or> i \<notin> pr_id ` set prs" using Cons.prems(3) by auto
  from Cons.IH [OF ex1 this] obtain ex2 where
    "pw_executor (snd (snd (drain_pending lm g cur prs w1))) = Some ex2" "map_of (ex_transfers ex2) i = Some tp"
    "is_active tp \<longrightarrow> waits_in i (fst (snd (drain_pending lm g cur prs w1))) = waits_in i prs" by blast
  ultimately show ?case by (auto simp: run case_prod_unfold Let_def)
qed simp

lemma drain_pending_waits: "waits_in i (fst (snd (drain_pending lm g cur prs w))) \<le> waits_in i prs"
proof (induction prs arbitrary: w)
  case (Cons pr prs)
  from Cons.IH [of "snd (drain_one lm g cur pr w)"] show ?case
    by (auto simp: case_prod_unfold Let_def)
qed simp

lemma drain_pending_reroutes:
  assumes "graph_ok (pw_graph w)" and "plain_edges (edges (pw_graph w))" and utils: "\<forall>u \<in> set cur. u \<le> 1"
    and "pw_executor w = Some ex" and "map_of (ex_transfers ex) i = Some tp"
    and "tp_state tp = Paused" and "routed (pw_graph w) n tp" and "i \<in> pr_id ` set prs"
  shows "\<exists>ex' path. pw_executor (snd (snd (drain_pending lm g cur prs w))) = Some ex' \<and>
    map_of (ex_transfers ex') i = Some (reroute_transfer g path tp) \<and>
    waits_in i (fst (snd (drain_pending lm g cur prs w))) < waits_in i prs"
  using assms(1,2,4-)
proof (induction prs arbitrary: w ex)
  case (Cons pr prs)
  obtain fin w1 where run: "drain_one lm g cur pr w = (fin, w1)" by fastforce
  have same: "same_graph (pw_graph w) (pw_graph w1)" using drain_one_same_graph [of w lm g cur pr] run by simp
  then have ok1: "graph_ok (pw_graph w1)" "plain_edges (edges (pw_graph w1))" "routed (pw_graph w1) n tp"
    using Cons.prems(1,2,6) by (simp_all add: same_graph_def routed_same [OF same])
  show ?case
  proof (cases "pr_id pr = i")
    case True
    have "reroutable (pw_graph w) (tp_request tp)" "tp_bytes_remaining tp \<noteq> 0"
      using Cons.prems(5,6) by (simp_all add: routed_def)
    then obtain ex1 path where fin: fin and ex1: "pw_executor w1 = Some ex1"
      "map_of (ex_transfers ex1) i = Some (reroute_transfer g path tp)"
      using drain_one_reroutes [OF Cons.prems(1,2) utils Cons.prems(3) _ Cons.prems(5) _ _ run] Cons.prems(4) True
      by blast
    have "tp_state (reroute_transfer g path tp) \<noteq> Paused \<or> i \<notin> pr_id ` set prs" by simp
    from drain_pending_keeps [OF ex1 this, of lm g cur] drain_pending_waits [of i lm g cur prs w1] show ?thesis
      using fin True by (auto simp: run case_prod_unfold Let_def)
  next
    case False
    obtain ex1 where ex1: "pw_executor w1 = Some ex1" "map_of (ex_transfers ex1) i = Some tp"
      using drain_one_elsewhere [OF Cons.prems(3,4), of pr lm g cur] False run by auto
    from Cons.IH [OF ok1(1,2) ex1 Cons.prems(5) ok1(3)] Cons.prems(7) False show ?thesis
      by (auto simp: run case_prod_unfold Let_def)
  qed
qed simp

text \<open>
  The whole drain: a paused transfer leaves with another path, the same work and fewer entries; another
  one stays what it is.
\<close>

definition moved_on :: "transfer_progress \<Rightarrow> nat \<Rightarrow> transfer_progress \<Rightarrow> nat \<Rightarrow> bool" where
  "moved_on tp n tp' n' \<longleftrightarrow> tp_state tp \<noteq> Paused \<and> tp' = tp \<and> n' \<le> n \<or>
     tp_state tp = Paused \<and> (\<forall>q. work q (tp_chunks tp') = work q (tp_chunks tp)) \<and> n' < n"

lemma drain_moves:
  assumes ok: "graph_ok (pw_graph w)" "plain_edges (edges (pw_graph w))" and utils: "\<forall>u \<in> set cur. u \<le> 1"
    and ex: "pw_executor w = Some ex" and tp: "map_of (ex_transfers ex) i = Some tp"
    and routed: "routed (pw_graph w) (waits i w) tp"
    and run: "drain_boundary_reroutes lm g cur w = (n, w')"
  shows "\<exists>ex' tp'. pw_executor w' = Some ex' \<and> map_of (ex_transfers ex') i = Some tp' \<and>
    under_way (pw_graph w') (waits i w') tp' \<and> moved_on tp (waits i w) tp' (waits i w')"
proof -
  let ?prs = "en_pending (pw_engine w)"
  define r where "r = drain_pending lm g cur ?prs w"
  have same: "same_graph (pw_graph w) (pw_graph w')" using drain_same_graph [of w lm g cur] run by simp
  show ?thesis
  proof (cases "?prs = []")
    case True
    then have "w' = w" using run by (simp add: drain_boundary_reroutes_def)
    then show ?thesis using ex tp routed True by (auto simp: under_way_def moved_on_def routed_def)
  next
    case False
    then have w': "w' = (snd (snd r))\<lparr>pw_engine := (pw_engine (snd (snd r)))\<lparr>en_pending := fst (snd r)\<rparr>\<rparr>"
      using run ex by (auto simp: drain_boundary_reroutes_def r_def case_prod_unfold Let_def)
    show ?thesis
    proof (cases "tp_state tp = Paused")
      case True
      then have "i \<in> pr_id ` set ?prs" using routed by (simp add: routed_def waits_in_pos)
      from drain_pending_reroutes [OF ok utils ex tp True routed this, of lm g] obtain ex' path where
        "pw_executor w' = Some ex'" "map_of (ex_transfers ex') i = Some (reroute_transfer g path tp)"
        "waits i w' < waits i w" by (auto simp: w' r_def)
      moreover have "under_way (pw_graph w') m (reroute_transfer g path tp)" for m
        using reroute_routed [OF _ True] routed ok(1) by (simp add: routed_same [OF same])
      ultimately show ?thesis using True reroute_work by (auto simp: moved_on_def)
    next
      case unpaused: False
      then obtain ex' where "pw_executor w' = Some ex'" "map_of (ex_transfers ex') i = Some tp"
        "is_active tp \<longrightarrow> waits i w' = waits i w"
        using drain_pending_keeps [OF ex tp, of ?prs lm g cur] by (auto simp: w' r_def)
      moreover have "waits i w' \<le> waits i w" using drain_pending_waits by (simp add: w' r_def)
      moreover have "under_way (pw_graph w') (waits i w') tp"
        using routed unpaused calculation(3) routed_same [OF same ok(1)]
        by (auto simp: under_way_def routed_def is_active_def reroutable_same [OF same ok(1)])
      ultimately show ?thesis using unpaused by (auto simp: moved_on_def)
    qed
  qed
qed

section \<open>What a poll takes away\<close>

text \<open>The work of a transfer and the entries it waits in: what each poll takes something away from.\<close>

definition effort :: "nat \<Rightarrow> path_world \<Rightarrow> transfer_id \<Rightarrow> nat" where
  "effort q w i = (case pw_executor w of None \<Rightarrow> 0 | Some ex \<Rightarrow> work q (tp_chunks (get_transfer i ex)) + waits i w)"

lemma effort_lookup:
  "pw_executor w = Some ex \<Longrightarrow> map_of (ex_transfers ex) i = Some tp \<Longrightarrow> effort q w i = work q (tp_chunks tp) + waits i w"
  by (simp add: effort_def get_transfer_def)

lemma tick_drain_moves:
  assumes ok: "graph_ok (pw_graph w)" "plain_edges (edges (pw_graph w))" and utils: "\<forall>u \<in> set utils. u \<le> 1"
    and ex: "pw_executor w = Some ex" and inv: "exec_inv ex" and tp: "map_of (ex_transfers ex) i = Some tp"
    and way: "under_way (pw_graph w) (waits i w) tp"
    and run: "tick_and_drain dt utils clock lm w wire = (ids, w', wire')"
  shows "\<exists>ex' tp'. pw_executor w' = Some ex' \<and> map_of (ex_transfers ex') i = Some tp' \<and>
    under_way (pw_graph w') (waits i w') tp' \<and> (tp_state tp = Completed \<longrightarrow> tp' = tp) \<and>
    (long_enough q dt \<longrightarrow> tp_state tp' = Completed \<or> effort q w' i < effort q w i)"
proof -
  let ?tp = "ticked (Some (edges (pw_graph w))) dt utils (clock i) tp"
  obtain ex1 en1 n where table: "ex_transfers ex1 =
      map (\<lambda>(i, tp). (i, ticked (Some (edges (pw_graph w))) dt utils (clock i) tp)) (ex_transfers ex)"
    and pend: "en_pending en1 = en_pending (pw_engine w)"
    and drain: "drain_boundary_reroutes lm (Some (edges (pw_graph w))) utils
        (w\<lparr>pw_executor := Some ex1, pw_engine := en1\<rparr>) = (n, w')"
    using tick_drain_split [OF ex run] by blast
  have tpi: "tp_inv tp" using exec_inv_lookup [OF inv tp] by simp
  have look: "map_of (ex_transfers ex1) i = Some ?tp" using tp by (simp add: table lookup_mapped)
  have "routed (pw_graph w) (waits i w) ?tp" using tpi way by (rule ticked_routed)
  with drain_moves [OF _ _ utils _ look _ drain] ok obtain ex' tp' where
    res: "pw_executor w' = Some ex'" "map_of (ex_transfers ex') i = Some tp'"
      "under_way (pw_graph w') (waits i w') tp'" and moved: "moved_on ?tp (waits i w) tp' (waits i w')"
    by (auto simp: pend)
  have "tp_state tp' = Completed \<or> effort q w' i < effort q w i" if dt: "long_enough q dt"
  proof (cases "tp_state ?tp = Completed")
    case True
    then show ?thesis using moved by (simp add: moved_on_def)
  next
    case False
    then have active: "is_active tp"
      using way by (auto simp: under_way_def routed_def ticked_def is_active_def split: if_splits)
    have "work q (tp_chunks tp') + waits i w' < work q (tp_chunks tp) + waits i w"
    proof (cases "tp_state ?tp = Paused")
      case True
      then show ?thesis using moved ticked_work_le [OF tpi active dt False] by (auto simp: moved_on_def)
    next
      case unpaused: False
      then have "is_active ?tp" using res(3) moved False by (auto simp: moved_on_def under_way_def routed_def is_active_def)
      then show ?thesis using unpaused moved ticked_work [OF tpi active dt] by (fastforce simp: moved_on_def)
    qed
    then show ?thesis by (simp add: effort_lookup [OF res(1,2)] effort_lookup [OF ex tp])
  qed
  moreover have "tp_state tp = Completed \<longrightarrow> tp' = tp"
    using moved by (auto simp: moved_on_def ticked_def is_active_def)
  ultimately show ?thesis using res by blast
qed

section \<open>A submission\<close>

text \<open>Preemption only suspends transfers that use edges, and adds an entry for each.\<close>

lemma preempt_hit_on_edges: "preempt_hit busy tp \<Longrightarrow> on_edges tp \<and> tp_state tp = InFlight"
proof -
  have "shares_edge p busy \<Longrightarrow> p \<noteq> []" for p by (auto simp: shares_edge_def)
  then show "preempt_hit busy tp \<Longrightarrow> on_edges tp \<and> tp_state tp = InFlight"
    by (auto simp: preempt_hit_def on_edges_def list_ex_iff)
qed

lemma preempt_under_way:
  assumes inv: "exec_inv ex" and way: "table_under_way g prs ex"
  shows "table_under_way g (prs @ map (\<lambda>i. \<lparr>pr_id = i, pr_avoid_edges = busy\<rparr>) (fst (preempt_sharing busy n ex)))
    (snd (preempt_sharing busy n ex))"
  unfolding table_under_way_def
proof (intro allI impI)
  fix i tp'
  let ?ids = "fst (preempt_sharing busy n ex)"
  let ?n = "waits_in i (prs @ map (\<lambda>i. \<lparr>pr_id = i, pr_avoid_edges = busy\<rparr>) ?ids)"
  assume "map_of (ex_transfers (snd (preempt_sharing busy n ex))) i = Some tp'"
  then obtain tp where tp: "map_of (ex_transfers ex) i = Some tp" and
    tp': "tp' = (if i \<in> fst ` set (preempt_chosen busy n ex) then mark_suspend tp else tp)"
    by (auto simp: preempt_sharing_alt lookup_mapped)
  have old: "under_way g (waits_in i prs) tp" using way tp by (simp add: table_under_way_def)
  show "under_way g ?n tp'"
  proof (cases "i \<in> fst ` set (preempt_chosen busy n ex)")
    case False
    then show ?thesis using under_way_more [OF old] tp' by simp
  next
    case True
    then obtain kv where kv: "kv \<in> set (preempt_chosen busy n ex)" "fst kv = i" by blast
    with preempt_chosen_hit [OF kv(1)] have mem: "(i, snd kv) \<in> set (ex_transfers ex)" by auto
    then have "snd kv = tp" using exec_inv_key_unique [OF inv _ map_of_SomeD [OF tp]] by blast
    then have hit: "on_edges tp" "tp_state tp = InFlight"
      using preempt_chosen_hit [OF kv(1)] preempt_hit_on_edges by auto
    have "tp_id (snd kv) = i" using inv mem by (auto simp: exec_inv_def)
    then have "i \<in> set ?ids" using kv(1) by (force simp: preempt_sharing_alt)
    then have "0 < ?n" by (auto simp: waits_in_pos image_image)
    then show ?thesis
      using True old hit by (simp add: tp' under_way_def routed_def mark_suspend_def on_edges_def)
  qed
qed

text \<open>The path of a decision comes from the candidates, and so do the paths of the chunks of a striped transfer.\<close>

lemma select_path_routable:
  assumes "edge_indices (fst (select_path lm req utils w)) \<noteq> []"
  shows "reroutable (pw_graph w) req"
proof -
  have best: "edge_indices (cheapest cost cs no_path) = [] \<or> edge_indices (cheapest cost cs no_path) \<in> set cs" for cost cs
    using cheapest_origin [of cost cs no_path] by auto
  define cs where "cs = candidates_of (pw_graph w) req"
  have cs: "fst (flexibility_set (pw_graph w) (vertex_of (pw_graph w) (rq_source req))
      (vertex_of (pw_graph w) (rq_dest req)) (traffic req)) = cs" by (simp add: cs_def candidates_of_def)
  have "edge_indices (fst (select_path lm req utils w)) = [] \<or>
      edge_indices (fst (select_path lm req utils w)) \<in> set cs"
  proof (cases cs rule: remdups_adj.cases)
    case (3 p q ps)
    define c where "c = candidate_cost lm (edges (pw_graph w)) utils req"
    have "edge_indices (fst (select_path lm req utils w)) = [] \<or>
        edge_indices (fst (select_path lm req utils w)) = edge_indices (cheapest c cs no_path)"
      using cs by (simp add: select_path_def 3 case_prod_unfold c_def Let_def del: cheapest.simps)
    then show ?thesis using best [of c cs] by metis
  qed (use cs in \<open>simp_all add: select_path_def case_prod_unfold Let_def\<close>)
  then show ?thesis using assms by (auto simp: reroutable_def cs_def)
qed

lemma stripe_routable:
  assumes "d \<in> set (fst (stripe_kv_migration lm req utils chunk w))" and "cd_edges d \<noteq> []"
  shows "reroutable (pw_graph w) req"
proof -
  have ne: "fst (flexibility_set (pw_graph w) (vertex_of (pw_graph w) (rq_source req))
      (vertex_of (pw_graph w) (rq_dest req)) (traffic req)) \<noteq> []" (is "?cs \<noteq> []")
    using assms(1) stripe_none [of w req lm utils chunk] by auto
  from stripe_kv_cuts [OF refl ne, of chunk lm utils] assms show ?thesis
    by (auto simp: cuts_def reroutable_def candidates_of_def)
qed

lemma fold_add_edges_nil: "fold (\<lambda>c acc. add_edges acc (ck_edges c)) cs [] \<noteq> [] \<Longrightarrow> \<exists>c \<in> set cs. ck_edges c \<noteq> []"
proof (rule ccontr)
  assume ne: "fold (\<lambda>c acc. add_edges acc (ck_edges c)) cs [] \<noteq> []" and "\<not> (\<exists>c \<in> set cs. ck_edges c \<noteq> [])"
  then have "\<forall>c \<in> set cs. ck_edges c = []" by simp
  then have "fold (\<lambda>c acc. add_edges acc (ck_edges c)) cs [] = []"
    by (induction cs) (simp_all add: add_edges_def)
  with ne show False by simp
qed

lemma stripe_chunks_edges: "ch \<in> set (stripe_chunks g cs off busy) \<Longrightarrow> ch_edges ch \<in> ck_edges ` set cs"
  by (induction g cs off busy rule: stripe_chunks.induct) (auto simp: Let_def)

lemma enter_under_way:
  assumes "table_under_way g prs ex" and "ex_transfers ex' = AList.update i tp (ex_transfers ex)"
    and "tp_state tp = InFlight" and "on_edges tp \<Longrightarrow> reroutable g (tp_request tp)"
  shows "table_under_way g prs ex'"
  using assms by (auto simp: table_under_way_def update_conv' under_way_def routed_def)

lemma submit_under_way:
  assumes "table_under_way g prs ex" and "edge_indices path \<noteq> [] \<Longrightarrow> reroutable g req"
  shows "table_under_way g prs (snd (submit es now req path opts ex))"
  using assms by (intro enter_under_way [OF assms(1)]) (auto simp: submit_def on_edges_def default_progress_def Let_def)

lemma striped_under_way:
  assumes "table_under_way g prs ex" and "\<And>c. c \<in> set cs \<Longrightarrow> ck_edges c \<noteq> [] \<Longrightarrow> reroutable g req"
  shows "table_under_way g prs (snd (submit_striped es now req cs opts ex))"
proof (cases cs)
  case Nil
  then show ?thesis
    using submit_under_way [OF assms(1), of "\<lparr>edge_indices = [], pc_latency_us = 0\<rparr>" req es now opts]
    by (simp add: submit_striped_def)
next
  case (Cons c cs')
  let ?chs = "stripe_chunks es cs 0 (replicate kIbRailCount False)"
  obtain tp where tp: "ex_transfers (snd (submit_striped es now req cs opts ex)) =
      AList.update (ex_next_id ex) tp (ex_transfers ex)" "tp_state tp = InFlight" "tp_request tp = req"
    "tp_path_edges tp = fold (\<lambda>c acc. add_edges acc (ck_edges c)) cs []" "tp_chunks tp = ?chs"
    by (simp add: submit_striped_def Cons default_progress_def Let_def del: fold_simps stripe_chunks.simps)
  have "reroutable g req" if "on_edges tp"
    using that fold_add_edges_nil [of cs] stripe_chunks_edges assms(2) by (fastforce simp: on_edges_def tp)
  with tp assms(1) show ?thesis by (intro enter_under_way [OF assms(1) tp(1,2)]) simp
qed

lemma table_under_way_same:
  "same_graph g g' \<Longrightarrow> graph_ok g \<Longrightarrow> table_under_way g' prs ex = table_under_way g prs ex"
  by (simp add: table_under_way_def under_way_same)

lemma select_table_under_way:
  assumes "pw_executor w = Some ex" and "exec_inv ex" and "table_under_way g (en_pending (pw_engine w)) ex"
    and "snd (select_path lm req utils w) = w1"
  shows "\<exists>ex1. pw_executor w1 = Some ex1 \<and> table_under_way g (en_pending (pw_engine w1)) ex1"
  using select_table [OF assms(1,4)] assms(3) preempt_under_way [OF assms(2,3)] by fastforce

lemma select_under_way:
  assumes "graph_ok (pw_graph w)" and "world_ok w" and "all_under_way w"
  shows "all_under_way (snd (select_path lm req utils w))"
proof (cases "pw_executor w")
  case None
  then show ?thesis using select_executor [of lm req utils w] by (simp add: all_under_way_def)
next
  case (Some ex)
  have "exec_inv ex" "table_under_way (pw_graph w) (en_pending (pw_engine w)) ex"
    using assms(2,3) Some by (simp_all add: world_ok_def all_under_way_def)
  from select_table_under_way [OF Some this refl, of lm req utils] show ?thesis
    using table_under_way_same [OF select_same_graph [of w lm req utils] assms(1)] by (auto simp: all_under_way_def)
qed

lemma schedule_under_way:
  assumes ok: "graph_ok (pw_graph w)" and ex: "pw_executor w = Some ex" and inv: "exec_inv ex"
    and way: "all_under_way w" and run: "schedule_and_execute lm g now req utils opts w = (i, w')"
  shows "all_under_way w'"
proof -
  let ?G = "pw_graph w" and ?prs = "en_pending (pw_engine w)"
  have table: "table_under_way ?G ?prs ex" using way ex by (simp add: all_under_way_def)
  have same: "same_graph ?G (pw_graph w')"
    using schedule_same_graph [of w lm g now req utils opts] run by simp
  have "\<exists>ex' prs. pw_executor w' = Some ex' \<and> en_pending (pw_engine w') = prs \<and> table_under_way ?G prs ex'"
  proof (cases "traffic req = KVMigration \<and> kKvChunkBytes < size_bytes req")
    case True
    define ds where "ds = fst (stripe_kv_migration lm req utils kKvChunkBytes w)"
    have "table_under_way ?G ?prs (snd (submit_striped g now req (map to_chunk_path ds) opts ex))"
      using table by (rule striped_under_way)
        (use stripe_routable [of _ lm req utils kKvChunkBytes w] in \<open>auto simp: ds_def to_chunk_path_def\<close>)
    then show ?thesis
      using True run ex by (auto simp: schedule_and_execute_def ds_def case_prod_unfold Let_def)
  next
    case False
    define path where "path = fst (select_path lm req utils w)"
    define w1 where "w1 = snd (select_path lm req utils w)"
    obtain ex1 where ex1: "pw_executor w1 = Some ex1" "table_under_way ?G (en_pending (pw_engine w1)) ex1"
      using select_table_under_way [OF ex inv table w1_def [symmetric]] by blast
    have "table_under_way ?G (en_pending (pw_engine w1)) (snd (submit g now req path opts ex1))"
      using ex1(2) by (rule submit_under_way) (use select_path_routable in \<open>auto simp: path_def\<close>)
    then show ?thesis
      using False run ex ex1(1)
      by (auto simp: schedule_and_execute_def path_def w1_def case_prod_unfold Let_def split: if_splits)
  qed
  then show ?thesis using table_under_way_same [OF same ok] by (auto simp: all_under_way_def)
qed

lemma tick_drain_under_way:
  assumes ok: "graph_ok (pw_graph w)" "plain_edges (edges (pw_graph w))" and utils: "\<forall>u \<in> set utils. u \<le> 1"
    and inv: "world_ok w" and way: "all_under_way w"
    and run: "tick_and_drain dt utils clock lm w wire = (ids, w', wire')"
  shows "all_under_way w'"
proof (cases "pw_executor w")
  case None
  then show ?thesis using run way by (simp add: tick_and_drain_def)
next
  case (Some ex)
  have inv': "exec_inv ex" using inv Some by (simp add: world_ok_def)
  have old: "under_way (pw_graph w) (waits i w) tp" if "map_of (ex_transfers ex) i = Some tp" for i tp
    using way Some that by (simp add: all_under_way_def table_under_way_def)
  show ?thesis
    unfolding all_under_way_def table_under_way_def
  proof (intro allI impI)
    fix ex' i tp' assume ex': "pw_executor w' = Some ex'" "map_of (ex_transfers ex') i = Some tp'"
    obtain ex1 en1 n where table: "ex_transfers ex1 =
        map (\<lambda>(i, tp). (i, ticked (Some (edges (pw_graph w))) dt utils (clock i) tp)) (ex_transfers ex)"
      and drain: "drain_boundary_reroutes lm (Some (edges (pw_graph w))) utils
          (w\<lparr>pw_executor := Some ex1, pw_engine := en1\<rparr>) = (n, w')"
      using tick_drain_split [OF Some run] by blast
    have "same_table ex1 ex'"
      using drain_table [of "w\<lparr>pw_executor := Some ex1, pw_engine := en1\<rparr>" ex1, OF _ arg_cong [OF drain, of snd]]
        ex'(1) by auto
    then have "ids_of ex' = ids_of ex1" by (simp add: same_table_def)
    also have "\<dots> = ids_of ex" unfolding ids_of_table by (force simp: table)
    finally have "i \<in> ids_of ex" using ex'(2) unfolding ids_of_table by (force dest: map_of_SomeD)
    then have "i \<in> dom (map_of (ex_transfers ex))" unfolding ids_of_table dom_map_of_conv_image_fst .
    then obtain tp where tp: "map_of (ex_transfers ex) i = Some tp" by blast
    from tick_drain_moves [OF ok utils Some inv' tp old [OF tp] run] ex'
    show "under_way (pw_graph w') (waits_in i (en_pending (pw_engine w'))) tp'" by auto
  qed
qed

section \<open>Every run of the shim\<close>

lemma utils_le_1: "shim_sound es n sh \<Longrightarrow> \<forall>u \<in> set (current_utils sh). u \<le> 1"
  using snapshot_in_range by (fastforce simp: shim_sound_def daemon_ok_def current_utils_def unit_util_def)

lemma shim_plain:
  assumes "shim_sound (cluster_edges opts) n sh"
  shows "graph_ok (pw_graph (sh_world sh))" and "plain_edges (edges (pw_graph (sh_world sh)))"
    and "world_ok (sh_world sh)"
  using assms cluster_plain by (auto simp: shim_sound_def world_sound_def)

lemma poll_under_way:
  assumes "shim_sound (cluster_edges opts) n sh" and "all_under_way (sh_world sh)"
  shows "all_under_way (sh_world (fst (snd (poll_transfers c dt (sh, wire)))))"
proof -
  obtain ids w' wire' where run: "tick_and_drain dt (current_utils sh) (cl_tick c) (sh_predictor sh) (sh_world sh) wire =
      (ids, w', wire')" by (rule prod_cases3)
  show ?thesis
    using tick_drain_under_way [OF shim_plain(1,2) [OF assms(1)] utils_le_1 [OF assms(1)] shim_plain(3) [OF assms(1)]
        assms(2) run]
    by (simp add: poll_transfers_def run)
qed

lemma submit_shim_under_way:
  assumes sound: "shim_sound (cluster_edges opts) n sh" and way: "all_under_way (sh_world sh)"
  shows "all_under_way (sh_world (fst (snd (submit_transfer c junk cls src dst nbytes deadline sb db (sh, wire)))))"
proof (cases "pw_executor (sh_world sh)")
  case None
  then show ?thesis
    using dispatch_none [of "cluster_edges opts" n sh c junk] sound
    by (simp add: submit_transfer_def all_under_way_def shim_sound_def case_prod_unfold Let_def)
next
  case (Some ex)
  define rq where "rq = \<lparr>rq_source = src, rq_dest = dst, size_bytes = nbytes, traffic = cls, deadline_us = deadline\<rparr>"
  let ?opts = "\<lparr>so_src_buf = sb, so_dst_buf = db\<rparr>"
  have world: "world_sound (cluster_edges opts) n (sh_world sh)" using sound by (simp add: shim_sound_def)
  then have inv: "exec_inv ex" using Some by (simp add: world_sound_def world_ok_def)
  obtain i w1 where sched: "schedule_and_execute (sh_predictor sh) (Some (shim_edges sh)) (cl_now c) rq
      (current_utils sh) ?opts (sh_world sh) = (i, w1)" by (rule prod.exhaust)
  have way1: "all_under_way w1" by (rule schedule_under_way [OF shim_plain(1) [OF sound] Some inv way sched])
  have "world_sound (cluster_edges opts) (Suc n) w1" using world sched by (rule schedule_sound)
  then have ok1: "graph_ok (pw_graph w1)" "plain_edges (edges (pw_graph w1))" "world_ok w1"
    using cluster_plain by (auto simp: world_sound_def)
  obtain ids w2 wire2 where td: "tick_and_drain 0.05 (current_utils sh) (cl_tick c) (sh_predictor sh) w1 wire =
      (ids, w2, wire2)" by (rule prod_cases3)
  have "all_under_way w2" by (rule tick_drain_under_way [OF ok1(1,2) utils_le_1 [OF sound] ok1(3) way1 td])
  then show ?thesis using Some sched td by (simp add: submit_transfer_def rq_def)
qed

lemma shim_run_under_way:
  assumes "shim_run R opts n st" and fits: "cluster_fits (io_num_nodes opts) (io_gpus_per_node opts)"
  shows "all_under_way (sh_world (fst st))"
  using assms(1)
proof (induction rule: shim_run.induct)
  case (run_init g0 host m weights enc dec rounds cursor ib w)
  then show ?case by (simp add: init_world all_under_way_def table_under_way_def executor_fresh_def)
next
  case (run_submit n st c junk cls src dst nbytes deadline sb db)
  then show ?case
    using submit_shim_under_way [OF shim_run_sound [OF run_submit.hyps fits] run_submit.IH] by (metis prod.collapse)
next
  case (run_poll n st c dt_ms)
  then show ?case
    using poll_under_way [OF shim_run_sound [OF run_poll.hyps fits] run_poll.IH] by (metis prod.collapse)
next
  case (run_select n sh w req utils)
  have "shim_sound (cluster_edges opts) n sh" using shim_run_sound [OF run_select.hyps fits] by simp
  from select_under_way [OF shim_plain(1,3) [OF this]] run_select.IH show ?case by simp
qed simp_all

section \<open>Polling\<close>

text \<open>
  \<open>k\<close> polls, each long enough for \<open>q\<close> bytes; between them the telemetry daemon takes any steps and the
  host does anything to memory and the transport.
\<close>

inductive polled :: "'g rng_ops \<Rightarrow> nat \<Rightarrow> nat \<Rightarrow> 'g shim \<times> wire \<Rightarrow> 'g shim \<times> wire \<Rightarrow> bool" for R q where
  polled_none: "polled R q 0 st st"
| polled_poll: "polled R q k st st' \<Longrightarrow> long_enough q dt \<Longrightarrow>
    polled R q (Suc k) st (snd (poll_transfers c dt st'))"
| polled_telemetry: "polled R q k st (sh, w) \<Longrightarrow> daemon_step R (sh_telemetry sh) d \<Longrightarrow>
    polled R q k st (sh\<lparr>sh_telemetry := d\<rparr>, w)"
| polled_host: "polled R q k st (sh, w) \<Longrightarrow> polled R q k st (sh, w')"

lemma polled_run: "polled R q k st st' \<Longrightarrow> shim_run R opts n st \<Longrightarrow> shim_run R opts n st'"
  by (induction rule: polled.induct) (auto intro: shim_run.intros)

text \<open>One poll on one transfer, and then \<open>k\<close> of them.\<close>

lemma poll_moves:
  assumes run: "shim_run R opts n (sh, wire)" and fits: "cluster_fits (io_num_nodes opts) (io_gpus_per_node opts)"
    and ex: "pw_executor (sh_world sh) = Some ex" and tp: "map_of (ex_transfers ex) i = Some tp"
    and dt: "long_enough q dt" and poll: "snd (poll_transfers c dt (sh, wire)) = (sh', wire')"
  shows "\<exists>ex' tp'. pw_executor (sh_world sh') = Some ex' \<and> map_of (ex_transfers ex') i = Some tp' \<and>
    (tp_state tp = Completed \<longrightarrow> tp' = tp) \<and>
    (tp_state tp' = Completed \<or> effort q (sh_world sh') i < effort q (sh_world sh) i)"
proof -
  have sound: "shim_sound (cluster_edges opts) n sh" using shim_run_sound [OF run fits] by simp
  have "exec_inv ex" using shim_plain(3) [OF sound] ex by (simp add: world_ok_def)
  moreover have "under_way (pw_graph (sh_world sh)) (waits i (sh_world sh)) tp"
    using shim_run_under_way [OF run fits] ex tp by (simp add: all_under_way_def table_under_way_def)
  moreover obtain ids w' wr where td: "tick_and_drain dt (current_utils sh) (cl_tick c) (sh_predictor sh)
      (sh_world sh) wire = (ids, w', wr)" by (rule prod_cases3)
  moreover have "sh_world sh' = w'" using poll td by (auto simp: poll_transfers_def)
  ultimately show ?thesis
    using tick_drain_moves [OF shim_plain(1,2) [OF sound] utils_le_1 [OF sound] ex _ tp _ td, of q] dt by auto
qed

lemma polls_wear_down:
  assumes "polled R q k (sh, wire) st'" and "shim_run R opts n (sh, wire)"
    and fits: "cluster_fits (io_num_nodes opts) (io_gpus_per_node opts)"
    and "pw_executor (sh_world sh) = Some ex" and "map_of (ex_transfers ex) i = Some tp"
  shows "\<exists>ex' tp'. pw_executor (sh_world (fst st')) = Some ex' \<and> map_of (ex_transfers ex') i = Some tp' \<and>
    (tp_state tp = Completed \<longrightarrow> tp' = tp) \<and>
    (tp_state tp' = Completed \<or> effort q (sh_world (fst st')) i + k \<le> effort q (sh_world sh) i)"
  using assms(1,2,4,5)
proof (induction k "(sh, wire)" st' rule: polled.induct)
  case polled_none
  then show ?case by auto
next
  case (polled_poll k st' dt c)
  obtain sh1 wire1 where st': "st' = (sh1, wire1)" by (rule prod.exhaust)
  obtain sh2 wire2 where poll: "snd (poll_transfers c dt (sh1, wire1)) = (sh2, wire2)" by (rule prod.exhaust)
  have run: "shim_run R opts n (sh1, wire1)" using polled_run polled_poll.hyps(1) polled_poll.prems(1) st' by blast
  obtain ex1 tp1 where 1: "pw_executor (sh_world sh1) = Some ex1" "map_of (ex_transfers ex1) i = Some tp1"
    "tp_state tp = Completed \<longrightarrow> tp1 = tp"
    "tp_state tp1 = Completed \<or> effort q (sh_world sh1) i + k \<le> effort q (sh_world sh) i"
    using polled_poll.hyps(2) polled_poll.prems st' by auto
  from poll_moves [OF run fits 1(1,2) polled_poll.hyps(3) poll] 1(3,4) show ?case
    unfolding st' poll by auto
qed auto

text \<open>Enough polls for all the work and all the entries complete a transfer.\<close>

lemma polls_finish:
  assumes "shim_run R opts n (sh, wire)" and "cluster_fits (io_num_nodes opts) (io_gpus_per_node opts)"
    and "pw_executor (sh_world sh) = Some ex" and "map_of (ex_transfers ex) i = Some tp"
    and "polled R q k (sh, wire) (sh', wire')"
    and "(unat (tp_bytes_remaining tp) + length (tp_chunks tp) * (q - 1)) div q + length (tp_chunks tp) +
      waits i (sh_world sh) < k"
  shows "tp_state (transfer_status sh' i) = Completed"
proof -
  have way: "under_way (pw_graph (sh_world sh)) (waits i (sh_world sh)) tp"
    using shim_run_under_way [OF assms(1,2)] assms(3,4) by (simp add: all_under_way_def table_under_way_def)
  have inv: "tp_inv tp"
    using shim_run_sound [OF assms(1,2)] assms(3) exec_inv_lookup [OF _ assms(4)]
    by (simp add: shim_sound_def world_sound_def world_ok_def)
  obtain ex' tp' where res: "pw_executor (sh_world sh') = Some ex'" "map_of (ex_transfers ex') i = Some tp'"
    and kept: "tp_state tp = Completed \<longrightarrow> tp' = tp" and worn: "tp_state tp' = Completed \<or> effort q (sh_world sh') i + k \<le> effort q (sh_world sh) i"
    using polls_wear_down [OF assms(5,1-4)] by auto
  have "tp_state tp' = Completed"
  proof (cases "tp_state tp = Completed")
    case False
    then have "work q (tp_chunks tp) \<le>
        (unat (tp_bytes_remaining tp) + length (tp_chunks tp) * (q - 1)) div q + length (tp_chunks tp)"
      using inv way by (intro work_remaining) (auto simp: under_way_def routed_def)
    then show ?thesis using worn assms(6) effort_lookup [OF assms(3,4)] by simp
  qed (use kept in simp)
  then show ?thesis using transfer_status_lookup [OF res] by simp
qed

section \<open>Waiting for any transfer\<close>

text \<open>What the daemon's thread does meanwhile is made of its steps.\<close>

definition daemon_moves :: "'g rng_ops \<Rightarrow> (nat \<Rightarrow> 'g daemon \<Rightarrow> 'g daemon) \<Rightarrow> bool" where
  "daemon_moves R D \<longleftrightarrow> (\<forall>k d. (daemon_step R)\<^sup>*\<^sup>* d (D k d))"

lemma polled_daemon:
  assumes "(daemon_step R)\<^sup>*\<^sup>* d d'" and "polled R q k st (sh, w)" and "sh_telemetry sh = d"
  shows "polled R q k st (sh\<lparr>sh_telemetry := d'\<rparr>, w)"
  using assms
proof (induction rule: rtranclp_induct)
  case base
  then show ?case by (cases sh) auto
next
  case (step d' d2)
  from polled_telemetry [OF step.IH [OF step.prems], of d2] step.hyps(2) show ?case by simp
qed

lemma polled_trans: "polled R q j st' st2 \<Longrightarrow> polled R q k st st' \<Longrightarrow> polled R q (k + j) st st2"
  by (induction rule: polled.induct) (auto intro: polled.intros)

text \<open>The loop ends whatever the transfer, its buffers and the transport.\<close>

lemma wait_finishes:
  assumes run: "shim_run R opts n (sh, wire)" and fits: "cluster_fits (io_num_nodes opts) (io_gpus_per_node opts)"
    and ex: "pw_executor (sh_world sh) = Some ex" and tp: "map_of (ex_transfers ex) (ur_transfer_id req) = Some tp"
    and daemon: "daemon_moves R D" and dt: "long_enough 1 dt"
  shows "\<exists>j st'. wait_completed clocks D dt req k (sh, wire) = Some st' \<and> polled R 1 j (sh, wire) st' \<and>
    request_completed (fst st') req"
  using run ex tp
proof (induction "effort 1 (sh_world sh) (ur_transfer_id req)" arbitrary: k sh wire ex tp rule: less_induct)
  case less
  let ?i = "ur_transfer_id req"
  have stop: "wait_completed clocks D dt req k st = Some st" if "request_completed (fst st) req" for st k
    using that by (subst wait_completed.simps) simp
  show ?case
  proof (cases "request_completed sh req")
    case True
    then show ?thesis using stop [of "(sh, wire)"] polled_none by fastforce
  next
    case False
    let ?sh = "sh\<lparr>sh_telemetry := D k (sh_telemetry sh)\<rparr>"
    have moved: "polled R 1 0 (sh, wire) (?sh, wire)"
      using daemon by (intro polled_daemon [OF _ polled_none]) (simp_all add: daemon_moves_def)
    have run1: "shim_run R opts n (?sh, wire)" using polled_run [OF moved less.prems(1)] .
    obtain sh' wire' where poll: "snd (poll_transfers (clocks k) dt (?sh, wire)) = (sh', wire')" by (rule prod.exhaust)
    have polled1: "polled R 1 1 (sh, wire) (sh', wire')" using polled_poll [OF moved dt, of "clocks k"] poll by simp
    have step: "wait_completed clocks D dt req k (sh, wire) = wait_completed clocks D dt req (Suc k) (sh', wire')"
      using False poll by (subst wait_completed.simps) (simp add: progress_def case_prod_unfold)
    obtain ex' tp' where 1: "pw_executor (sh_world sh') = Some ex'" "map_of (ex_transfers ex') ?i = Some tp'"
      "tp_state tp' = Completed \<or> effort 1 (sh_world sh') ?i < effort 1 (sh_world sh) ?i"
      using poll_moves [OF run1 fits _ _ dt poll] less.prems(2,3) by fastforce
    show ?thesis
    proof (cases "tp_state tp' = Completed")
      case True
      then have "request_completed sh' req"
        using transfer_status_lookup [OF 1(1,2)] by (simp add: request_completed_def)
      then show ?thesis using step stop [of "(sh', wire')"] polled1 by fastforce
    next
      case False
      then have "effort 1 (sh_world sh') ?i < effort 1 (sh_world sh) ?i" using 1(3) by simp
      from less.hyps [OF this polled_run [OF polled1 less.prems(1)] 1(1,2), of "Suc k"] show ?thesis
        unfolding step using polled_trans [OF _ polled1] by blast
    qed
  qed
qed

section \<open>Properties\<close>

text \<open>
  C8. No transfer is left behind: in every run of the shim, every transfer of the table is in flight, being
  suspended or completed, never parked or cancelled; one that is being suspended has a reroute waiting
  for it and a path that is not empty to be rerouted to.
\<close>
theorem shim_parks_no_transfer:
  assumes "shim_run R opts n (sh, wire)" and "cluster_fits (io_num_nodes opts) (io_gpus_per_node opts)"
    and "pw_executor (sh_world sh) = Some ex" and "map_of (ex_transfers ex) i = Some tp"
  shows "tp_state tp \<in> {InFlight, SuspendPending, Completed} \<and>
    (tp_state tp = SuspendPending \<longrightarrow> i \<in> pending_ids (sh_world sh) \<and>
       candidates_of (pw_graph (sh_world sh)) (tp_request tp) \<noteq> [] \<and>
       [] \<notin> set (candidates_of (pw_graph (sh_world sh)) (tp_request tp)))"
proof -
  have "under_way (pw_graph (sh_world sh)) (waits i (sh_world sh)) tp"
    using shim_run_under_way [OF assms(1,2)] assms(3,4) by (simp add: all_under_way_def table_under_way_def)
  moreover have "graph_ok (pw_graph (sh_world sh))"
    using shim_plain(1) shim_run_sound [OF assms(1,2)] by auto
  ultimately show ?thesis
    using reroutable_candidates by (auto simp: under_way_def routed_def waits_in_pos pending_ids_def)
qed

text \<open>Two GPUs, one of which has asked for eight bytes of the other.\<close>

definition pair_busy :: "unit shim \<times> wire" where
  "pair_busy = snd (submit_transfer still_clock 0 KVMigration (ue_local pair_ep) (ue_remote pair_ep) 8 0 16 64
     (pair_shim, pair_wire))"

lemma pair_busy_run: "shim_run quiet_rng pair_options 1 pair_busy"
  using run_submit [OF pair_run] by (simp add: pair_busy_def)

lemma pair_buffers: "buffers_sound \<lparr>so_src_buf = 16, so_dst_buf = 64\<rparr> 8"
  using copy_ok(3) by (simp add: copy_buffers_def copy_request_def)

lemma pair_busy_table:
  "\<exists>sh wire ex i tp. pair_busy = (sh, wire) \<and> pw_executor (sh_world sh) = Some ex \<and> map_of (ex_transfers ex) i = Some tp"
proof -
  obtain i sh wire where run: "submit_transfer still_clock 0 KVMigration (ue_local pair_ep) (ue_remote pair_ep) 8 0 16 64
      (pair_shim, pair_wire) = (i, sh, wire)" by (rule prod_cases3)
  have "shim_sound (cluster_edges pair_options) 0 pair_shim" using shim_run_sound [OF pair_run pair_fits] by simp
  from submit_course [OF this pair_shim_simps(1) _ pair_shim_simps(4) pair_buffers pair_shim_simps(5) run]
  show ?thesis by (auto simp: on_course_def pair_busy_def run)
qed

theorem shim_parks_no_transfer_witness:
  "\<exists>sh wire ex i tp. pair_busy = (sh, wire) \<and> pw_executor (sh_world sh) = Some ex \<and>
     map_of (ex_transfers ex) i = Some tp \<and> tp_state tp \<in> {InFlight, SuspendPending, Completed}"
proof -
  obtain sh wire ex i tp where st: "pair_busy = (sh, wire)" "pw_executor (sh_world sh) = Some ex"
    "map_of (ex_transfers ex) i = Some tp" using pair_busy_table by blast
  with shim_parks_no_transfer [OF pair_busy_run [unfolded st(1)] pair_fits st(2,3)] show ?thesis by blast
qed

text \<open>
  C4. Polls finish every transfer of the shim, at a rate.  From any state of a run, whatever was submitted
  before and whoever was preempted, let every poll be long enough for \<open>q\<close> bytes at the lowest rate, 100
  bytes in a microsecond: after more polls than the transfer has portions of \<open>q\<close> bytes left, chunks and
  reroutes waiting for it, it is completed, with the daemon running and the host doing anything
  in between.
\<close>
theorem polls_finish_transfers:
  assumes "shim_run R opts n (sh, wire)" and "cluster_fits (io_num_nodes opts) (io_gpus_per_node opts)"
    and "pw_executor (sh_world sh) = Some ex" and "map_of (ex_transfers ex) i = Some tp"
    and "polled R q k (sh, wire) (sh', wire')"
    and "(unat (tp_bytes_remaining tp) + length (tp_chunks tp) * (q - 1)) div q + length (tp_chunks tp) +
      waits i (sh_world sh) < k"
  shows "tp_state (transfer_status sh' i) = Completed"
  using assms by (rule polls_finish)

lemma polled_some: "\<exists>st'. polled R 1 k st st'"
proof (induction k)
  case (Suc k)
  then obtain st' where "polled R 1 k st st'" by blast
  then have "polled R 1 (Suc k) st (snd (poll_transfers still_clock 1 st'))" by (rule polled_poll) simp_all
  then show ?case by blast
qed (blast intro: polled_none)

theorem polls_finish_transfers_witness:
  "\<exists>k sh' wire' i. polled quiet_rng 1 k pair_busy (sh', wire') \<and> tp_state (transfer_status sh' i) = Completed"
proof -
  obtain sh wire ex i tp where st: "pair_busy = (sh, wire)" "pw_executor (sh_world sh) = Some ex"
    "map_of (ex_transfers ex) i = Some tp" using pair_busy_table by blast
  obtain sh' wire' where polls: "polled quiet_rng 1
      (Suc (unat (tp_bytes_remaining tp) + length (tp_chunks tp) + waits i (sh_world sh))) (sh, wire) (sh', wire')"
    using polled_some [of quiet_rng _ "(sh, wire)"] by (metis prod.exhaust)
  have "tp_state (transfer_status sh' i) = Completed"
    by (rule polls_finish_transfers [OF pair_busy_run [unfolded st(1)] pair_fits st(2,3) polls]) simp
  then show ?thesis using polls unfolding st(1) by blast
qed

end
