(* ===== verification/Plugin_Live.thy ===== *)
theory Plugin_Live
  imports Plugin_Props Shim_Live
begin

text \<open>
  Tests of a request of the plugin end: a test polls, polls finish every transfer of the shim, so after
  finitely many tests that say "not done", and change no request, one says "done" and drops the request.
\<close>

section \<open>Tests of one request\<close>

text \<open>
  The tests of \<open>cs\<close> split at the first one that says done: \<open>cs1\<close> before it, whose tests leave the
  requests alone, and the test with clock \<open>c\<close>, which reports the size and drops the request.
\<close>

definition tests_end :: "u64 \<Rightarrow> plugin_request \<Rightarrow> call_clock list \<Rightarrow> 'g plugin \<Rightarrow> bool" where
  "tests_end rid rq cs st \<longleftrightarrow> (\<exists>cs1 c cs2 st2 st3. cs = cs1 @ c # cs2 \<and>
     test_until rid cs1 st = Some (False, st2) \<and> request_of st2 = request_of st \<and>
     plugin_test c rid True True st2 = Some (NcclSuccess, Some True, Some (rr_result_size rq), st3) \<and>
     request_of st3 = (request_of st)(rid := None))"

lemma tests_end:
  assumes "shim_run R (plugin_options path) n (sh, pl_wire st)" and "pl_shim st = Some sh"
    and "pw_executor (sh_world sh) = Some ex" and "map_of (ex_transfers ex) (rr_transfer_id rq) = Some tp"
    and "request_of st rid = Some rq" and "rid \<noteq> 0"
    and "effort 1 (sh_world sh) (rr_transfer_id rq) < length cs"
  shows "tests_end rid rq cs st"
  using assms(1-5,7)
proof (induction cs arbitrary: st sh ex tp)
  case (Cons c cs)
  let ?i = "rr_transfer_id rq"
  obtain m sh' w' where poll: "poll_transfers c 0.2 (sh, pl_wire st) = (m, sh', w')" by (rule prod_cases3)
  let ?st = "st\<lparr>pl_shim := Some sh', pl_wire := w'\<rparr>"
  have dt: "long_enough 1 0.2" by simp
  have snd_poll: "snd (poll_transfers c 0.2 (sh, pl_wire st)) = (sh', w')" using poll by simp
  from poll_moves [OF Cons.prems(1) plugin_fits Cons.prems(3,4) dt snd_poll] obtain ex' tp' where
    ex': "pw_executor (sh_world sh') = Some ex'" "map_of (ex_transfers ex') ?i = Some tp'" and
    worn: "tp_state tp' = Completed \<or> effort 1 (sh_world sh') ?i < effort 1 (sh_world sh) ?i" by blast
  have test: "plugin_test c rid True s st =
      (if transfer_over (transfer_status sh' ?i)
       then Some (NcclSuccess, Some True, if s then Some (rr_result_size rq) else None, drop_request rid ?st)
       else Some (NcclSuccess, Some False, None, ?st))" for s
    using Cons.prems(2,5) assms(6) poll by (simp add: plugin_test_def request_of_def)
  have same: "request_of ?st = request_of st" by (simp add: request_of_def fun_eq_iff)
  show ?case
  proof (cases "transfer_over (transfer_status sh' ?i)")
    case True
    have "request_of (drop_request rid ?st) = (request_of st)(rid := None)"
      by (auto simp: request_of_def drop_request_def fun_eq_iff)
    with True show ?thesis
      unfolding tests_end_def
      by (rule_tac exI [of _ "[]"], rule_tac exI [of _ c], rule_tac exI [of _ cs], rule_tac exI [of _ st]) (simp add: test)
  next
    case False
    then have "effort 1 (sh_world sh') ?i < length cs"
      using worn transfer_status_lookup [OF ex'] Cons.prems(6) by (auto simp: transfer_over_def)
    moreover have "shim_run R (plugin_options path) n (sh', w')"
      using run_poll [OF Cons.prems(1), of c "0.2"] poll by simp
    ultimately have "tests_end rid rq cs ?st"
      using ex' Cons.prems(5) same by (intro Cons.IH) simp_all
    then obtain cs1 c' cs2 st2 st3 where rest: "cs = cs1 @ c' # cs2" "test_until rid cs1 ?st = Some (False, st2)"
      "request_of st2 = request_of st"
      "plugin_test c' rid True True st2 = Some (NcclSuccess, Some True, Some (rr_result_size rq), st3)"
      "request_of st3 = (request_of st)(rid := None)" unfolding tests_end_def same by blast
    moreover have "test_until rid (c # cs1) st = Some (False, st2)" using rest(2) False by (simp add: test)
    ultimately show ?thesis unfolding tests_end_def
      by (intro exI [of _ "c # cs1"] exI [of _ c'] exI [of _ cs2] exI [of _ st2] exI [of _ st3]) simp
  qed
qed simp

text \<open>A send that succeeds: the request it puts, and the run of the shim after it.\<close>

lemma isend_puts:
  assumes "plugin_sound R k m st" and "Suc k < 2 ^ 64"
    and "plugin_isend c junk cu p data nbytes tag mh b st = Some (NcclSuccess, Some rid, st1)"
  shows "\<exists>rq. rid \<noteq> 0 \<and> request_of st rid = None \<and> request_of st1 = (request_of st)(rid \<mapsto> rq) \<and>
    rr_data rq = data \<and> rr_size rq = nbytes \<and> rr_result_size rq = result_int nbytes"
proof -
  have inv: "request_inv k st" using assms(1) by (simp add: plugin_sound_def)
  obtain rq sh' w' where put: "put_request rq (st\<lparr>pl_shim := Some sh', pl_wire := w'\<rparr>) = (rid, st1)"
    and rq: "rr_data rq = data" "rr_size rq = nbytes" "rr_result_size rq = result_int nbytes"
    using assms(3)
    by (auto simp: plugin_isend_def Let_def split: if_splits option.splits sum.splits prod.splits)
  let ?st = "st\<lparr>pl_shim := Some sh', pl_wire := w'\<rparr>"
  have inv': "request_inv k ?st" and same: "request_of ?st = request_of st"
    using inv by (auto simp: request_inv_def request_of_def)
  have "rid \<noteq> 0" "request_of st rid = None"
    using requests.handle_new [OF inv' assms(2), of rq] put same by simp_all
  moreover have "request_of st1 = (request_of st)(rid \<mapsto> rq)"
    using put by (auto simp: put_request_def request_of_def fun_eq_iff Let_def)
  ultimately show ?thesis using rq by blast
qed

text \<open>
  C21. Posting a send and testing it until it is done leaves the table of requests as it was.  The id was
  free and is not null, and names the request of these data and this size.  However the tests are timed,
  after finitely many one says done: those before it say not done and change no request, it reports the
  size sent, cut to an \<open>int\<close>, and drops the request, and every later test still says done, without a size.
\<close>
theorem send_request_roundtrip:
  assumes "plugin_run env order k m st" and "\<forall>xs. set (order xs) = set xs" and "Suc k < 2 ^ 64"
    and "plugin_isend c junk cu p data nbytes tag mh b st = Some (NcclSuccess, Some rid, st1)"
  shows "rid \<noteq> 0 \<and> request_of st rid = None \<and>
    (\<exists>rq. request_of st1 = (request_of st)(rid \<mapsto> rq) \<and> rr_data rq = data \<and> rr_size rq = nbytes) \<and>
    (\<exists>N. \<forall>cs. N \<le> length cs \<longrightarrow> (\<exists>cs1 c cs2 st2 st3. cs = cs1 @ c # cs2 \<and>
       test_until rid cs1 st1 = Some (False, st2) \<and> request_of st2 = request_of st1 \<and>
       plugin_test c rid True True st2 = Some (NcclSuccess, Some True, Some (result_int nbytes), st3) \<and>
       request_of st3 = request_of st \<and>
       (\<forall>c'. plugin_test c' rid True True st3 = Some (NcclSuccess, Some True, None, st3))))"
proof -
  have sound: "plugin_sound (be_rng env) k m st" using plugin_run_sound [OF assms(1)] assms(2) by simp
  from isend_puts [OF this assms(3,4)] obtain rq where new: "rid \<noteq> 0" "request_of st rid = None"
    and st1: "request_of st1 = (request_of st)(rid \<mapsto> rq)"
    and rq: "rr_data rq = data" "rr_size rq = nbytes" "rr_result_size rq = result_int nbytes" by blast
  have look: "request_of st1 rid = Some rq" by (simp add: st1)
  have "plugin_sound (be_rng env) (Suc k) m st1" by (rule isend_sound [OF sound assms(3,4)])
  then obtain sh path ex where sh: "pl_shim st1 = Some sh" "shim_run (be_rng env) (plugin_options path) (Suc k) (sh, pl_wire st1)"
    "pw_executor (sh_world sh) = Some ex" and known: "\<forall>(i, rq) \<in> set (pl_requests st1). rr_transfer_id rq \<in> ids_of ex"
    by (auto simp: plugin_sound_def shim_part_def split: option.splits)
  have "(rid, rq) \<in> set (pl_requests st1)" using look by (simp add: request_of_def map_of_SomeD)
  then have "rr_transfer_id rq \<in> fst ` set (ex_transfers ex)" using known by (auto simp flip: ids_of_table)
  then obtain tp where tp: "map_of (ex_transfers ex) (rr_transfer_id rq) = Some tp"
    by (metis map_of_eq_None_iff not_Some_eq)
  have over: "plugin_test c' rid True True st3 = Some (NcclSuccess, Some True, None, st3)"
    if "request_of st3 = request_of st" for c' st3
    using new fun_cong [OF that, of rid] by (simp add: plugin_test_def request_of_def)
  have restored: "(request_of st1)(rid := None) = request_of st"
    using new(2) by (auto simp: st1 fun_eq_iff)
  have "\<exists>cs1 c cs2 st2 st3. cs = cs1 @ c # cs2 \<and>
       test_until rid cs1 st1 = Some (False, st2) \<and> request_of st2 = request_of st1 \<and>
       plugin_test c rid True True st2 = Some (NcclSuccess, Some True, Some (result_int nbytes), st3) \<and>
       request_of st3 = request_of st \<and>
       (\<forall>c'. plugin_test c' rid True True st3 = Some (NcclSuccess, Some True, None, st3))"
    if "Suc (effort 1 (sh_world sh) (rr_transfer_id rq)) \<le> length cs" for cs
  proof -
    have "tests_end rid rq cs st1" by (rule tests_end [OF sh(2,1,3) tp look new(1)]) (use that in simp)
    then show ?thesis using over unfolding tests_end_def restored rq(3) by blast
  qed
  then show ?thesis using new st1 rq by blast
qed

theorem send_request_roundtrip_witness:
  "\<exists>rid st1 cs1 c st2 st3. plugin_isend still_clock 0 cuda_absent 4096 16 8 1000 0 True listening =
      Some (NcclSuccess, Some rid, st1) \<and> test_until rid cs1 st1 = Some (False, st2) \<and>
    plugin_test c rid True True st2 = Some (NcclSuccess, Some True, Some 8, st3) \<and>
    request_of st3 = request_of listening"
proof -
  obtain st1 where send: "plugin_isend still_clock 0 cuda_absent 4096 16 8 1000 0 True listening =
      Some (NcclSuccess, Some 1, st1)" using listening_send [of 1000 8 16] by blast
  from send_request_roundtrip [OF listening_run [of "\<lambda>xs. xs"] _ _ send] obtain N where
    N: "\<forall>cs. N \<le> length cs \<longrightarrow> (\<exists>cs1 c cs2 st2 st3. cs = cs1 @ c # cs2 \<and>
       test_until 1 cs1 st1 = Some (False, st2) \<and> request_of st2 = request_of st1 \<and>
       plugin_test c 1 True True st2 = Some (NcclSuccess, Some True, Some (result_int 8), st3) \<and>
       request_of st3 = request_of listening \<and>
       (\<forall>c'. plugin_test c' 1 True True st3 = Some (NcclSuccess, Some True, None, st3)))" by auto
  have "result_int 8 = 8" by (simp add: result_int_def)
  with mp [OF spec [OF N], of "replicate N still_clock"] send show ?thesis by (simp only: length_replicate) blast
qed

end
