(* ===== verification/Shim_Data.thy ===== *)
theory Shim_Data
  imports Shim_Live
begin

text \<open>
  The bytes of a transfer under everything the shim does: other submissions, preemptions, reroutes and
  polls, in any order, leave a transfer on its way, and once it is completed its bytes are delivered.
\<close>

section \<open>A transfer carried by the shim\<close>

definition carried :: "memory \<Rightarrow> transfer_id \<Rightarrow> transfer_progress \<Rightarrow> path_world \<Rightarrow> wire \<Rightarrow> bool" where
  "carried m0 i tp0 w wire \<longleftrightarrow> (\<exists>ex. pw_executor w = Some ex \<and> on_its_way m0 i tp0 (ex, wire, pw_engine w) \<and>
     isolated i tp0 ex \<and> i \<noteq> ex_next_id ex)"

lemma course_carried: "on_course m0 i tp0 w wire \<Longrightarrow> carried m0 i tp0 w wire"
  by (auto simp: on_course_def carried_def footprint_isolated)

lemma carriedE:
  assumes "carried m0 i tp0 w wire" and "pw_executor w = Some ex"
  shows "on_its_way m0 i tp0 (ex, wire, k)" and "isolated i tp0 ex" and "i \<noteq> ex_next_id ex" and "exec_inv ex"
  using assms by (auto simp: carried_def on_its_way_def)

lemma isolated_same: "same_table ex ex' \<Longrightarrow> isolated i tp0 ex' = isolated i tp0 ex"
  by (simp add: footprint_isolated same_table_def)

text \<open>A step of the executor that keeps the table carries the transfer on.\<close>

lemma carried_step:
  assumes "carried m0 i tp0 w wire" and "pw_executor w = Some ex"
    and "exec_step g cb (ex, wire, k) (ex', wire', k')" and "same_table ex ex'" and "pw_executor w' = Some ex'"
  shows "carried m0 i tp0 w' wire'"
proof -
  note old = carriedE [OF assms(1,2)]
  have "isolated_step g cb i tp0 (ex, wire, k) (ex', wire', k')"
    using assms(3) old by (intro isolated_step.intros) simp_all
  from on_its_way_step [OF this old(1)] have "on_its_way m0 i tp0 (ex', wire', pw_engine w')"
    by (simp add: on_its_way_def)
  then show ?thesis
    using assms(4,5) old isolated_same [OF assms(4)] by (auto simp: carried_def same_table_def)
qed

text \<open>Nothing but the executor of the world matters.\<close>

lemma carried_executor:
  "carried m0 i tp0 w wire \<Longrightarrow> pw_executor w' = pw_executor w \<Longrightarrow> carried m0 i tp0 w' wire"
  by (auto simp: carried_def on_its_way_def)

section \<open>Polls\<close>

lemma drain_one_carried:
  assumes carried: "carried m0 i tp0 w wire"
  shows "carried m0 i tp0 (snd (drain_one lm g cur pr w)) wire"
proof -
  obtain ex where ex: "pw_executor w = Some ex" using carried by (auto simp: carried_def)
  have "\<exists>ex'. pw_executor (snd (drain_one lm g cur pr w)) = Some ex' \<and>
      (ex' = ex \<or> (\<exists>path. ex' = snd (reroute g (pr_id pr) path ex)))"
    using ex by (auto simp: drain_one_def case_prod_unfold Let_def)
  then obtain ex' where ex': "pw_executor (snd (drain_one lm g cur pr w)) = Some ex'" and
    "ex' = ex \<or> (\<exists>path. ex' = snd (reroute g (pr_id pr) path ex))" by blast
  then consider "ex' = ex" | path where "ex' = snd (reroute g (pr_id pr) path ex)" by blast
  then show ?thesis
  proof cases
    case 1
    then show ?thesis using carried_executor [OF carried] ex ex' by simp
  next
    case (2 path)
    have "exec_step g (None :: unit completion_fn) (ex, wire, ()) (ex', wire, ())" unfolding 2 by (rule step_reroute)
    from carried_step [OF carried ex this _ ex'] show ?thesis by (simp add: 2)
  qed
qed

lemma drain_pending_carried:
  "carried m0 i tp0 w wire \<Longrightarrow> carried m0 i tp0 (snd (snd (drain_pending lm g cur prs w))) wire"
proof (induction prs arbitrary: w)
  case (Cons pr prs)
  from Cons.IH [OF drain_one_carried [OF Cons.prems]] show ?case
    by (simp add: case_prod_unfold Let_def)
qed simp

lemma drain_carried:
  "carried m0 i tp0 w wire \<Longrightarrow> carried m0 i tp0 (snd (drain_boundary_reroutes lm g cur w)) wire"
  using carried_executor [OF drain_pending_carried [of m0 i tp0 w wire lm g cur "en_pending (pw_engine w)"]]
  by (simp add: drain_boundary_reroutes_def case_prod_unfold Let_def)

lemma tick_drain_carried:
  assumes carried: "carried m0 i tp0 w wire" and run: "tick_and_drain dt utils clock lm w wire = (ids, w', wire')"
  shows "carried m0 i tp0 w' wire'"
proof -
  obtain ex where ex: "pw_executor w = Some ex" using carried by (auto simp: carried_def)
  obtain ex1 en1 n where tick: "(ex1, wire', en1) =
      snd (ib_tick (Some kv_completed) (Some (edges (pw_graph w))) dt utils clock ex wire (pw_engine w))"
    and drain: "drain_boundary_reroutes lm (Some (edges (pw_graph w))) utils
        (w\<lparr>pw_executor := Some ex1, pw_engine := en1\<rparr>) = (n, w')"
    using tick_drain_split [OF ex run] by blast
  let ?r = "ib_tick (Some kv_completed) (Some (edges (pw_graph w))) dt utils clock ex wire (pw_engine w)"
  have "same_table ex (fst (snd ?r))" by simp
  then have table: "same_table ex ex1" by (simp add: tick [symmetric])
  have step: "exec_step (Some (edges (pw_graph w))) (Some kv_completed) (ex, wire, pw_engine w) (ex1, wire', en1)"
    unfolding tick by (rule step_tick)
  have "carried m0 i tp0 (w\<lparr>pw_executor := Some ex1, pw_engine := en1\<rparr>) wire'"
    by (rule carried_step [OF carried ex step table]) simp
  from drain_carried [OF this, of lm "Some (edges (pw_graph w))" utils] show ?thesis by (simp add: drain)
qed

section \<open>Submissions of others\<close>

text \<open>What a transfer entered for a request may write to.\<close>

lemma range_within:
  assumes "in_range a (p + off) n" and "unat off + n \<le> t"
  shows "in_range a p t"
proof -
  have add: "unat (x + y) \<le> unat x + unat y" for x y :: u64
    by (simp only: unat_word_ariths(1) mod_less_eq_dividend)
  have "a - p = (a - (p + off)) + off" by simp
  then have "unat (a - p) \<le> unat (a - (p + off)) + unat off" by (metis add)
  then show ?thesis using assms by (simp add: in_range_def)
qed

definition writes_within :: "ptr \<Rightarrow> nat \<Rightarrow> executor \<Rightarrow> executor \<Rightarrow> bool" where
  "writes_within db n ex ex' \<longleftrightarrow> (\<forall>(j, tq) \<in> set (ex_transfers ex').
     (j, tq) \<in> set (ex_transfers ex) \<or> (\<forall>a. may_write tq a \<longrightarrow> db \<noteq> 0 \<and> in_range a db n))"

lemma enter_writes:
  assumes "ex_transfers ex' = AList.update i tp (ex_transfers ex)"
    and "\<And>a. may_write tp a \<Longrightarrow> db \<noteq> 0 \<and> in_range a db n"
  shows "writes_within db n ex ex'"
  using assms set_update_subset [of i tp "ex_transfers ex"] by (fastforce simp: writes_within_def)

lemma submit_writes:
  "writes_within (so_dst_buf opts) (unat (size_bytes req)) ex (snd (submit g now req path opts ex))"
  by (rule enter_writes [where i = "ex_next_id ex"]) (auto simp: submit_def may_write_def default_progress_def Let_def)

lemma striped_writes:
  assumes "cs = [] \<or> contiguous 0 cs \<and> chunks_cover req cs"
  shows "writes_within (so_dst_buf opts) (unat (size_bytes req)) ex (snd (submit_striped g now req cs opts ex))"
proof (cases cs)
  case Nil
  then show ?thesis using submit_writes by (simp add: submit_striped_def)
next
  case (Cons c cs')
  let ?chs = "stripe_chunks g cs 0 (replicate kIbRailCount False)"
  have cover: "contiguous 0 cs" "(\<Sum>c \<leftarrow> cs. unat (ck_size c)) = unat (size_bytes req)"
    using assms Cons by (auto simp: chunks_cover_def)
  have spans: "spans ?chs = map (\<lambda>c. (ck_offset c, ck_size c)) cs"
    using cover unat_u64_less [of "size_bytes req"] by (intro stripe_chunks_spans) simp_all
  obtain tp where tp: "ex_transfers (snd (submit_striped g now req cs opts ex)) =
      AList.update (ex_next_id ex) tp (ex_transfers ex)" "tp_dst_buf tp = so_dst_buf opts" "tp_chunks tp = ?chs"
    by (simp add: submit_striped_def Cons default_progress_def Let_def del: fold_simps stripe_chunks.simps)
  show ?thesis
  proof (rule enter_writes [OF tp(1)])
    fix a assume "may_write tp a"
    then obtain ch where ch: "ch \<in> set ?chs" "in_range a (so_dst_buf opts + ch_offset ch) (unat (ch_size ch))"
      and db: "so_dst_buf opts \<noteq> 0" by (auto simp: may_write_def tp)
    have "(ch_offset ch, ch_size ch) \<in> set (spans ?chs)"
      unfolding list.set_map by (rule image_eqI [OF _ ch(1)]) simp
    then have "unat (ch_offset ch) + unat (ch_size ch) \<le> unat (size_bytes req)"
      unfolding spans using contiguous_within [OF cover(1)] cover(2) by auto
    with range_within [OF ch(2)] db show "so_dst_buf opts \<noteq> 0 \<and> in_range a (so_dst_buf opts) (unat (size_bytes req))"
      by simp
  qed
qed

text \<open>The calls of the executor that scheduling a request makes.\<close>

lemma schedule_calls:
  assumes "pw_executor w = Some ex" and "schedule_and_execute lm g now req utils opts w = (i, w')"
  shows "\<exists>ex1 ex'. pw_executor w' = Some ex' \<and> (ex1 = ex \<or> (\<exists>es. ex1 = snd (preempt_sharing es 8 ex))) \<and>
    ((\<exists>path. ex' = snd (submit g now req path opts ex1)) \<or>
     (\<exists>cs. (cs = [] \<or> contiguous 0 cs \<and> chunks_cover req cs) \<and> ex' = snd (submit_striped g now req cs opts ex1)))"
proof (cases "traffic req = KVMigration \<and> kKvChunkBytes < size_bytes req")
  case True
  define cs where "cs = map to_chunk_path (fst (stripe_kv_migration lm req utils kKvChunkBytes w))"
  have "pw_executor w' = Some (snd (submit_striped g now req cs opts ex))"
    using True assms by (auto simp: schedule_and_execute_def cs_def case_prod_unfold Let_def)
  moreover have "cs = [] \<or> contiguous 0 cs \<and> chunks_cover req cs"
    using striped_chunks [of lm req utils w] by (simp add: cs_def)
  ultimately show ?thesis by blast
next
  case False
  obtain ex1 where ex1: "pw_executor (snd (select_path lm req utils w)) = Some ex1"
    "ex1 = ex \<or> (\<exists>es. ex1 = snd (preempt_sharing es 8 ex))"
    using select_table [OF assms(1) refl, of lm req utils] by blast
  then have "pw_executor w' = Some (snd (submit g now req (fst (select_path lm req utils w)) opts ex1))"
    using False assms by (auto simp: schedule_and_execute_def case_prod_unfold Let_def split: if_splits)
  with ex1(2) show ?thesis by blast
qed

text \<open>A decision, which may preempt, carries the transfer on.\<close>

lemma preempted_carried:
  assumes carried: "carried m0 i tp0 w wire" and ex: "pw_executor w = Some ex" and w1: "pw_executor w1 = Some ex1"
    and pre: "ex1 = ex \<or> (\<exists>es. ex1 = snd (preempt_sharing es 8 ex))"
  shows "carried m0 i tp0 w1 wire"
proof (cases "ex1 = ex")
  case True
  then show ?thesis using carried_executor [OF carried] ex w1 by simp
next
  case False
  then obtain es where es: "ex1 = snd (preempt_sharing es 8 ex)" using pre by blast
  have "exec_step None (None :: unit completion_fn) (ex, wire, ()) (ex1, wire, ())" unfolding es by (rule step_preempt)
  from carried_step [OF carried ex this _ w1] show ?thesis by (simp add: es)
qed

lemma select_carried:
  assumes "carried m0 i tp0 w wire"
  shows "carried m0 i tp0 (snd (select_path lm req utils w)) wire"
proof -
  obtain ex where ex: "pw_executor w = Some ex" using assms by (auto simp: carried_def)
  obtain ex1 where "pw_executor (snd (select_path lm req utils w)) = Some ex1"
    "ex1 = ex \<or> (\<exists>es. ex1 = snd (preempt_sharing es 8 ex))"
    using select_table [OF ex refl, of lm req utils] by blast
  then show ?thesis by (rule preempted_carried [OF assms ex])
qed

text \<open>Another request carries the transfer on when its destination is none or apart from the buffers.\<close>

lemma entered_carried:
  assumes carried: "carried m0 i tp0 w wire" and ex: "pw_executor w = Some ex"
    and step: "exec_step g cb (ex, wire, k) (ex', wire, k)" and writes: "writes_within db n ex ex'"
    and apart: "\<And>a. db \<noteq> 0 \<Longrightarrow> in_range a db n \<Longrightarrow> \<not> in_buffers tp0 a"
    and next_id: "i \<noteq> ex_next_id ex'" and ex': "pw_executor w' = Some ex'"
  shows "carried m0 i tp0 w' wire"
proof -
  note old = carriedE [OF carried ex]
  have "isolated_step g cb i tp0 (ex, wire, k) (ex', wire, k)"
    using step old by (intro isolated_step.intros) simp_all
  from on_its_way_step [OF this old(1)] have "on_its_way m0 i tp0 (ex', wire, pw_engine w')"
    by (simp add: on_its_way_def)
  moreover have "isolated i tp0 ex'"
    using old(2) writes apart unfolding isolated_def writes_within_def apart_def by blast
  ultimately show ?thesis using ex' next_id by (auto simp: carried_def)
qed

lemma schedule_carried:
  assumes carried: "carried m0 i tp0 w wire" and run: "schedule_and_execute lm g now req utils opts w = (j, w')"
    and apart: "\<And>a. so_dst_buf opts \<noteq> 0 \<Longrightarrow> in_range a (so_dst_buf opts) (unat (size_bytes req)) \<Longrightarrow> \<not> in_buffers tp0 a"
    and next_id: "\<And>ex. pw_executor w' = Some ex \<Longrightarrow> i \<noteq> ex_next_id ex"
  shows "carried m0 i tp0 w' wire"
proof -
  obtain ex where ex: "pw_executor w = Some ex" using carried by (auto simp: carried_def)
  obtain ex1 ex' where ex': "pw_executor w' = Some ex'" and
    pre: "ex1 = ex \<or> (\<exists>es. ex1 = snd (preempt_sharing es 8 ex))" and
    enter: "(\<exists>path. ex' = snd (submit g now req path opts ex1)) \<or>
     (\<exists>cs. (cs = [] \<or> contiguous 0 cs \<and> chunks_cover req cs) \<and> ex' = snd (submit_striped g now req cs opts ex1))"
    using schedule_calls [OF ex run] by blast
  let ?w1 = "w\<lparr>pw_executor := Some ex1\<rparr>"
  have w1: "carried m0 i tp0 ?w1 wire" using pre by (intro preempted_carried [OF carried ex]) simp_all
  from enter have "exec_step g (None :: unit completion_fn) (ex1, wire, ()) (ex', wire, ()) \<and>
      writes_within (so_dst_buf opts) (unat (size_bytes req)) ex1 ex'"
  proof (elim disjE exE conjE)
    fix path assume "ex' = snd (submit g now req path opts ex1)"
    then show ?thesis using submit_writes by (simp add: step_submit)
  next
    fix cs assume "cs = []" "ex' = snd (submit_striped g now req cs opts ex1)"
    then show ?thesis
      using submit_writes step_submit [of g None ex1 wire "()"] by (simp add: submit_striped_def)
  next
    fix cs assume cs: "contiguous 0 cs" "chunks_cover req cs" and ex': "ex' = snd (submit_striped g now req cs opts ex1)"
    show ?thesis unfolding ex' using cs striped_writes [of cs req] by (simp add: step_striped)
  qed
  then have step: "exec_step g (None :: unit completion_fn) (ex1, wire, ()) (ex', wire, ())"
    and writes: "writes_within (so_dst_buf opts) (unat (size_bytes req)) ex1 ex'" by simp_all
  show ?thesis
    by (rule entered_carried [OF w1 _ step writes apart next_id [OF ex'] ex']) simp_all
qed

section \<open>Company\<close>

text \<open>
  What may go on around a transfer whose buffers are the addresses \<open>mine\<close>, \<open>k\<close> being the number of
  submissions: any operation of the shim, as long as no submission has a destination among them, and
  whatever else the host does as long as it leaves them alone and the transport ready.
\<close>

inductive company ::
  "'g rng_ops \<Rightarrow> (ptr \<Rightarrow> bool) \<Rightarrow> 'g shim \<times> wire \<Rightarrow> nat \<Rightarrow> 'g shim \<times> wire \<Rightarrow> bool" for R mine st
where
  company_none: "company R mine st 0 st"
| company_submit: "company R mine st k st' \<Longrightarrow> (\<And>a. db \<noteq> 0 \<Longrightarrow> in_range a db (unat nbytes) \<Longrightarrow> \<not> mine a) \<Longrightarrow>
    company R mine st (Suc k) (snd (submit_transfer c junk cls src dst nbytes deadline sb db st'))"
| company_poll: "company R mine st k st' \<Longrightarrow> company R mine st k (snd (poll_transfers c dt st'))"
| company_select: "company R mine st k (sh, w) \<Longrightarrow>
    company R mine st k (sh\<lparr>sh_world := snd (select_path (sh_predictor sh) req utils (sh_world sh))\<rparr>, w)"
| company_sweep: "company R mine st k (sh, w) \<Longrightarrow> company R mine st k (run_profiling_sweep rings sh, w)"
| company_telemetry: "company R mine st k (sh, w) \<Longrightarrow> daemon_step R (sh_telemetry sh) d \<Longrightarrow>
    company R mine st k (sh\<lparr>sh_telemetry := d\<rparr>, w)"
| company_open: "company R mine st k (sh, w) \<Longrightarrow> company R mine st k (sh\<lparr>sh_ucx := snd (open_iface cfg (sh_ucx sh))\<rparr>, w)"
| company_close: "company R mine st k (sh, w) \<Longrightarrow> company R mine st k (sh\<lparr>sh_ucx := close_iface (sh_ucx sh)\<rparr>, w)"
| company_host: "company R mine st k (sh, w) \<Longrightarrow> ib_ready (fst w') \<Longrightarrow> (\<And>a. mine a \<Longrightarrow> snd w' a = snd w a) \<Longrightarrow>
    company R mine st k (sh, w')"

lemma company_run: "company R mine st k st' \<Longrightarrow> shim_run R opts n st \<Longrightarrow> shim_run R opts (n + k) st'"
  by (induction rule: company.induct) (auto intro: shim_run.intros)

lemma submit_carried:
  assumes sound: "shim_sound es n sh" and n: "Suc (Suc n) < 2 ^ 64" and carried: "carried m0 i tp0 (sh_world sh) wire"
    and apart: "\<And>a. db \<noteq> 0 \<Longrightarrow> in_range a db (unat nbytes) \<Longrightarrow> \<not> in_buffers tp0 a"
    and run: "snd (submit_transfer c junk cls src dst nbytes deadline sb db (sh, wire)) = (sh', wire')"
  shows "carried m0 i tp0 (sh_world sh') wire'"
proof -
  define rq where "rq = \<lparr>rq_source = src, rq_dest = dst, size_bytes = nbytes, traffic = cls, deadline_us = deadline\<rparr>"
  let ?opts = "\<lparr>so_src_buf = sb, so_dst_buf = db\<rparr>"
  have world: "world_sound es n (sh_world sh)" using sound by (simp add: shim_sound_def)
  obtain ex where ex: "pw_executor (sh_world sh) = Some ex" using carried by (auto simp: carried_def)
  obtain j w1 where sched: "schedule_and_execute (sh_predictor sh) (Some (shim_edges sh)) (cl_now c) rq
      (current_utils sh) ?opts (sh_world sh) = (j, w1)" by (rule prod.exhaust)
  have fresh: "i \<noteq> ex_next_id ex1" if ex1: "pw_executor w1 = Some ex1" for ex1
  proof -
    have "ex_next_id ex1 = of_nat (Suc (Suc n))"
      using schedule_sound [OF world sched] ex1 by (simp add: world_sound_def)
    moreover have "ids_of ex \<subseteq> of_nat ` {1..Suc n}" using world ex by (fastforce simp: world_sound_def)
    then have "(of_nat (Suc (Suc n)) :: u64) \<notin> ids_of ex" using n by (rule next_id_fresh(1))
    moreover have "i \<in> ids_of ex"
      using carriedE(1) [OF carried ex, of "()"] unfolding ids_of_table on_its_way_def by (force dest: map_of_SomeD)
    ultimately show ?thesis by metis
  qed
  have "carried m0 i tp0 w1 wire"
    by (rule schedule_carried [OF carried sched]) (use apart fresh in \<open>simp_all add: rq_def\<close>)
  moreover obtain ids w2 wire2 where td: "tick_and_drain 0.05 (current_utils sh) (cl_tick c) (sh_predictor sh) w1 wire =
      (ids, w2, wire2)" by (rule prod_cases3)
  ultimately have "carried m0 i tp0 w2 wire2" by (rule tick_drain_carried)
  then show ?thesis using run ex sched td by (auto simp: submit_transfer_def rq_def Let_def)
qed

lemma poll_carried:
  assumes "carried m0 i tp0 (sh_world sh) wire" and "snd (poll_transfers c dt (sh, wire)) = (sh', wire')"
  shows "carried m0 i tp0 (sh_world sh') wire'"
proof -
  obtain ids w' wr where td: "tick_and_drain dt (current_utils sh) (cl_tick c) (sh_predictor sh) (sh_world sh) wire =
      (ids, w', wr)" by (rule prod_cases3)
  from tick_drain_carried [OF assms(1) td] assms(2) td show ?thesis by (auto simp: poll_transfers_def)
qed

lemma host_carried:
  assumes "carried m0 i tp0 w wire" and "ib_ready (fst wire')"
    and same: "\<And>a. in_buffers tp0 a \<Longrightarrow> snd wire' a = snd wire a"
  shows "carried m0 i tp0 w wire'"
proof -
  obtain ex tp where ex: "pw_executor w = Some ex" "isolated i tp0 ex" "i \<noteq> ex_next_id ex" "exec_inv ex"
    and tp: "map_of (ex_transfers ex) i = Some tp" "layout_ok tp" "tp_src_buf tp = tp_src_buf tp0"
      "tp_dst_buf tp = tp_dst_buf tp0" "tp_bytes_total tp = tp_bytes_total tp0" "spans (tp_chunks tp) = spans (tp_chunks tp0)"
    and del: "delivered (snd wire) tp (tp_chunks tp)"
    and src: "\<forall>x < unat (tp_bytes_total tp). snd wire (tp_src_buf tp + of_nat x) = m0 (tp_src_buf tp + of_nat x)"
    using assms(1) by (auto simp: carried_def on_its_way_def)
  have "in_buffers tp a = in_buffers tp0 a" for a using tp by (simp add: in_buffers_def)
  then have only: "only_copies tp (snd wire) (snd wire')" using same by (intro same_bytes_only_copies) simp
  have "\<forall>ch \<in> set (tp_chunks tp). chunk_inv ch"
    using exec_inv_lookup [OF ex(4) tp(1)] by (simp add: tp_inv_def accounted_def)
  with delivered_mono [OF only del] tp(2) have "delivered (snd wire') tp (tp_chunks tp)" by (simp add: layout_ok_def)
  with ex tp src only assms(2) show ?thesis by (auto simp: carried_def on_its_way_def only_copies_def)
qed

lemma company_carried:
  assumes "company R (in_buffers tp0) st k st'" and "shim_run R opts n st"
    and fits: "cluster_fits (io_num_nodes opts) (io_gpus_per_node opts)" and "n + k + 1 < 2 ^ 64"
    and "carried m0 i tp0 (sh_world (fst st)) (snd st)"
  shows "carried m0 i tp0 (sh_world (fst st')) (snd st')"
  using assms(1,2,4,5)
proof (induction rule: company.induct)
  case (company_submit k st' db nbytes c junk cls src dst deadline sb)
  obtain sh wire where st': "st' = (sh, wire)" by (rule prod.exhaust)
  obtain sh' wire' where run: "snd (submit_transfer c junk cls src dst nbytes deadline sb db (sh, wire)) = (sh', wire')"
    by (rule prod.exhaust)
  have "shim_sound (cluster_edges opts) (n + k) sh"
    using shim_run_sound [OF company_run [OF company_submit.hyps(1) company_submit.prems(1)] fits] by (simp add: st')
  from submit_carried [OF this _ _ company_submit.hyps(2) run] company_submit.IH company_submit.prems
  show ?case by (simp add: st' run)
next
  case (company_poll k st' c dt)
  then show ?case by (metis poll_carried prod.collapse add_leD1)
next
  case (company_host k sh w w')
  then show ?case using host_carried by simp
next
  case (company_select k sh w req utils)
  then show ?case using select_carried by simp
qed (auto intro: carried_executor)

lemma submitted_carried:
  assumes "shim_run R opts n (sh, wire)" and "cluster_fits (io_num_nodes opts) (io_gpus_per_node opts)"
    and "n + k + 2 < 2 ^ 64" and "pw_executor (sh_world sh) = Some ex"
    and "ib_ready (fst wire)" and "buffers_sound \<lparr>so_src_buf = sb, so_dst_buf = db\<rparr> nbytes"
    and "buffers_free ex sb db (unat nbytes)"
    and "submit_transfer c junk cls src dst nbytes deadline sb db (sh, wire) = (i, st1)"
    and "company R (\<lambda>a. in_range a sb (unat nbytes) \<or> in_range a db (unat nbytes)) st1 k (sh2, wire2)"
  shows "\<exists>tp0. carried (snd wire) i tp0 (sh_world sh2) wire2 \<and>
    tp_src_buf tp0 = sb \<and> tp_dst_buf tp0 = db \<and> tp_bytes_total tp0 = nbytes \<and>
    length (tp_chunks tp0) \<le> chunk_limit nbytes"
proof -
  obtain sh1 wire1 where st1: "st1 = (sh1, wire1)" by (rule prod.exhaust)
  have sound: "shim_sound (cluster_edges opts) n sh" using shim_run_sound [OF assms(1,2)] by simp
  have "Suc n < 2 ^ 64" using assms(3) by simp
  from submit_course [OF sound assms(4) this assms(5-7) assms(8) [unfolded st1]] obtain tp0 where
    course: "on_course (snd wire) i tp0 (sh_world sh1) wire1" and
    tp0: "tp_src_buf tp0 = sb" "tp_dst_buf tp0 = db" "tp_bytes_total tp0 = nbytes"
      "length (tp_chunks tp0) \<le> chunk_limit nbytes" by blast
  have run: "shim_run R opts (Suc n) st1"
    using run_submit [OF assms(1), of c junk cls src dst nbytes deadline sb db] by (simp add: assms(8))
  have "in_buffers tp0 = (\<lambda>a. in_range a sb (unat nbytes) \<or> in_range a db (unat nbytes))"
    by (simp add: in_buffers_def tp0 fun_eq_iff)
  from company_carried [OF assms(9) [folded this] run assms(2)] course_carried [OF course] assms(3)
  have "carried (snd wire) i tp0 (sh_world sh2) wire2" by (simp add: st1)
  with tp0 show ?thesis by blast
qed

lemma carried_delivers:
  assumes "carried m0 i tp0 (sh_world sh) wire" and "tp_state (transfer_status sh i) = Completed"
    and "x < unat (tp_bytes_total tp0)"
  shows "snd wire (tp_dst_buf tp0 + of_nat x) = m0 (tp_src_buf tp0 + of_nat x)"
    and "snd wire (tp_src_buf tp0 + of_nat x) = m0 (tp_src_buf tp0 + of_nat x)"
proof -
  obtain ex tp where tp: "pw_executor (sh_world sh) = Some ex" "map_of (ex_transfers ex) i = Some tp"
    and way: "on_its_way m0 i tp0 (ex, wire, pw_engine (sh_world sh))"
    using assms(1) by (auto simp: carried_def on_its_way_def)
  show "snd wire (tp_src_buf tp0 + of_nat x) = m0 (tp_src_buf tp0 + of_nat x)"
    using way assms(3) by (auto simp: on_its_way_def)
  show "snd wire (tp_dst_buf tp0 + of_nat x) = m0 (tp_src_buf tp0 + of_nat x)"
    using on_its_way_completed [OF way _ _ assms(3), of tp] tp assms(2) by (simp add: transfer_status_lookup)
qed
section \<open>What company leaves alone\<close>

text \<open>No transfer of the table may write to the addresses \<open>mine\<close>.\<close>

definition leaves_alone :: "(ptr \<Rightarrow> bool) \<Rightarrow> path_world \<Rightarrow> bool" where
  "leaves_alone mine w \<longleftrightarrow> (\<forall>ex. pw_executor w = Some ex \<longrightarrow>
     (\<forall>(j, W) \<in> set (footprint ex). \<forall>a. W a \<longrightarrow> \<not> mine a))"

lemma leaves_alone_table:
  assumes "leaves_alone mine w" and "\<And>ex'. pw_executor w' = Some ex' \<Longrightarrow>
    \<exists>ex. pw_executor w = Some ex \<and> same_table ex ex'"
  shows "leaves_alone mine w'"
  unfolding leaves_alone_def
proof (intro allI impI)
  fix ex' assume "pw_executor w' = Some ex'"
  with assms(2) obtain ex where "pw_executor w = Some ex" "footprint ex' = footprint ex"
    by (auto simp: same_table_def)
  with assms(1) show "\<forall>(j, W) \<in> set (footprint ex'). \<forall>a. W a \<longrightarrow> \<not> mine a" by (simp add: leaves_alone_def)
qed

lemma tick_drain_waits:
  assumes "pw_executor w = Some ex" and "tick_and_drain dt utils clock lm w wire = (ids, w', wire')"
  shows "waits i w' \<le> waits i w"
proof -
  obtain ex1 en1 n where "en_pending en1 = en_pending (pw_engine w)"
    and "drain_boundary_reroutes lm (Some (edges (pw_graph w))) utils
        (w\<lparr>pw_executor := Some ex1, pw_engine := en1\<rparr>) = (n, w')"
    using tick_drain_split [OF assms] by blast
  then show ?thesis
    using drain_pending_waits [of i lm "Some (edges (pw_graph w))" utils "en_pending en1"
        "w\<lparr>pw_executor := Some ex1, pw_engine := en1\<rparr>"]
    by (auto simp: drain_boundary_reroutes_def case_prod_unfold Let_def split: if_splits)
qed

lemma schedule_leaves_alone:
  assumes ex: "pw_executor w = Some ex" and alone: "leaves_alone mine w"
    and run: "schedule_and_execute lm g now req utils opts w = (i, w')"
    and apart: "\<And>a. so_dst_buf opts \<noteq> 0 \<Longrightarrow> in_range a (so_dst_buf opts) (unat (size_bytes req)) \<Longrightarrow> \<not> mine a"
  shows "leaves_alone mine w'"
proof -
  obtain ex1 ex' where ex': "pw_executor w' = Some ex'" and
    pre: "ex1 = ex \<or> (\<exists>es. ex1 = snd (preempt_sharing es 8 ex))" and
    enter: "(\<exists>path. ex' = snd (submit g now req path opts ex1)) \<or>
     (\<exists>cs. (cs = [] \<or> contiguous 0 cs \<and> chunks_cover req cs) \<and> ex' = snd (submit_striped g now req cs opts ex1))"
    using schedule_calls [OF ex run] by blast
  have "same_table ex ex1" using pre by auto
  then have "\<forall>(j, W) \<in> set (footprint ex1). \<forall>a. W a \<longrightarrow> \<not> mine a"
    using alone ex by (simp add: leaves_alone_def same_table_def)
  then have old: "\<forall>(j, tq) \<in> set (ex_transfers ex1). \<forall>a. may_write tq a \<longrightarrow> \<not> mine a"
    by (auto simp: footprint_def)
  have "writes_within (so_dst_buf opts) (unat (size_bytes req)) ex1 ex'"
    using enter submit_writes striped_writes by fastforce
  then have "\<forall>(j, tq) \<in> set (ex_transfers ex'). \<forall>a. may_write tq a \<longrightarrow> \<not> mine a"
    using old apart unfolding writes_within_def by blast
  then show ?thesis using ex' by (auto simp: leaves_alone_def footprint_def)
qed

text \<open>A preemption adds at most one entry for each transfer.\<close>

lemma waits_in_distinct:
  "distinct ids \<Longrightarrow> waits_in i (map (\<lambda>i. \<lparr>pr_id = i, pr_avoid_edges = es\<rparr>) ids) = (if i \<in> set ids then 1 else 0)"
  by (induction ids) auto

lemma preempt_ids_distinct: "exec_inv ex \<Longrightarrow> distinct (fst (preempt_sharing es n ex))"
proof -
  assume inv: "exec_inv ex"
  have "map (\<lambda>kv. tp_id (snd kv)) (preempt_chosen es n ex) = map fst (preempt_chosen es n ex)"
    using inv preempt_chosen_hit [of _ es n ex] by (intro map_cong) (force simp: exec_inv_def)+
  moreover have "distinct (map fst (preempt_chosen es n ex))"
    using inv by (auto simp: exec_inv_def preempt_chosen_def take_map [symmetric] distinct_map
        intro!: distinct_take intro: inj_on_subset)
  ultimately show ?thesis by (simp only: preempt_sharing_alt fst_conv)
qed

text \<open>A submission and a poll of the shim.\<close>

lemma schedule_waits:
  assumes ex: "pw_executor w = Some ex" and inv: "exec_inv ex"
    and run: "schedule_and_execute lm g now req utils opts w = (j, w')"
  shows "waits i w' \<le> waits i w + 1"
proof (cases "traffic req = KVMigration \<and> kKvChunkBytes < size_bytes req")
  case True
  then show ?thesis using ex run by (auto simp: schedule_and_execute_def case_prod_unfold Let_def)
next
  case False
  let ?w1 = "snd (select_path lm req utils w)"
  have "waits i ?w1 \<le> waits i w + 1"
    using select_table [OF ex refl, of lm req utils] waits_in_distinct [OF preempt_ids_distinct [OF inv]] by fastforce
  moreover have "en_pending (pw_engine w') = en_pending (pw_engine ?w1)"
    using False ex run by (auto simp: schedule_and_execute_def case_prod_unfold Let_def split: if_splits)
  ultimately show ?thesis by simp
qed

text \<open>What one operation keeps of the executor's presence, other addresses and the waiting entries.\<close>

definition steady :: "(ptr \<Rightarrow> bool) \<Rightarrow> transfer_id \<Rightarrow> nat \<Rightarrow> path_world \<Rightarrow> bool" where
  "steady mine i n w \<longleftrightarrow> pw_executor w \<noteq> None \<and> leaves_alone mine w \<and> waits i w \<le> n"

lemma tick_drain_steady:
  assumes "steady mine i n w" and "tick_and_drain dt utils clock lm w wire = (ids, w', wire')"
  shows "steady mine i n w'"
proof -
  obtain ex where ex: "pw_executor w = Some ex" using assms(1) by (auto simp: steady_def)
  from tick_drain_table [OF ex assms(2)] obtain ex' where
    ex': "pw_executor w' = Some ex'" "same_table ex ex'" by blast
  have "leaves_alone mine w" using assms(1) by (simp add: steady_def)
  then have "leaves_alone mine w'"
    by (rule leaves_alone_table) (use ex ex'(1,2) in simp)
  moreover have "waits i w' \<le> n" using assms(1) tick_drain_waits [OF ex assms(2), of i] unfolding steady_def by linarith
  ultimately show ?thesis using ex'(1) by (simp add: steady_def)
qed

lemma submit_steady:
  assumes sound_st: "shim_sound es m (fst st)" and steady_st: "steady mine i n (sh_world (fst st))"
    and apart: "\<And>a. db \<noteq> 0 \<Longrightarrow> in_range a db (unat nbytes) \<Longrightarrow> \<not> mine a"
  shows "steady mine i (Suc n) (sh_world (fst (snd (submit_transfer c junk cls src dst nbytes deadline sb db st))))"
proof -
  obtain sh wire where st: "st = (sh, wire)" by (rule prod.exhaust)
  have sound: "shim_sound es m sh" and steady: "steady mine i n (sh_world sh)"
    using sound_st steady_st by (simp_all add: st)
  define rq where "rq = \<lparr>rq_source = src, rq_dest = dst, size_bytes = nbytes, traffic = cls, deadline_us = deadline\<rparr>"
  let ?opts = "\<lparr>so_src_buf = sb, so_dst_buf = db\<rparr>"
  obtain ex where ex: "pw_executor (sh_world sh) = Some ex" using steady by (auto simp: steady_def)
  have inv: "exec_inv ex" using sound ex by (simp add: shim_sound_def world_sound_def world_ok_def)
  obtain j w1 where sched: "schedule_and_execute (sh_predictor sh) (Some (shim_edges sh)) (cl_now c) rq
      (current_utils sh) ?opts (sh_world sh) = (j, w1)" by (rule prod.exhaust)
  have "leaves_alone mine w1"
    by (rule schedule_leaves_alone [OF ex _ sched]) (use steady apart in \<open>simp_all add: steady_def rq_def\<close>)
  moreover have "waits i w1 \<le> Suc n" using schedule_waits [OF ex inv sched, of i] steady by (simp add: steady_def)
  moreover have "pw_executor w1 \<noteq> None" using schedule_table [OF ex inv sched] by auto
  ultimately have "steady mine i (Suc n) w1" by (simp add: steady_def)
  moreover obtain ids w2 wire2 where td: "tick_and_drain 0.05 (current_utils sh) (cl_tick c) (sh_predictor sh) w1 wire =
      (ids, w2, wire2)" by (rule prod_cases3)
  ultimately have "steady mine i (Suc n) w2" by (rule tick_drain_steady)
  then show ?thesis using ex sched td by (simp add: st submit_transfer_def rq_def Let_def)
qed

lemma poll_steady:
  assumes "steady mine i n (sh_world (fst st))"
  shows "steady mine i n (sh_world (fst (snd (poll_transfers c dt st))))"
proof -
  obtain sh wire where st: "st = (sh, wire)" by (rule prod.exhaust)
  obtain ids w' wr where td: "tick_and_drain dt (current_utils sh) (cl_tick c) (sh_predictor sh) (sh_world sh) wire =
      (ids, w', wr)" by (rule prod_cases3)
  from tick_drain_steady [OF _ td] assms td show ?thesis by (simp add: poll_transfers_def st)
qed

section \<open>Properties\<close>

text \<open>
  C1. Delivery in company.  Submit a request with sound buffers that no transfer of the table may write to,
  over a ready transport, to a shim with an executor.  Then let the shim do anything, in any order:
  other submissions of any class and size without a destination among the buffers, with the preemptions
  they cause, polls with the reroutes they make, sweeps, telemetry, opening and closing of the
  transport, while the host does what it likes elsewhere.  Whenever the transfer is completed, every
  byte of its destination is the byte its source held when it was submitted.
\<close>
theorem shim_delivers_in_company:
  assumes "shim_run R opts n (sh, wire)" and "cluster_fits (io_num_nodes opts) (io_gpus_per_node opts)"
    and "n + k + 2 < 2 ^ 64" and "pw_executor (sh_world sh) = Some ex"
    and "ib_ready (fst wire)" and "buffers_sound \<lparr>so_src_buf = sb, so_dst_buf = db\<rparr> nbytes"
    and "buffers_free ex sb db (unat nbytes)"
    and "submit_transfer c junk cls src dst nbytes deadline sb db (sh, wire) = (i, st1)"
    and "company R (\<lambda>a. in_range a sb (unat nbytes) \<or> in_range a db (unat nbytes)) st1 k (sh2, wire2)"
    and "tp_state (transfer_status sh2 i) = Completed"
  shows "\<forall>x < unat nbytes. snd wire2 (db + of_nat x) = snd wire (sb + of_nat x)"
proof -
  obtain tp0 where "carried (snd wire) i tp0 (sh_world sh2) wire2"
    and tp0: "tp_src_buf tp0 = sb" "tp_dst_buf tp0 = db" "tp_bytes_total tp0 = nbytes"
    using submitted_carried [OF assms(1-9)] by blast
  from carried_delivers(1) [OF this(1) assms(10)] show ?thesis by (simp add: tp0)
qed

text \<open>Polls are company; enough of them complete a transfer.\<close>

lemma company_polls:
  assumes "company R mine st k st'"
  shows "\<exists>st2. polled R 1 m st' st2 \<and> company R mine st k st2"
proof (induction m)
  case 0
  then show ?case using assms polled_none by blast
next
  case (Suc m)
  then obtain st2 where st2: "polled R 1 m st' st2" "company R mine st k st2" by blast
  have "polled R 1 (Suc m) st' (snd (poll_transfers still_clock 1 st2))" using st2(1) by (rule polled_poll) simp_all
  with company_poll [OF st2(2)] show ?case by blast
qed

lemma company_finishes:
  assumes "company R mine st k (sh, wire)" and "shim_run R opts n st"
    and fits: "cluster_fits (io_num_nodes opts) (io_gpus_per_node opts)"
    and "pw_executor (sh_world sh) = Some ex" and "map_of (ex_transfers ex) i = Some tp"
  shows "\<exists>sh' wire'. company R mine st k (sh', wire') \<and> tp_state (transfer_status sh' i) = Completed"
proof -
  let ?m = "Suc (unat (tp_bytes_remaining tp) + length (tp_chunks tp) + waits i (sh_world sh))"
  obtain sh' wire' where st': "polled R 1 ?m (sh, wire) (sh', wire')" "company R mine st k (sh', wire')"
    using company_polls [OF assms(1), of ?m] by (metis prod.exhaust)
  have "tp_state (transfer_status sh' i) = Completed"
    by (rule polls_finish [OF company_run [OF assms(1,2)] fits assms(4,5) st'(1)]) simp
  then show ?thesis using st'(2) by blast
qed

theorem shim_delivers_in_company_witness:
  "\<exists>sh wire. company quiet_rng (\<lambda>a. in_range a 16 8 \<or> in_range a 64 8) pair_busy 1 (sh, wire) \<and> snd wire 69 = 9"
proof -
  let ?mine = "\<lambda>a. in_range a 16 (unat (8 :: u64)) \<or> in_range a 64 (unat (8 :: u64))"
  obtain i st1 where sub: "submit_transfer still_clock 0 KVMigration (ue_local pair_ep) (ue_remote pair_ep) 8 0 16 64
      (pair_shim, pair_wire) = (i, st1)" by (rule prod.exhaust)
  then have st1: "pair_busy = st1" by (simp add: pair_busy_def)
  obtain sh2 wire2 where st2: "snd (submit_transfer still_clock 0 TensorParallel (ue_local pair_ep) (ue_remote pair_ep)
      4096 5 0 0 st1) = (sh2, wire2)" by (rule prod.exhaust)
  have two: "company quiet_rng ?mine st1 1 (sh2, wire2)"
    using company_submit [OF company_none, of 0 4096 ?mine quiet_rng st1 still_clock 0 TensorParallel] st2 [symmetric] by simp
  obtain tp0 where "carried (snd pair_wire) i tp0 (sh_world sh2) wire2"
    using submitted_carried [OF pair_run pair_fits _ pair_shim_simps(1,4) pair_buffers pair_shim_simps(5) sub two] by auto
  then obtain ex tp where "pw_executor (sh_world sh2) = Some ex" "map_of (ex_transfers ex) i = Some tp"
    by (auto simp: carried_def on_its_way_def)
  from company_finishes [OF two _ pair_fits this] pair_busy_run obtain sh3 wire3 where
    st3: "company quiet_rng ?mine st1 1 (sh3, wire3)" "tp_state (transfer_status sh3 i) = Completed"
    unfolding st1 by blast
  have "\<forall>x < unat (8 :: u64). snd wire3 (64 + of_nat x) = snd pair_wire (16 + of_nat x)"
    by (rule shim_delivers_in_company [OF pair_run pair_fits _ pair_shim_simps(1,4) pair_buffers pair_shim_simps(5) sub st3])
      simp
  from this [rule_format, of 5] have "snd wire3 69 = 9" by (simp add: pair_wire_def)
  then show ?thesis using st3(1) by (intro exI [of _ sh3] exI [of _ wire3]) (simp add: st1)
qed

end
