(* ===== verification/Apps.thy ===== *)
theory Apps
  imports Shim_Data Nccl_Plugin
begin

text \<open>
  The two programs, \<open>apps/kv_migration_demo.cpp\<close> and \<open>apps/main.cpp\<close>: what they ask of the shim, the
  transport and the plugin, in their order, up to the exit code.  What they print is left out, and so are
  the values that are only printed.

  A program runs next to the thread of its telemetry daemon and reads the clock; what the thread does
  before the \<open>k\<close>-th call, and the clock of the call, come with the program's environment, and so do the
  addresses of its buffers.
\<close>

section \<open>Buffers\<close>

unbundle bit_operations_syntax

definition kMiB :: u64 where
  "kMiB = 1024 * 1024"

text \<open>A new vector holds zeros.\<close>

definition zeroed :: "ptr \<Rightarrow> nat \<Rightarrow> memory \<Rightarrow> memory" where
  "zeroed p n m = (\<lambda>a. if in_range a p n then 0 else m a)"

definition fill_pattern :: "ptr \<Rightarrow> nat \<Rightarrow> u8 \<Rightarrow> memory \<Rightarrow> memory" where
  "fill_pattern p n seed m =
     fold (\<lambda>i m. m(p + of_nat i := ucast ((ucast seed + of_nat i * 131) AND (0xff :: u64)))) [0..<n] m"

definition verify_prefix :: "ptr \<Rightarrow> ptr \<Rightarrow> nat \<Rightarrow> memory \<Rightarrow> bool" where
  "verify_prefix src dst n m \<longleftrightarrow> list_all (\<lambda>i. m (src + of_nat i) = m (dst + of_nat i)) [0..<n]"

section \<open>The environment of a program\<close>

record 'g app_env =
  ae_boot :: "'g boot_env"
  ae_daemon :: "nat \<Rightarrow> 'g daemon \<Rightarrow> 'g daemon"
  ae_clock :: "nat \<Rightarrow> call_clock"
  ae_junk :: real
  ae_src :: ptr
  ae_dst :: ptr
  ae_ucx_src :: ptr
  ae_ucx_dst :: ptr
  ae_ep :: ucx_endpoint

text \<open>\<open>ae_ep\<close> is what the endpoint variable holds before it is created.\<close>

definition meanwhile :: "'g app_env \<Rightarrow> nat \<Rightarrow> 'g shim \<times> wire \<Rightarrow> 'g shim \<times> wire" where
  "meanwhile E k st = ((fst st)\<lparr>sh_telemetry := ae_daemon E k (sh_telemetry (fst st))\<rparr>, snd st)"

definition app_initialize :: "'g app_env \<Rightarrow> init_options \<Rightarrow> ibverbs \<Rightarrow> bool \<times> 'g shim \<times> ibverbs" where
  "app_initialize E opts ib =
     (let b = ae_boot E
      in initialize (be_rng b) (be_seed b) (be_host b) (be_machine b) (be_weights b) (be_enc b) (be_dec b)
           (be_rounds b) (be_cursor b) opts ib)"

definition weights_arg :: "string option \<Rightarrow> init_options \<Rightarrow> init_options" where
  "weights_arg weights opts = (case weights of None \<Rightarrow> opts | Some path \<Rightarrow> opts\<lparr>io_weights_path := path\<rparr>)"

definition gpu :: "u32 \<Rightarrow> u32 \<Rightarrow> endpoint_id" where
  "gpu n l = \<lparr>node_id = n, local_id = l, ep_type = GPU\<rparr>"

section \<open>Loops over the shim\<close>

fun poll_times :: "'g app_env \<Rightarrow> nat \<Rightarrow> nat \<Rightarrow> 'g shim \<times> wire \<Rightarrow> 'g shim \<times> wire" where
  "poll_times E k 0 st = st"
| "poll_times E k (Suc n) st = poll_times E (Suc k) n (snd (poll_transfers (ae_clock E k) 1 (meanwhile E k st)))"

fun submit_times ::
  "'g app_env \<Rightarrow> nat \<Rightarrow> nat \<Rightarrow> traffic_class \<Rightarrow> endpoint_id \<Rightarrow> endpoint_id \<Rightarrow> u64 \<Rightarrow> real \<Rightarrow>
   'g shim \<times> wire \<Rightarrow> 'g shim \<times> wire"
where
  "submit_times E k 0 cls src dst nbytes deadline st = st"
| "submit_times E k (Suc n) cls src dst nbytes deadline st =
     submit_times E (Suc k) n cls src dst nbytes deadline
       (snd (submit_transfer (ae_clock E k) (ae_junk E) cls src dst nbytes deadline 0 0 (meanwhile E k st)))"

fun poll_until :: "'g app_env \<Rightarrow> nat \<Rightarrow> nat \<Rightarrow> transfer_id \<Rightarrow> 'g shim \<times> wire \<Rightarrow> 'g shim \<times> wire" where
  "poll_until E k 0 tid st = st"
| "poll_until E k (Suc n) tid st =
     (let st' = snd (poll_transfers (ae_clock E k) 1 (meanwhile E k st));
          state = tp_state (transfer_status (fst st') tid)
      in if state = Completed \<or> state = Cancelled then st' else poll_until E (Suc k) n tid st')"

section \<open>The migration demo\<close>

definition demo_options :: "string option \<Rightarrow> init_options" where
  "demo_options weights = weights_arg weights (init_options_default\<lparr>io_num_nodes := 2, io_gpus_per_node := 8\<rparr>)"

definition demo_kv_bytes :: u64 where
  "demo_kv_bytes = 768 * kMiB"

text \<open>Rail 0 is made to look hot and rail 1 is not.\<close>

definition heat_rail :: "graph_edge list \<Rightarrow> nat \<Rightarrow> 'g daemon \<Rightarrow> 'g daemon" where
  "heat_rail es i d =
     (let a = attrs (es ! i)
      in if fabric a = InfiniBand \<and> rail_id a = 0 then set_simulated_util (of_nat i) 0.92 d
         else if fabric a = InfiniBand \<and> rail_id a = 1 then set_simulated_util (of_nat i) 0.15 d
         else d)"

definition heat_rails :: "'g shim \<Rightarrow> 'g shim" where
  "heat_rails sh =
     sh\<lparr>sh_telemetry := fold (heat_rail (shim_edges sh)) [0..<length (shim_edges sh)] (sh_telemetry sh)\<rparr>"

text \<open>The first part: the striped transfer under pressure; the calls are numbered from 0.\<close>

definition demo_migrate :: "'g app_env \<Rightarrow> 'g shim \<times> wire \<Rightarrow> transfer_id \<times> 'g shim \<times> wire" where
  "demo_migrate E st0 =
     (let (tid, st1) = submit_transfer (ae_clock E 0) (ae_junk E) KVMigration (gpu 0 0) (gpu 1 0) demo_kv_bytes 200000
                         (ae_src E) (ae_dst E) (meanwhile E 0 st0);
          st2 = poll_times E 1 2 st1;
          st3 = submit_times E 3 8 TensorParallel (gpu 0 0) (gpu 1 0) (4 * kMiB) 5 st2
      in (tid, poll_until E 11 20000 tid st3))"

text \<open>The second part: a put over the transport and the loop that waits for it.\<close>

definition app_put ::
  "'g app_env \<Rightarrow> nat \<Rightarrow> endpoint_id \<Rightarrow> endpoint_id \<Rightarrow> ptr \<Rightarrow> ptr \<Rightarrow> real \<Rightarrow> 'g shim \<times> wire \<Rightarrow> ('g shim \<times> wire) option"
where
  "app_put E k l r buf remote deadline st =
     (let ep = (case create_ep (sh_ucx (fst st)) l r of None \<Rightarrow> ae_ep E | Some ep \<Rightarrow> ep);
          (rc, req, st') = zcopy_put (ae_clock E k) (ae_junk E) ep buf (8 * kMiB) KVMigration deadline remote
                             ucx_request_fresh (meanwhile E k st)
      in wait_completed (\<lambda>j. ae_clock E (Suc k + j)) (\<lambda>j. ae_daemon E (Suc k + j)) 1 req 0 st')"

definition demo_main :: "'g app_env \<Rightarrow> string option \<Rightarrow> wire \<Rightarrow> (int \<times> 'g shim \<times> wire) option" where
  "demo_main E weights w =
     (let (started, sh, ib) = app_initialize E (demo_options weights) (fst w)
      in if \<not> started then Some (1, sh, (ib, snd w))
         else
           let n = unat demo_kv_bytes;
               m = fill_pattern (ae_src E) n 0xA5 (zeroed (ae_dst E) n (zeroed (ae_src E) n (snd w)));
               (tid, st) = demo_migrate E (heat_rails sh, (ib, m));
               done_tp = transfer_status (fst st) tid;
               ok = verify_prefix (ae_src E) (ae_dst E) n (snd (snd st));
               u = unat (8 * kMiB);
               m' = fill_pattern (ae_ucx_src E) u 0x3C (zeroed (ae_ucx_dst E) u (zeroed (ae_ucx_src E) u (snd (snd st))))
           in case app_put E 20011 (gpu 0 1) (gpu 1 1) (ae_ucx_src E) (ae_ucx_dst E) 50000
                     (fst st, (fst (snd st), m')) of
                None \<Rightarrow> None
              | Some (sh', w') \<Rightarrow>
                  let ucx_ok = verify_prefix (ae_ucx_src E) (ae_ucx_dst E) u (snd w');
                      plugin = snd (nccl_plugin_bootstrap (ae_boot E) weights (plugin_fresh w'));
                      (rc, ndev, plugin') = hics_plugin_devices (be_host (ae_boot E)) True plugin
                  in Some (if ok \<and> ucx_ok \<and> tp_state done_tp = Completed then 0 else 2, sh', pl_wire plugin'))"

section \<open>The sample program\<close>

definition main_options :: "string option \<Rightarrow> init_options" where
  "main_options weights = weights_arg weights (init_options_default\<lparr>io_num_nodes := 8, io_gpus_per_node := 8\<rparr>)"

text \<open>The decision it asks of the path engine itself, on its own utilisations.\<close>

definition main_request :: transfer_request where
  "main_request = \<lparr>rq_source = gpu 0 0, rq_dest = gpu 0 1, size_bytes = 16 * 1024 * 1024,
     traffic = TensorParallel, deadline_us = 100\<rparr>"

definition main_sample :: "'g shim \<Rightarrow> path_cost \<times> 'g shim" where
  "main_sample sh =
     (let (cost, w) = select_path (sh_predictor sh) main_request (replicate (length (shim_edges sh)) 0.3) (sh_world sh)
      in (cost, sh\<lparr>sh_world := w\<rparr>))"

definition main_congest :: "'g shim \<Rightarrow> 'g shim" where
  "main_congest sh = sh\<lparr>sh_telemetry := set_simulated_util 1 0.9 (set_simulated_util 0 0.95 (sh_telemetry sh))\<rparr>"

definition main_load :: "'g app_env \<Rightarrow> 'g shim \<times> wire \<Rightarrow> 'g shim \<times> wire" where
  "main_load E st0 =
     (let st1 = submit_times E 0 64 KVMigration (gpu 0 0) (gpu 0 1) (256 * 1024 * 1024) 50000 st0;
          st2 = submit_times E 64 32 TensorParallel (gpu 0 0) (gpu 0 1) (4 * 1024 * 1024) 5 st1
      in poll_times E 96 200 st2)"

definition hics_main :: "'g app_env \<Rightarrow> string option \<Rightarrow> wire \<Rightarrow> (int \<times> 'g shim \<times> wire) option" where
  "hics_main E weights w =
     (let (started, sh, ib) = app_initialize E (main_options weights) (fst w)
      in if \<not> started then Some (1, sh, (ib, snd w))
         else
           let st = main_load E (main_congest (snd (main_sample sh)), (ib, snd w));
               m = zeroed (ae_src E) (unat (8 * kMiB)) (snd (snd st))
           in case app_put E 296 (gpu 0 0) (gpu 1 0) (ae_src E) 0 (-1) (fst st, (fst (snd st), m)) of
                None \<Rightarrow> None
              | Some (sh', w') \<Rightarrow> Some (0, sh', w'))"

end
