(* ===== verification/Apps_Props.thy ===== *)
theory Apps_Props
  imports Apps
begin

text \<open>
  Both programs come to an end whatever the machine, the telemetry and the clock; what the demo's exit
  code depends on.
\<close>

section \<open>Buffers\<close>

lemma fill_pattern_step:
  "fill_pattern p (Suc n) seed m =
     (fill_pattern p n seed m)(p + of_nat n := ucast ((ucast seed + of_nat n * 131) AND (0xff :: u64)))"
  by (simp add: fill_pattern_def)

lemma fill_pattern_outside: "n \<le> 2 ^ 64 \<Longrightarrow> \<not> in_range a p n \<Longrightarrow> fill_pattern p n seed m a = m a"
proof (induction n)
  case 0
  then show ?case by (simp add: fill_pattern_def)
next
  case (Suc n)
  have "a \<noteq> p + of_nat n" using in_range_of_nat [of n "Suc n" p] Suc.prems by auto
  moreover have "\<not> in_range a p n" using Suc.prems(2) by (simp add: in_range_def)
  ultimately show ?case using Suc by (simp add: fill_pattern_step)
qed

lemma fill_pattern_inside:
  assumes "n \<le> 2 ^ 64" and "x < n"
  shows "fill_pattern p n seed m (p + of_nat x) = ucast ((ucast seed + of_nat x * 131) AND (0xff :: u64))"
  using assms
proof (induction n)
  case (Suc n)
  show ?case
  proof (cases "x = n")
    case False
    then have "x < n" using Suc.prems by simp
    moreover have "(of_nat x :: u64) \<noteq> of_nat n"
    proof
      assume "(of_nat x :: u64) = of_nat n"
      then have "unat (of_nat x :: u64) = unat (of_nat n :: u64)" by (rule arg_cong)
      moreover have "unat (of_nat x :: u64) = x" "unat (of_nat n :: u64) = n"
        using Suc.prems \<open>x < n\<close> by (auto intro: unat_of_nat_small)
      ultimately show False using \<open>x < n\<close> by simp
    qed
    ultimately show ?thesis using Suc by (simp add: fill_pattern_step)
  qed (simp add: fill_pattern_step)
qed simp

lemma verify_prefix_iff: "verify_prefix p q n m \<longleftrightarrow> (\<forall>x < n. m (p + of_nat x) = m (q + of_nat x))"
  by (auto simp: verify_prefix_def list_all_iff)

section \<open>The loops\<close>

abbreviation app_rng :: "'g app_env \<Rightarrow> 'g rng_ops" where
  "app_rng E \<equiv> be_rng (ae_boot E)"

abbreviation calm :: "'g app_env \<Rightarrow> bool" where
  "calm E \<equiv> daemon_moves (app_rng E) (ae_daemon E)"

lemma company_daemon:
  assumes "(daemon_step R)\<^sup>*\<^sup>* d d'" and "company R mine st k (sh, w)" and "sh_telemetry sh = d"
  shows "company R mine st k (sh\<lparr>sh_telemetry := d'\<rparr>, w)"
  using assms
proof (induction rule: rtranclp_induct)
  case base
  then show ?case by (cases sh) auto
next
  case (step d' d2)
  from company_telemetry [OF step.IH [OF step.prems], of d2] step.hyps(2) show ?case by simp
qed

lemma meanwhile_polled:
  assumes "calm E" and "polled (app_rng E) q k st st'"
  shows "polled (app_rng E) q k st (meanwhile E j st')"
proof -
  have "polled (app_rng E) q k st (fst st', snd st')" using assms(2) by simp
  then show ?thesis
    unfolding meanwhile_def
    using polled_daemon [of "app_rng E" "sh_telemetry (fst st')" "ae_daemon E j (sh_telemetry (fst st'))"] assms(1)
    by (simp add: daemon_moves_def)
qed

lemma meanwhile_company:
  assumes "calm E" and "company (app_rng E) mine st k st'"
  shows "company (app_rng E) mine st k (meanwhile E j st')"
proof -
  have "company (app_rng E) mine st k (fst st', snd st')" using assms(2) by simp
  then show ?thesis
    unfolding meanwhile_def
    using company_daemon [of "app_rng E" "sh_telemetry (fst st')" "ae_daemon E j (sh_telemetry (fst st'))"] assms(1)
    by (simp add: daemon_moves_def)
qed

lemma meanwhile_world [simp]:
  "sh_world (fst (meanwhile E k st)) = sh_world (fst st)" "snd (meanwhile E k st) = snd st"
  "sh_ucx (fst (meanwhile E k st)) = sh_ucx (fst st)"
  "sh_decisions_made (fst (meanwhile E k st)) = sh_decisions_made (fst st)"
  by (simp_all add: meanwhile_def)

lemma meanwhile_run: "calm E \<Longrightarrow> shim_run (app_rng E) opts n st \<Longrightarrow> shim_run (app_rng E) opts n (meanwhile E k st)"
  using polled_run [OF meanwhile_polled [OF _ polled_none]] by blast

lemma long_enough_1: "long_enough 100000 1"
  by simp

lemma poll_times_polled:
  "calm E \<Longrightarrow> polled (app_rng E) 100000 j st st' \<Longrightarrow> polled (app_rng E) 100000 (j + n) st (poll_times E k n st')"
proof (induction n arbitrary: j k st')
  case (Suc n)
  from Suc.IH [OF Suc.prems(1) polled_poll [OF meanwhile_polled [OF Suc.prems] long_enough_1]] show ?case by simp
qed simp

lemma poll_times_company:
  "calm E \<Longrightarrow> company (app_rng E) mine st j st' \<Longrightarrow> company (app_rng E) mine st j (poll_times E k n st')"
proof (induction n arbitrary: k st')
  case (Suc n)
  from Suc.IH [OF Suc.prems(1) company_poll [OF meanwhile_company [OF Suc.prems]]] show ?case by simp
qed simp

lemma submit_times_company:
  "calm E \<Longrightarrow> company (app_rng E) mine st j st' \<Longrightarrow>
   company (app_rng E) mine st (j + n) (submit_times E k n cls src dst nbytes deadline st')"
proof (induction n arbitrary: j k st')
  case (Suc n)
  have "company (app_rng E) mine st (Suc j)
      (snd (submit_transfer (ae_clock E k) (ae_junk E) cls src dst nbytes deadline 0 0 (meanwhile E k st')))"
    by (rule company_submit [OF meanwhile_company [OF Suc.prems]]) simp
  from Suc.IH [OF Suc.prems(1) this] show ?case by simp
qed simp

text \<open>The loop with an end in sight stops there or after all its rounds.\<close>

lemma poll_until_rounds:
  assumes "calm E" and "polled (app_rng E) 100000 j st st'" and "company (app_rng E) mine st2 k2 st'"
  shows "\<exists>r. polled (app_rng E) 100000 (j + r) st (poll_until E k n tid st') \<and>
    company (app_rng E) mine st2 k2 (poll_until E k n tid st') \<and>
    (r = n \<or> tp_state (transfer_status (fst (poll_until E k n tid st')) tid) \<in> {Completed, Cancelled})"
  using assms(2,3)
proof (induction n arbitrary: j k st')
  case 0
  then show ?case by (intro exI [of _ 0]) simp
next
  case (Suc n)
  let ?st = "snd (poll_transfers (ae_clock E k) 1 (meanwhile E k st'))"
  have one: "polled (app_rng E) 100000 (Suc j) st ?st" "company (app_rng E) mine st2 k2 ?st"
    using polled_poll [OF meanwhile_polled [OF assms(1) Suc.prems(1)] long_enough_1]
      company_poll [OF meanwhile_company [OF assms(1) Suc.prems(2)]] by simp_all
  show ?case
  proof (cases "tp_state (transfer_status (fst ?st) tid) \<in> {Completed, Cancelled}")
    case True
    then show ?thesis using one by (intro exI [of _ 1]) (auto simp: Let_def)
  next
    case False
    then have same: "poll_until E k (Suc n) tid st' = poll_until E (Suc k) n tid ?st" by (simp add: Let_def)
    from Suc.IH [OF one, of "Suc k"] obtain r where
      "polled (app_rng E) 100000 (Suc j + r) st (poll_until E (Suc k) n tid ?st)"
      "company (app_rng E) mine st2 k2 (poll_until E (Suc k) n tid ?st)"
      "r = n \<or> tp_state (transfer_status (fst (poll_until E (Suc k) n tid ?st)) tid) \<in> {Completed, Cancelled}" by blast
    then show ?thesis unfolding same by (intro exI [of _ "Suc r"]) simp
  qed
qed

text \<open>What the loops keep of the presence of an executor, other addresses and the waiting entries.\<close>

lemma poll_keeps [simp]:
  "sh_ucx (fst (snd (poll_transfers c dt st))) = sh_ucx (fst st)"
  "sh_decisions_made (fst (snd (poll_transfers c dt st))) = sh_decisions_made (fst st)"
  by (simp_all add: poll_transfers_def case_prod_unfold Let_def)

lemma submit_keeps:
  "sh_ucx (fst (snd (submit_transfer c junk cls src dst nbytes deadline sb db st))) = sh_ucx (fst st)"
  "pw_executor (sh_world (fst st)) \<noteq> None \<Longrightarrow>
   sh_decisions_made (fst (snd (submit_transfer c junk cls src dst nbytes deadline sb db st))) = sh_decisions_made (fst st) + 1"
  by (simp_all add: submit_transfer_def dispatch_transfer_def count_decision_def case_prod_unfold Let_def)

lemma poll_times_keeps [simp]:
  "sh_ucx (fst (poll_times E k n st)) = sh_ucx (fst st)"
  "sh_decisions_made (fst (poll_times E k n st)) = sh_decisions_made (fst st)"
  by (induction n arbitrary: k st) simp_all

lemma poll_until_keeps [simp]: "sh_ucx (fst (poll_until E k n tid st)) = sh_ucx (fst st)"
  by (induction n arbitrary: k st) (simp_all add: Let_def)

lemma poll_times_steady:
  "steady mine i m (sh_world (fst st)) \<Longrightarrow> steady mine i m (sh_world (fst (poll_times E k n st)))"
proof (induction n arbitrary: k st)
  case (Suc n)
  have "steady mine i m (sh_world (fst (snd (poll_transfers (ae_clock E k) 1 (meanwhile E k st)))))"
    using Suc.prems by (intro poll_steady) simp
  from Suc.IH [OF this] show ?case by simp
qed simp

lemma poll_until_steady:
  "steady mine i m (sh_world (fst st)) \<Longrightarrow> steady mine i m (sh_world (fst (poll_until E k n tid st)))"
proof (induction n arbitrary: k st)
  case (Suc n)
  have "steady mine i m (sh_world (fst (snd (poll_transfers (ae_clock E k) 1 (meanwhile E k st)))))"
    using Suc.prems by (intro poll_steady) simp
  from this Suc.IH [OF this] show ?case by (simp add: Let_def)
qed simp

lemma submit_times_steady:
  assumes "calm E" and fits: "cluster_fits (io_num_nodes opts) (io_gpus_per_node opts)"
    and "shim_run (app_rng E) opts j st" and "steady mine i m (sh_world (fst st))"
  shows "shim_run (app_rng E) opts (j + n) (submit_times E k n cls src dst nbytes deadline st) \<and>
    steady mine i (m + n) (sh_world (fst (submit_times E k n cls src dst nbytes deadline st))) \<and>
    sh_ucx (fst (submit_times E k n cls src dst nbytes deadline st)) = sh_ucx (fst st) \<and>
    sh_decisions_made (fst (submit_times E k n cls src dst nbytes deadline st)) = sh_decisions_made (fst st) + of_nat n"
  using assms(3,4)
proof (induction n arbitrary: j m k st)
  case (Suc n)
  let ?st = "meanwhile E k st"
  let ?st' = "snd (submit_transfer (ae_clock E k) (ae_junk E) cls src dst nbytes deadline 0 0 ?st)"
  have run: "shim_run (app_rng E) opts j ?st" by (rule meanwhile_run [OF assms(1) Suc.prems(1)])
  have "steady mine i (Suc m) (sh_world (fst ?st'))"
    using Suc.prems(2) by (intro submit_steady [OF shim_run_sound [OF run fits]]) simp_all
  moreover have "sh_decisions_made (fst ?st') = sh_decisions_made (fst st) + 1" "sh_ucx (fst ?st') = sh_ucx (fst st)"
    using submit_keeps [where st = ?st] Suc.prems(2) by (simp_all add: steady_def)
  ultimately show ?case
    using Suc.IH [OF run_submit [OF run], of "Suc m" "ae_clock E k" "ae_junk E" cls src dst nbytes deadline 0 0 "Suc k"]
    by simp
qed simp

section \<open>A put of a program ends\<close>

lemma submit_entered:
  assumes sound: "shim_sound es m (fst st)" and exec: "pw_executor (sh_world (fst st)) \<noteq> None"
    and run: "submit_transfer c junk cls src dst nbytes deadline sb db st = (i, st')"
  shows "\<exists>ex tp. pw_executor (sh_world (fst st')) = Some ex \<and> map_of (ex_transfers ex) i = Some tp"
proof -
  define rq where "rq = \<lparr>rq_source = src, rq_dest = dst, size_bytes = nbytes, traffic = cls, deadline_us = deadline\<rparr>"
  obtain sh wire where st: "st = (sh, wire)" by (rule prod.exhaust)
  obtain ex where ex: "pw_executor (sh_world sh) = Some ex" using exec by (auto simp: st)
  have inv: "exec_inv ex" using sound ex by (simp add: st shim_sound_def world_sound_def world_ok_def)
  obtain j w1 where sched: "schedule_and_execute (sh_predictor sh) (Some (shim_edges sh)) (cl_now c) rq
      (current_utils sh) \<lparr>so_src_buf = sb, so_dst_buf = db\<rparr> (sh_world sh) = (j, w1)" by (rule prod.exhaust)
  obtain ids w2 wire2 where td: "tick_and_drain 0.05 (current_utils sh) (cl_tick c) (sh_predictor sh) w1 wire =
      (ids, w2, wire2)" by (rule prod_cases3)
  have res: "i = j" "sh_world (fst st') = w2" using run ex sched td by (auto simp: st submit_transfer_def rq_def Let_def)
  obtain ex1 where ex1: "pw_executor w1 = Some ex1" "j \<in> ids_of ex1"
    using schedule_table [OF ex inv sched] by (auto simp: adds_transfer_def)
  from tick_drain_table [OF ex1(1) td] obtain ex2 where ex2: "pw_executor w2 = Some ex2" "same_table ex1 ex2" by blast
  have "i \<in> ids_of ex2" using ex1(2) ex2(2) by (simp add: same_table_def res)
  then have "i \<in> dom (map_of (ex_transfers ex2))" unfolding ids_of_table dom_map_of_conv_image_fst .
  then show ?thesis using ex2(1) by (auto simp: res)
qed

lemma app_put_returns:
  assumes calm: "calm E" and run: "shim_run (app_rng E) opts n st"
    and fits: "cluster_fits (io_num_nodes opts) (io_gpus_per_node opts)"
    and exec: "pw_executor (sh_world (fst st)) \<noteq> None" and ucx: "sh_ucx (fst st) = snd (open_iface ucx_config_default ucx_fresh)"
  shows "\<exists>sh' wire'. app_put E k l r buf remote deadline st = Some (sh', wire') \<and>
    sh_decisions_made sh' = sh_decisions_made (fst st) + 1"
proof -
  let ?st = "meanwhile E k st"
  obtain ep where ep: "create_ep (sh_ucx (fst st)) l r = Some ep"
    using ucx by (simp add: create_ep_def open_iface_def)
  define dl where "dl = (if 0 < deadline then deadline else uc_default_deadline_us (ux_config (sh_ucx (fst st))))"
  obtain i st' where sub: "submit_transfer (ae_clock E k) (ae_junk E) KVMigration (ue_local ep) (ue_remote ep) (8 * kMiB)
      dl buf remote ?st = (i, st')" by (rule prod.exhaust)
  have run1: "shim_run (app_rng E) opts n ?st" by (rule meanwhile_run [OF calm run])
  from submit_entered [OF shim_run_sound [OF run1 fits] _ sub] exec obtain ex tp where
    tp: "pw_executor (sh_world (fst st')) = Some ex" "map_of (ex_transfers ex) i = Some tp" by auto
  have run2: "shim_run (app_rng E) opts (Suc n) (fst st', snd st')"
    using run_submit [OF run1, of "ae_clock E k" "ae_junk E" KVMigration "ue_local ep" "ue_remote ep" "8 * kMiB" dl buf remote]
    by (simp add: sub)
  have count: "sh_decisions_made (fst st') = sh_decisions_made (fst st) + 1"
    using submit_keeps(2) [where st = ?st and c = "ae_clock E k" and junk = "ae_junk E" and cls = KVMigration
        and src = "ue_local ep" and dst = "ue_remote ep" and nbytes = "8 * kMiB" and deadline = dl and sb = buf and db = remote]
      exec by (simp add: sub)
  have len: "\<not> uc_max_zcopy_bytes (ux_config (sh_ucx (fst st))) < 8 * kMiB" "ux_open (sh_ucx (fst st))"
    using ucx by (simp_all add: open_iface_def ucx_config_default_def kMiB_def)
  define req where "req = \<lparr>ur_transfer_id = i, ur_length = 8 * kMiB, ur_completed = False\<rparr>"
  have put: "\<exists>rc. zcopy_put (ae_clock E k) (ae_junk E) ep buf (8 * kMiB) KVMigration deadline remote ucx_request_fresh ?st =
      (rc, req, st')"
    using len sub by (simp add: zcopy_put_def dl_def req_def Let_def)
  have "daemon_moves (app_rng E) (\<lambda>j. ae_daemon E (Suc k + j))" using calm by (simp add: daemon_moves_def)
  from wait_finishes [OF run2 fits tp(1) _ this, where req = req and dt = 1 and clocks = "\<lambda>j. ae_clock E (Suc k + j)" and k = 0] tp(2)
  obtain j st2 where wait: "wait_completed (\<lambda>j. ae_clock E (Suc k + j)) (\<lambda>j. ae_daemon E (Suc k + j)) 1 req 0 st' = Some st2"
    "polled (app_rng E) 1 j st' st2" by (auto simp: req_def)
  have "sh_decisions_made (fst st2) = sh_decisions_made (fst st')"
    using wait(2) by (induction rule: polled.induct) simp_all
  then show ?thesis
    using put wait(1) ep count by (cases st2) (auto simp: app_put_def Let_def)
qed

section \<open>The migration\<close>

lemma remaining_le_total: "tp_inv tp \<Longrightarrow> unat (tp_bytes_remaining tp) \<le> unat (tp_bytes_total tp)"
proof -
  assume inv: "tp_inv tp"
  then have "tp_bytes_sent tp \<le> tp_bytes_total tp"
    using total_sent_le_size [of "tp_chunks tp"] by (auto simp: tp_inv_def accounted_def word_le_nat_alt)
  then have "unat (tp_bytes_total tp - tp_bytes_sent tp) \<le> unat (tp_bytes_total tp)"
    by (simp add: unat_minus_le)
  then show ?thesis
    using inv by (cases "tp_state tp = Cancelled") (simp_all add: tp_inv_def accounted_def)
qed

lemma demo_chunk_limit: "chunk_limit demo_kv_bytes = 3" "unat demo_kv_bytes = 805306368"
  by (simp_all add: chunk_limit_def demo_kv_bytes_def kMiB_def)

lemma poll_until_completes:
  assumes calm: "calm E" and run: "shim_run (app_rng E) opts n st"
    and fits: "cluster_fits (io_num_nodes opts) (io_gpus_per_node opts)"
    and tp: "pw_executor (sh_world (fst st)) = Some ex" "map_of (ex_transfers ex) tid = Some tp"
    and bound: "(unat (tp_bytes_remaining tp) + length (tp_chunks tp) * 99999) div 100000 + length (tp_chunks tp) +
      waits tid (sh_world (fst st)) < rounds"
  shows "tp_state (transfer_status (fst (poll_until E k rounds tid st)) tid) = Completed"
proof -
  let ?st = "poll_until E k rounds tid st"
  obtain r where polled: "polled (app_rng E) 100000 r st ?st" and
    rounds: "r = rounds \<or> tp_state (transfer_status (fst ?st) tid) \<in> {Completed, Cancelled}"
    using poll_until_rounds [OF calm polled_none company_none, of st k rounds tid] by auto
  have run': "shim_run (app_rng E) opts n (fst ?st, snd ?st)" using polled_run [OF polled run] by simp
  have pairs: "polled (app_rng E) 100000 r (fst st, snd st) ?st" "shim_run (app_rng E) opts n (fst st, snd st)"
    using polled run by simp_all
  from polls_wear_down [OF pairs fits tp] obtain ex' tp' where
    tp': "pw_executor (sh_world (fst ?st)) = Some ex'" "map_of (ex_transfers ex') tid = Some tp'" by blast
  have "under_way (pw_graph (sh_world (fst ?st))) (waits tid (sh_world (fst ?st))) tp'"
    using shim_run_under_way [OF run' fits] tp' by (simp add: all_under_way_def table_under_way_def)
  then have "tp_state tp' \<noteq> Cancelled" by (auto simp: under_way_def routed_def)
  then have "r = rounds \<or> tp_state (transfer_status (fst ?st) tid) = Completed"
    using rounds transfer_status_lookup [OF tp'] by auto
  then show ?thesis
  proof
    assume "r = rounds"
    then show ?thesis
      using polls_finish [of "app_rng E" opts n "fst st" "snd st" ex tid tp 100000 r "fst ?st" "snd ?st"]
        run fits tp polled bound by simp
  qed
qed

text \<open>After the submission: the transfer, what is in its way, and the state before the last loop.\<close>

lemma demo_submitted:
  assumes calm: "calm E" and run: "shim_run (app_rng E) opts 0 st0"
    and fits: "cluster_fits (io_num_nodes opts) (io_gpus_per_node opts)"
    and fresh: "pw_executor (sh_world (fst st0)) = Some executor_fresh"
    and apart: "\<And>a. in_range a (ae_dst E) (unat demo_kv_bytes) \<Longrightarrow> \<not> mine a"
    and sub: "submit_transfer (ae_clock E 0) (ae_junk E) KVMigration (gpu 0 0) (gpu 1 0) demo_kv_bytes 200000
      (ae_src E) (ae_dst E) (meanwhile E 0 st0) = (tid, st1)"
    and st3: "st3 = submit_times E 3 8 TensorParallel (gpu 0 0) (gpu 1 0) (4 * kMiB) 5 (poll_times E 1 2 st1)"
  shows "shim_run (app_rng E) opts 1 st1" and "shim_run (app_rng E) opts 9 st3"
    and "steady mine tid 9 (sh_world (fst st3))" and "sh_ucx (fst st3) = sh_ucx (fst st0)"
    and "company (app_rng E) m st1 8 st3"
proof -
  let ?st = "meanwhile E 0 st0"
  have run0: "shim_run (app_rng E) opts 0 ?st" by (rule meanwhile_run [OF calm run])
  have sound: "shim_sound (cluster_edges opts) 0 (fst ?st)" by (rule shim_run_sound [OF run0 fits])
  have empty: "footprint executor_fresh = []" by (simp add: footprint_def executor_fresh_def)
  have "pending_ids (sh_world (fst ?st)) = {}"
    using sound fresh by (auto simp: shim_sound_def world_sound_def empty)
  then have "waits tid (sh_world (fst ?st)) = 0"
    using waits_in_pos [of tid] by (fastforce simp: pending_ids_def)
  then have steady0: "steady mine tid 0 (sh_world (fst ?st))"
    using fresh by (simp add: steady_def leaves_alone_def empty)
  have st1: "st1 = snd (submit_transfer (ae_clock E 0) (ae_junk E) KVMigration (gpu 0 0) (gpu 1 0) demo_kv_bytes 200000
      (ae_src E) (ae_dst E) ?st)" by (simp add: sub)
  show run1: "shim_run (app_rng E) opts 1 st1" unfolding st1 using run_submit [OF run0] by simp
  have "steady mine tid 1 (sh_world (fst st1))"
    unfolding st1 One_nat_def using apart by (intro submit_steady [OF sound steady0])
  from poll_times_steady [OF this] have steady2: "steady mine tid 1 (sh_world (fst (poll_times E 1 2 st1)))" .
  have "shim_run (app_rng E) opts 1 (poll_times E 1 2 st1)"
    using polled_run [OF poll_times_polled [OF calm polled_none] run1] .
  from submit_times_steady [OF calm fits this steady2, of 8 3 TensorParallel "gpu 0 0" "gpu 1 0" "4 * kMiB" 5]
  show "shim_run (app_rng E) opts 9 st3" "steady mine tid 9 (sh_world (fst st3))" "sh_ucx (fst st3) = sh_ucx (fst st0)"
    by (simp_all add: st3 st1 submit_keeps)
  show "company (app_rng E) m st1 8 st3"
    using submit_times_company [where n = 8, OF calm poll_times_company [OF calm company_none]] by (simp add: st3)
qed

lemma demo_migrate_delivers:
  assumes calm: "calm E" and run: "shim_run (app_rng E) opts 0 st0"
    and fits: "cluster_fits (io_num_nodes opts) (io_gpus_per_node opts)"
    and fresh: "pw_executor (sh_world (fst st0)) = Some executor_fresh"
    and ready: "ib_ready (fst (snd st0))"
    and bufs: "buffers_sound \<lparr>so_src_buf = ae_src E, so_dst_buf = ae_dst E\<rparr> demo_kv_bytes"
    and sub: "submit_transfer (ae_clock E 0) (ae_junk E) KVMigration (gpu 0 0) (gpu 1 0) demo_kv_bytes 200000
      (ae_src E) (ae_dst E) (meanwhile E 0 st0) = (tid, st1)"
    and st3: "st3 = submit_times E 3 8 TensorParallel (gpu 0 0) (gpu 1 0) (4 * kMiB) 5 (poll_times E 1 2 st1)"
    and st5: "st5 = poll_until E 11 20000 tid st3"
  shows "tp_state (transfer_status (fst st5) tid) = Completed" and "ib_ready (fst (snd st5))"
    and "x < unat demo_kv_bytes \<Longrightarrow> snd (snd st5) (ae_dst E + of_nat x) = snd (snd st0) (ae_src E + of_nat x) \<and>
      snd (snd st5) (ae_src E + of_nat x) = snd (snd st0) (ae_src E + of_nat x)"
proof -
  let ?mine = "\<lambda>a. in_range a (ae_src E) (unat demo_kv_bytes) \<or> in_range a (ae_dst E) (unat demo_kv_bytes)"
  note after = demo_submitted [where mine = "\<lambda>a. False", OF calm run fits fresh _ sub st3, simplified]
  have company: "company (app_rng E) ?mine st1 8 st3" by (rule after(5))
  obtain r where "company (app_rng E) ?mine st1 8 st5"
    using poll_until_rounds [where k = 11 and n = 20000 and tid = tid, OF calm polled_none company] st5 by blast
  note companies = company this
  have free: "buffers_free executor_fresh (ae_src E) (ae_dst E) (unat demo_kv_bytes)"
    by (simp add: buffers_free_def executor_fresh_def)
  have carry: "\<exists>tp0. carried (snd (snd st0)) tid tp0 (sh_world (fst st)) (snd st) \<and> tp_src_buf tp0 = ae_src E \<and>
      tp_dst_buf tp0 = ae_dst E \<and> tp_bytes_total tp0 = demo_kv_bytes \<and> length (tp_chunks tp0) \<le> 3"
    if "company (app_rng E) ?mine st1 8 st" for st
  proof -
    obtain sh w where m: "meanwhile E 0 st0 = (sh, w)" by (rule prod.exhaust)
    have w: "w = snd st0" "sh_world sh = sh_world (fst st0)" using meanwhile_world(1,2) [of E 0 st0] m by simp_all
    have run0: "shim_run (app_rng E) opts 0 (sh, w)" using meanwhile_run [OF calm run, of 0] by (simp add: m)
    have st: "company (app_rng E) ?mine st1 8 (fst st, snd st)" using that by simp
    have "pw_executor (sh_world sh) = Some executor_fresh" "ib_ready (fst w)" using fresh ready by (simp_all add: w)
    from submitted_carried [OF run0 fits _ this bufs free sub [unfolded m] st] show ?thesis
      by (simp add: w demo_chunk_limit)
  qed
  obtain tp0 where "carried (snd (snd st0)) tid tp0 (sh_world (fst st3)) (snd st3)" "length (tp_chunks tp0) \<le> 3"
    "tp_bytes_total tp0 = demo_kv_bytes" using carry [OF companies(1)] by blast
  then obtain ex tp where tp: "pw_executor (sh_world (fst st3)) = Some ex" "map_of (ex_transfers ex) tid = Some tp"
    and inv: "exec_inv ex" and sizes: "tp_bytes_total tp = demo_kv_bytes" "length (tp_chunks tp) \<le> 3"
    by (auto simp: carried_def on_its_way_def dest: arg_cong [where f = length])
  show "tp_state (transfer_status (fst st5) tid) = Completed"
    unfolding st5
  proof (rule poll_until_completes [OF calm after(2) fits tp])
    have "unat (tp_bytes_remaining tp) + length (tp_chunks tp) * 99999 \<le> 805306368 + 3 * 99999"
      using remaining_le_total [of tp] exec_inv_lookup [OF inv tp(2)] sizes by (simp add: demo_chunk_limit)
    from div_le_mono [OF this, of 100000] show "(unat (tp_bytes_remaining tp) + length (tp_chunks tp) * 99999) div 100000 +
        length (tp_chunks tp) + waits tid (sh_world (fst st3)) < 20000"
      using sizes(2) after(3) by (simp add: steady_def)
  qed
  obtain tp0 where carried: "carried (snd (snd st0)) tid tp0 (sh_world (fst st5)) (snd st5)"
    and tp0: "tp_src_buf tp0 = ae_src E" "tp_dst_buf tp0 = ae_dst E" "tp_bytes_total tp0 = demo_kv_bytes"
    using carry [OF companies(2)] by blast
  then show "ib_ready (fst (snd st5))" by (auto simp: carried_def on_its_way_def)
  assume x: "x < unat demo_kv_bytes"
  show "snd (snd st5) (ae_dst E + of_nat x) = snd (snd st0) (ae_src E + of_nat x) \<and>
      snd (snd st5) (ae_src E + of_nat x) = snd (snd st0) (ae_src E + of_nat x)"
    using carried_delivers [OF carried \<open>tp_state _ = Completed\<close>, of x] x by (simp add: tp0)
qed

section \<open>Without a transport\<close>

text \<open>A transport that is not ready stays so and no byte moves.\<close>

definition idle :: "memory \<Rightarrow> wire \<Rightarrow> bool" where
  "idle m w \<longleftrightarrow> \<not> ib_ready (fst w) \<and> snd w = m"

lemma tick_drain_idle:
  assumes "idle m wire"
  shows "idle m (snd (snd (tick_and_drain dt utils clock lm w wire)))"
proof (cases "pw_executor w")
  case None
  then show ?thesis using assms by (simp add: tick_and_drain_def)
next
  case (Some ex)
  then have "snd (snd (tick_and_drain dt utils clock lm w wire)) =
      fst (snd (snd (ib_tick (Some kv_completed) (Some (edges (pw_graph w))) dt utils clock ex wire (pw_engine w))))"
    by (simp add: tick_and_drain_def case_prod_unfold Let_def)
  then show ?thesis
    using assms by (simp add: idle_def ib_tick_wire ib.tick_all_refused env_of_def)
qed

lemma poll_idle: "idle m (snd st) \<Longrightarrow> idle m (snd (snd (poll_transfers c dt st)))"
  by (simp add: poll_transfers_def case_prod_unfold Let_def tick_drain_idle)

lemma submit_idle:
  "idle m (snd st) \<Longrightarrow> idle m (snd (snd (submit_transfer c junk cls src dst nbytes deadline sb db st)))"
  by (simp add: submit_transfer_def case_prod_unfold Let_def tick_drain_idle)

lemma poll_times_idle: "idle m (snd st) \<Longrightarrow> idle m (snd (poll_times E k n st))"
  by (induction n arbitrary: k st) (simp_all add: poll_idle)

lemma submit_times_idle: "idle m (snd st) \<Longrightarrow> idle m (snd (submit_times E k n cls src dst nbytes deadline st))"
  by (induction n arbitrary: k st) (simp_all add: submit_idle)

lemma poll_until_idle: "idle m (snd st) \<Longrightarrow> idle m (snd (poll_until E k n tid st))"
  by (induction n arbitrary: k st) (simp_all add: Let_def poll_idle)

section \<open>Starting\<close>

lemma ib_init_ready: "ib_ready (snd (ib_init h (int kIbRailCount) ibverbs_fresh)) \<longleftrightarrow> sysfs_entries h \<noteq> None"
  by (auto simp: ib_init_def discover_sysfs_def discover_ib_device_names_def ibverbs_fresh_def load_ibverbs_def
      kIbRailCount_def case_prod_unfold Let_def split: option.split)

lemma initialize_parts:
  "fst (initialize R g0 host m weights enc dec rounds cursor opts ib) = True"
  "snd (snd (initialize R g0 host m weights enc dec rounds cursor opts ib)) = snd (ib_init host (int kIbRailCount) ib)"
  "sh_ucx (fst (snd (initialize R g0 host m weights enc dec rounds cursor opts ib))) =
     snd (open_iface ucx_config_default ucx_fresh)"
  "sh_decisions_made (fst (snd (initialize R g0 host m weights enc dec rounds cursor opts ib))) = 0"
proof -
  have one: "sh_decisions_made (refresh_predictions r x) = sh_decisions_made x" for r and x :: "'a shim"
    by (simp add: refresh_predictions_def Let_def)
  have "sh_decisions_made (fold refresh_predictions rs x) = sh_decisions_made x" for rs and x :: "'a shim"
    by (induction rs arbitrary: x) (simp_all add: one)
  then have sweep: "sh_decisions_made (run_profiling_sweep rs x) = sh_decisions_made x" for rs and x :: "'a shim"
    by (simp add: run_profiling_sweep_def Let_def)
  show "fst (initialize R g0 host m weights enc dec rounds cursor opts ib) = True"
    "snd (snd (initialize R g0 host m weights enc dec rounds cursor opts ib)) = snd (ib_init host (int kIbRailCount) ib)"
    "sh_ucx (fst (snd (initialize R g0 host m weights enc dec rounds cursor opts ib))) =
       snd (open_iface ucx_config_default ucx_fresh)"
    "sh_decisions_made (fst (snd (initialize R g0 host m weights enc dec rounds cursor opts ib))) = 0"
    by (simp_all add: initialize_def Let_def sweep)
qed

text \<open>What a program starts from.\<close>

lemma app_started:
  assumes "io_enable_executor opts"
  shows "\<exists>sh. app_initialize E opts ib = (True, sh, snd (ib_init (be_host (ae_boot E)) (int kIbRailCount) ib)) \<and>
    (\<forall>w. shim_run (app_rng E) opts 0 (sh, w)) \<and> pw_executor (sh_world sh) = Some executor_fresh \<and>
    sh_ucx sh = snd (open_iface ucx_config_default ucx_fresh) \<and> sh_decisions_made sh = 0"
proof (intro exI conjI allI)
  let ?b = "ae_boot E"
  let ?init = "initialize (be_rng ?b) (be_seed ?b) (be_host ?b) (be_machine ?b) (be_weights ?b) (be_enc ?b) (be_dec ?b)
      (be_rounds ?b) (be_cursor ?b) opts ib"
  show "app_initialize E opts ib = (True, fst (snd ?init), snd (ib_init (be_host ?b) (int kIbRailCount) ib))"
    by (simp add: app_initialize_def initialize_parts prod_eq_iff Let_def)
  show "shim_run (app_rng E) opts 0 (fst (snd ?init), w)" for w by (rule run_init)
  show "pw_executor (sh_world (fst (snd ?init))) = Some executor_fresh" using assms by (simp add: init_world)
qed (simp_all add: initialize_parts)

lemma weights_arg_simps [simp]:
  "io_num_nodes (weights_arg weights opts) = io_num_nodes opts"
  "io_gpus_per_node (weights_arg weights opts) = io_gpus_per_node opts"
  "io_enable_executor (weights_arg weights opts) = io_enable_executor opts"
  by (simp_all add: weights_arg_def split: option.split)

lemma app_options_fit:
  "cluster_fits (io_num_nodes (demo_options weights)) (io_gpus_per_node (demo_options weights))"
  "io_enable_executor (demo_options weights)"
  "cluster_fits (io_num_nodes (main_options weights)) (io_gpus_per_node (main_options weights))"
  "io_enable_executor (main_options weights)"
  by (simp_all add: cluster_fits_def demo_options_def main_options_def init_options_default_def cluster_edge_count_nat)

text \<open>Settings of the telemetry are steps of the daemon.\<close>

lemma run_daemon:
  assumes "(daemon_step R)\<^sup>*\<^sup>* (sh_telemetry sh) d" and "shim_run R opts n (sh, w)"
  shows "shim_run R opts n (sh\<lparr>sh_telemetry := d\<rparr>, w)"
  using polled_run [OF polled_daemon [OF assms(1) polled_none refl] assms(2)] .

lemma heat_rails_run:
  assumes "shim_run R opts n (sh, w)"
  shows "shim_run R opts n (heat_rails sh, w)"
proof -
  have one: "(daemon_step R)\<^sup>*\<^sup>* d (heat_rail es i d)" for es i and d :: "'a daemon"
    using step_inject [of R d] by (auto simp: heat_rail_def Let_def)
  have "(daemon_step R)\<^sup>*\<^sup>* d (fold (heat_rail es) is d)" for es "is" and d :: "'a daemon"
    by (induction "is" arbitrary: d) (auto intro: rtranclp_trans [OF one])
  then show ?thesis unfolding heat_rails_def using assms by (intro run_daemon)
qed

lemma main_congest_run: "shim_run R opts n (sh, w) \<Longrightarrow> shim_run R opts n (main_congest sh, w)"
  unfolding main_congest_def
  by (rule run_daemon) (use step_inject [of R] in \<open>blast intro: rtranclp.rtrancl_into_rtrancl\<close>)+

section \<open>A put of a program delivers\<close>

lemma app_put_delivers:
  assumes calm: "calm E" and run: "shim_run (app_rng E) opts n st"
    and fits: "cluster_fits (io_num_nodes opts) (io_gpus_per_node opts)" and n: "Suc n < 2 ^ 64"
    and steady: "steady (\<lambda>a. in_range a buf u \<or> in_range a remote u) i m (sh_world (fst st))"
    and ucx: "sh_ucx (fst st) = snd (open_iface ucx_config_default ucx_fresh)" and ready: "ib_ready (fst (snd st))"
    and bufs: "buffers_sound \<lparr>so_src_buf = buf, so_dst_buf = remote\<rparr> (8 * kMiB)" and u: "u = unat (8 * kMiB)"
    and res: "app_put E k l r buf remote deadline st = Some st'"
  shows "verify_prefix buf remote u (snd (snd st'))"
proof -
  obtain sh w where m: "meanwhile E k st = (sh, w)" by (rule prod.exhaust)
  have sh: "w = snd st" "sh_world sh = sh_world (fst st)" "sh_ucx sh = sh_ucx (fst st)"
    using meanwhile_world(1-3) [of E k st] m by simp_all
  have run1: "shim_run (app_rng E) opts n (sh, w)" using meanwhile_run [OF calm run, of k] by (simp add: m)
  obtain ex where ex: "pw_executor (sh_world sh) = Some ex"
    and alone: "\<forall>(j, W) \<in> set (footprint ex). \<forall>a. W a \<longrightarrow> \<not> (in_range a buf u \<or> in_range a remote u)"
    using steady by (auto simp: steady_def leaves_alone_def sh)
  have free: "buffers_free ex buf remote (unat (8 * kMiB))"
    using alone by (auto simp: buffers_free_def footprint_def u)
  obtain ep where ep: "create_ep (sh_ucx (fst st)) l r = Some ep" using ucx by (simp add: create_ep_def open_iface_def)
  obtain rc req st1 where put: "zcopy_put (ae_clock E k) (ae_junk E) ep buf (8 * kMiB) KVMigration deadline remote
      ucx_request_fresh (sh, w) = (rc, req, st1)" by (rule prod_cases3)
  have iface: "ux_open (sh_ucx sh)" "8 * kMiB \<le> uc_max_zcopy_bytes (ux_config (sh_ucx sh))"
    using ucx by (simp_all add: sh open_iface_def ucx_config_default_def kMiB_def)
  have "\<exists>sh' wire'. wait_completed (\<lambda>j. ae_clock E (Suc k + j)) (\<lambda>j. ae_daemon E (Suc k + j)) 1 req 0 st1 = Some (sh', wire') \<and>
      (\<forall>x < unat (8 * kMiB). snd wire' (remote + of_nat x) = snd w (buf + of_nat x) \<and>
        snd wire' (buf + of_nat x) = snd w (buf + of_nat x))"
    using put_delivers [where dt = 1 and k = 0 and clocks = "\<lambda>j. ae_clock E (Suc k + j)" and
        D = "\<lambda>j. ae_daemon E (Suc k + j)", OF run1 fits n ex iface _ bufs free _ _ put] ready by (auto simp: sh)
  then show ?thesis
    using res put ep by (auto simp: app_put_def m verify_prefix_iff u Let_def)
qed

section \<open>The demo's exit code\<close>

text \<open>The four buffers are where an allocator may put them.\<close>

definition demo_buffers :: "'g app_env \<Rightarrow> bool" where
  "demo_buffers E \<longleftrightarrow>
     buffers_sound \<lparr>so_src_buf = ae_src E, so_dst_buf = ae_dst E\<rparr> demo_kv_bytes \<and>
     buffers_sound \<lparr>so_src_buf = ae_ucx_src E, so_dst_buf = ae_ucx_dst E\<rparr> (8 * kMiB) \<and>
     ranges_disjoint (ae_dst E) (unat demo_kv_bytes) (ae_ucx_src E) (unat (8 * kMiB)) \<and>
     ranges_disjoint (ae_dst E) (unat demo_kv_bytes) (ae_ucx_dst E) (unat (8 * kMiB))"

text \<open>The memory the demo fills before the migration.\<close>

definition demo_filled :: "'g app_env \<Rightarrow> memory \<Rightarrow> memory" where
  "demo_filled E m = fill_pattern (ae_src E) (unat demo_kv_bytes) 0xA5
     (zeroed (ae_dst E) (unat demo_kv_bytes) (zeroed (ae_src E) (unat demo_kv_bytes) m))"

lemma ranges_disjoint_not: "ranges_disjoint p n q m \<Longrightarrow> in_range a p n \<Longrightarrow> \<not> in_range a q m"
  by (auto simp: ranges_disjoint_def)

lemma demo_filled_differs:
  assumes "demo_buffers E"
  shows "\<not> verify_prefix (ae_src E) (ae_dst E) (unat demo_kv_bytes) (demo_filled E m)"
proof -
  let ?n = "unat demo_kv_bytes"
  have n: "?n \<le> 2 ^ 64" "0 < ?n" by (simp_all add: demo_chunk_limit)
  have "in_range (ae_dst E) (ae_dst E) ?n" using n by (simp add: in_range_def)
  moreover have "\<not> in_range (ae_dst E) (ae_src E) ?n"
    using assms calculation ranges_disjoint_not [of "ae_src E" ?n "ae_dst E" ?n "ae_dst E"]
    by (auto simp: demo_buffers_def buffers_sound_def)
  ultimately have "demo_filled E m (ae_dst E) = 0"
    by (simp add: demo_filled_def fill_pattern_outside [OF n(1)] zeroed_def)
  moreover have "demo_filled E m (ae_src E) = 0xA5"
    using fill_pattern_inside [OF n, of "ae_src E" "0xA5"] by (simp add: demo_filled_def)
  ultimately show ?thesis using n(2) by (auto simp: verify_prefix_iff intro!: exI [of _ 0])
qed

lemma demo_start:
  assumes "fst w = ibverbs_fresh"
  shows "\<exists>sh ib. app_initialize E (demo_options weights) (fst w) = (True, sh, ib) \<and>
    (ib_ready ib \<longleftrightarrow> sysfs_entries (be_host (ae_boot E)) \<noteq> None) \<and>
    shim_run (app_rng E) (demo_options weights) 0 (heat_rails sh, (ib, m)) \<and>
    pw_executor (sh_world (heat_rails sh)) = Some executor_fresh \<and>
    sh_ucx (heat_rails sh) = snd (open_iface ucx_config_default ucx_fresh)"
proof -
  obtain sh ib where sh: "app_initialize E (demo_options weights) (fst w) = (True, sh, ib)"
    "ib_ready ib \<longleftrightarrow> sysfs_entries (be_host (ae_boot E)) \<noteq> None"
    "shim_run (app_rng E) (demo_options weights) 0 (sh, (ib, m))"
    "pw_executor (sh_world sh) = Some executor_fresh" "sh_ucx sh = snd (open_iface ucx_config_default ucx_fresh)"
    using app_started [of "demo_options weights" E "fst w"] app_options_fit(2) assms ib_init_ready by auto
  then show ?thesis using heat_rails_run [OF sh(3)] by (intro exI [of _ sh] exI [of _ ib]) (simp add: heat_rails_def)
qed

text \<open>The demo after its start, with the parts its exit code is made of.\<close>

lemma demo_parts:
  assumes start: "app_initialize E (demo_options weights) (fst w) = (True, sh, ib)"
    and sub: "submit_transfer (ae_clock E 0) (ae_junk E) KVMigration (gpu 0 0) (gpu 1 0) demo_kv_bytes 200000
      (ae_src E) (ae_dst E) (meanwhile E 0 (heat_rails sh, (ib, demo_filled E (snd w)))) = (tid, st1)"
    and st3: "st3 = submit_times E 3 8 TensorParallel (gpu 0 0) (gpu 1 0) (4 * kMiB) 5 (poll_times E 1 2 st1)"
    and st5: "st5 = poll_until E 11 20000 tid st3"
    and m': "m' = fill_pattern (ae_ucx_src E) u 0x3C (zeroed (ae_ucx_dst E) u (zeroed (ae_ucx_src E) u (snd (snd st5))))"
    and u: "u = unat (8 * kMiB)"
    and put: "app_put E 20011 (gpu 0 1) (gpu 1 1) (ae_ucx_src E) (ae_ucx_dst E) 50000
      (fst st5, (fst (snd st5), m')) = Some (sh', w')"
  shows "\<exists>w''. demo_main E weights w = Some (if verify_prefix (ae_src E) (ae_dst E) (unat demo_kv_bytes) (snd (snd st5)) \<and>
      verify_prefix (ae_ucx_src E) (ae_ucx_dst E) u (snd w') \<and> tp_state (transfer_status (fst st5) tid) = Completed
      then 0 else 2, sh', w'')"
proof -
  have "demo_migrate E (heat_rails sh, (ib, demo_filled E (snd w))) = (tid, st5)"
    using sub by (simp add: demo_migrate_def st3 st5)
  then show ?thesis
    using start put by (simp add: demo_main_def demo_filled_def m' u Let_def case_prod_unfold)
qed

text \<open>The state the last part starts from.\<close>

lemma demo_reaches:
  assumes calm: "calm E" and buffers: "demo_buffers E" and run: "shim_run (app_rng E) opts 0 st0"
    and fits: "cluster_fits (io_num_nodes opts) (io_gpus_per_node opts)"
    and fresh: "pw_executor (sh_world (fst st0)) = Some executor_fresh"
    and sub: "submit_transfer (ae_clock E 0) (ae_junk E) KVMigration (gpu 0 0) (gpu 1 0) demo_kv_bytes 200000
      (ae_src E) (ae_dst E) (meanwhile E 0 st0) = (tid, st1)"
    and st3: "st3 = submit_times E 3 8 TensorParallel (gpu 0 0) (gpu 1 0) (4 * kMiB) 5 (poll_times E 1 2 st1)"
    and st5: "st5 = poll_until E 11 20000 tid st3" and u: "u = unat (8 * kMiB)"
  shows "shim_run (app_rng E) opts 9 (fst st5, w)" and "sh_ucx (fst st5) = sh_ucx (fst st0)"
    and "steady (\<lambda>a. in_range a (ae_ucx_src E) u \<or> in_range a (ae_ucx_dst E) u) tid 9 (sh_world (fst st5))"
proof -
  let ?mine = "\<lambda>a. in_range a (ae_ucx_src E) u \<or> in_range a (ae_ucx_dst E) u"
  have apart: "\<not> ?mine a" if "in_range a (ae_dst E) (unat demo_kv_bytes)" for a
    using buffers that ranges_disjoint_not [OF _ that] by (auto simp: demo_buffers_def u)
  note parts = demo_submitted [where mine = ?mine, OF calm run fits fresh apart sub st3]
  show "steady ?mine tid 9 (sh_world (fst st5))" "sh_ucx (fst st5) = sh_ucx (fst st0)"
    using poll_until_steady [OF parts(3)] parts(4) by (simp_all add: st5)
  obtain r where "polled (app_rng E) 100000 (0 + r) st3 st5"
    using poll_until_rounds [where k = 11 and n = 20000 and tid = tid, OF calm polled_none company_none [where st = st3]]
    unfolding st5 by blast
  then have "shim_run (app_rng E) opts 9 (fst st5, snd st5)" using polled_run parts(2) by simp
  then show "shim_run (app_rng E) opts 9 (fst st5, w)" by (rule run_host)
qed

lemma demo_idle:
  assumes "idle m (snd st0)" and "submit_transfer c junk cls src dst nbytes deadline sb db (meanwhile E 0 st0) = (tid, st1)"
  shows "idle m (snd (poll_until E k1 n1 tid (submit_times E k2 n2 cls2 src2 dst2 nbytes2 deadline2 (poll_times E k3 n3 st1))))"
proof -
  have "idle m (snd st1)"
    using submit_idle [of m "meanwhile E 0 st0" c junk cls src dst nbytes deadline sb db] assms by simp
  then show ?thesis by (intro poll_until_idle submit_times_idle poll_times_idle)
qed

text \<open>
  C3. The demo ends with an exit code that depends on one thing.  Whatever the weights, the telemetry, its
  thread and the clock, and wherever its buffers are put, it returns: 0, every check passed, if
  \<open>/sys/class/infiniband\<close> can be opened, whether or not there is a device or a library in it, and 2 if
  it cannot.
\<close>
theorem demo_exit_code:
  assumes "daemon_moves (be_rng (ae_boot E)) (ae_daemon E)" and "demo_buffers E" and "fst w = ibverbs_fresh"
  shows "\<exists>sh w'. demo_main E weights w =
    Some (if sysfs_entries (be_host (ae_boot E)) = None then 2 else 0, sh, w')"
proof -
  let ?opts = "demo_options weights" and ?n = "unat demo_kv_bytes" and ?u = "unat (8 * kMiB)"
  obtain sh ib where start: "app_initialize E ?opts (fst w) = (True, sh, ib)"
    and ib: "ib_ready ib \<longleftrightarrow> sysfs_entries (be_host (ae_boot E)) \<noteq> None"
    and run0: "shim_run (app_rng E) ?opts 0 (heat_rails sh, (ib, demo_filled E (snd w)))"
    and fresh: "pw_executor (sh_world (heat_rails sh)) = Some executor_fresh"
      "sh_ucx (heat_rails sh) = snd (open_iface ucx_config_default ucx_fresh)"
    using demo_start [OF assms(3)] by blast
  let ?st0 = "(heat_rails sh, (ib, demo_filled E (snd w)))"
  have new: "pw_executor (sh_world (fst ?st0)) = Some executor_fresh" using fresh(1) by simp
  obtain tid st1 where sub: "submit_transfer (ae_clock E 0) (ae_junk E) KVMigration (gpu 0 0) (gpu 1 0) demo_kv_bytes 200000
      (ae_src E) (ae_dst E) (meanwhile E 0 ?st0) = (tid, st1)" by (rule prod.exhaust)
  define st3 where "st3 = submit_times E 3 8 TensorParallel (gpu 0 0) (gpu 1 0) (4 * kMiB) 5 (poll_times E 1 2 st1)"
  define st5 where "st5 = poll_until E 11 20000 tid st3"
  define m' where "m' = fill_pattern (ae_ucx_src E) ?u 0x3C (zeroed (ae_ucx_dst E) ?u (zeroed (ae_ucx_src E) ?u (snd (snd st5))))"
  let ?st6 = "(fst st5, (fst (snd st5), m'))"
  note at5 = demo_reaches [OF assms(1,2) run0 app_options_fit(1) new sub st3_def st5_def refl]
  have ucx: "sh_ucx (fst ?st6) = snd (open_iface ucx_config_default ucx_fresh)" using at5(2) fresh(2) by simp
  have exec: "pw_executor (sh_world (fst ?st6)) \<noteq> None" using at5(3) by (simp add: steady_def)
  from app_put_returns [OF assms(1) at5(1) app_options_fit(1) exec ucx] obtain sh' w' where
    put: "app_put E 20011 (gpu 0 1) (gpu 1 1) (ae_ucx_src E) (ae_ucx_dst E) 50000 ?st6 = Some (sh', w')" by blast
  note main = demo_parts [OF start sub st3_def st5_def m'_def refl put]
  show ?thesis
  proof (cases "sysfs_entries (be_host (ae_boot E)) = None")
    case True
    then have "idle (demo_filled E (snd w)) (snd ?st0)" by (simp add: idle_def ib)
    from demo_idle [OF this sub] have "snd (snd st5) = demo_filled E (snd w)"
      by (simp add: st5_def st3_def idle_def)
    then show ?thesis using main demo_filled_differs [OF assms(2)] True by auto
  next
    case False
    have kv: "buffers_sound \<lparr>so_src_buf = ae_src E, so_dst_buf = ae_dst E\<rparr> demo_kv_bytes"
      and put_bufs: "buffers_sound \<lparr>so_src_buf = ae_ucx_src E, so_dst_buf = ae_ucx_dst E\<rparr> (8 * kMiB)"
      using assms(2) by (simp_all add: demo_buffers_def)
    have ready: "ib_ready (fst (snd ?st0))" using False by (simp add: ib)
    note done_kv = demo_migrate_delivers [OF assms(1) run0 app_options_fit(1) new ready kv sub st3_def st5_def]
    have "verify_prefix (ae_src E) (ae_dst E) ?n (snd (snd st5))" using done_kv(3) by (simp add: verify_prefix_iff)
    moreover have "verify_prefix (ae_ucx_src E) (ae_ucx_dst E) ?u (snd w')"
      using app_put_delivers [OF assms(1) at5(1) app_options_fit(1) _ _ ucx _ put_bufs refl put] at5(3) done_kv(2) by simp
    ultimately show ?thesis using main done_kv(1) False by auto
  qed
qed

text \<open>A machine without any source, a daemon whose thread does nothing, and buffers a gigabyte apart.\<close>

definition still_env :: "string list option \<Rightarrow> unit app_env" where
  "still_env sysfs = \<lparr>
     ae_boot = \<lparr>be_rng = quiet_rng, be_seed = (), be_host = no_ib\<lparr>sysfs_entries := sysfs\<rparr>, be_machine = bare_machine,
       be_weights = (\<lambda>_. None), be_enc = (\<lambda>_. 0), be_dec = (\<lambda>_. 0), be_rounds = 2, be_cursor = 0\<rparr>,
     ae_daemon = (\<lambda>_ d. d), ae_clock = (\<lambda>_. still_clock), ae_junk = 0, ae_src = 0x40000000, ae_dst = 0x80000000,
     ae_ucx_src = 0xC0000000, ae_ucx_dst = 0x100000000, ae_ep = pair_ep\<rparr>"

lemma still_env_ok:
  "daemon_moves (be_rng (ae_boot (still_env sysfs))) (ae_daemon (still_env sysfs))" "demo_buffers (still_env sysfs)"
  by (simp_all add: still_env_def daemon_moves_def demo_buffers_def buffers_sound_def demo_chunk_limit kMiB_def
      ranges_disjoint_below)

theorem demo_exit_code_witness:
  "\<exists>sh w' sh2 w2. demo_main (still_env None) None (ibverbs_fresh, \<lambda>a. 0) = Some (2, sh, w') \<and>
     demo_main (still_env (Some [])) None (ibverbs_fresh, \<lambda>a. 0) = Some (0, sh2, w2)"
proof -
  have "sysfs_entries (be_host (ae_boot (still_env sysfs))) = sysfs" for sysfs by (simp add: still_env_def)
  with demo_exit_code [OF still_env_ok, of "(ibverbs_fresh, \<lambda>a. 0)" None None]
    demo_exit_code [OF still_env_ok, of "(ibverbs_fresh, \<lambda>a. 0)" "Some []" None]
  show ?thesis by simp
qed

section \<open>The sample program\<close>

lemma main_start:
  assumes "shim_run (app_rng E) opts 0 (sh, w)"
  shows "shim_run (app_rng E) opts 0 (main_congest (snd (main_sample sh)), w)"
    and "pw_executor (sh_world sh) \<noteq> None \<Longrightarrow> pw_executor (sh_world (main_congest (snd (main_sample sh)))) \<noteq> None"
    and "sh_ucx (main_congest (snd (main_sample sh))) = sh_ucx sh"
    and "sh_decisions_made (main_congest (snd (main_sample sh))) = sh_decisions_made sh"
proof -
  have "shim_run (app_rng E) opts 0 (snd (main_sample sh), w)"
    using run_select [OF assms, of main_request "replicate (length (shim_edges sh)) 0.3"]
    by (simp add: main_sample_def case_prod_unfold Let_def)
  then show "shim_run (app_rng E) opts 0 (main_congest (snd (main_sample sh)), w)" by (rule main_congest_run)
  show "pw_executor (sh_world sh) \<noteq> None \<Longrightarrow> pw_executor (sh_world (main_congest (snd (main_sample sh)))) \<noteq> None"
    using select_executor [of "sh_predictor sh" main_request _ "sh_world sh"]
    by (simp add: main_congest_def main_sample_def case_prod_unfold Let_def)
qed (simp_all add: main_congest_def main_sample_def case_prod_unfold Let_def)

lemma main_load_reaches:
  assumes "calm E" and fits: "cluster_fits (io_num_nodes opts) (io_gpus_per_node opts)"
    and run: "shim_run (app_rng E) opts 0 st0" and exec: "pw_executor (sh_world (fst st0)) \<noteq> None"
  shows "shim_run (app_rng E) opts 96 (fst (main_load E st0), w)"
    and "pw_executor (sh_world (fst (main_load E st0))) \<noteq> None"
    and "sh_ucx (fst (main_load E st0)) = sh_ucx (fst st0)"
    and "sh_decisions_made (fst (main_load E st0)) = sh_decisions_made (fst st0) + 96"
proof -
  let ?m = "waits 0 (sh_world (fst st0))"
  have steady0: "steady (\<lambda>a. False) 0 ?m (sh_world (fst st0))"
    using exec by (auto simp: steady_def leaves_alone_def)
  define st1 where "st1 = submit_times E 0 64 KVMigration (gpu 0 0) (gpu 0 1) (256 * 1024 * 1024) 50000 st0"
  define st2 where "st2 = submit_times E 64 32 TensorParallel (gpu 0 0) (gpu 0 1) (4 * 1024 * 1024) 5 st1"
  have load: "main_load E st0 = poll_times E 96 200 st2" by (simp add: main_load_def st1_def st2_def)
  have one: "shim_run (app_rng E) opts 64 st1" "steady (\<lambda>a. False) 0 (?m + 64) (sh_world (fst st1))"
    "sh_ucx (fst st1) = sh_ucx (fst st0)" "sh_decisions_made (fst st1) = sh_decisions_made (fst st0) + 64"
    using submit_times_steady [where n = 64 and k = 0, OF assms(1) fits run steady0] by (simp_all add: st1_def)
  have two: "shim_run (app_rng E) opts 96 st2" "steady (\<lambda>a. False) 0 (?m + 96) (sh_world (fst st2))"
    "sh_ucx (fst st2) = sh_ucx (fst st0)" "sh_decisions_made (fst st2) = sh_decisions_made (fst st0) + 96"
    using submit_times_steady [where n = 32 and k = 64, OF assms(1) fits one(1,2)] one(3,4)
    by (simp_all add: st2_def add.assoc)
  have "shim_run (app_rng E) opts 96 (fst (main_load E st0), snd (main_load E st0))"
    using polled_run [OF poll_times_polled [OF assms(1) polled_none] two(1)] by (simp add: load)
  then show "shim_run (app_rng E) opts 96 (fst (main_load E st0), w)" by (rule run_host)
  show "pw_executor (sh_world (fst (main_load E st0))) \<noteq> None" "sh_ucx (fst (main_load E st0)) = sh_ucx (fst st0)"
    "sh_decisions_made (fst (main_load E st0)) = sh_decisions_made (fst st0) + 96"
    using poll_times_steady [OF two(2)] two(3,4) by (simp_all add: load steady_def)
qed

text \<open>
  C11. The sample program always returns 0.  Whatever the machine, the weights, the telemetry, its thread, the
  clock and the buffer, the loop that waits for its put ends, and 97 decisions have been counted: one
  for each of its 96 submissions and one for the put; the one it asks of the path engine is not.
\<close>
theorem main_returns:
  assumes "daemon_moves (be_rng (ae_boot E)) (ae_daemon E)"
  shows "\<exists>sh w'. hics_main E weights w = Some (0, sh, w') \<and> sh_decisions_made sh = 97"
proof -
  let ?opts = "main_options weights"
  obtain sh ib where start: "app_initialize E ?opts (fst w) = (True, sh, ib)"
    and run: "shim_run (app_rng E) ?opts 0 (sh, (ib, snd w))"
    and sh: "pw_executor (sh_world sh) = Some executor_fresh" "sh_ucx sh = snd (open_iface ucx_config_default ucx_fresh)"
      "sh_decisions_made sh = 0"
    using app_started [of ?opts E "fst w"] app_options_fit(4) by auto
  define st where "st = main_load E (main_congest (snd (main_sample sh)), (ib, snd w))"
  define m where "m = zeroed (ae_src E) (unat (8 * kMiB)) (snd (snd st))"
  note load = main_load_reaches [OF assms app_options_fit(3) main_start(1) [OF run], folded st_def]
  have "sh_decisions_made (fst st) = 96" "sh_ucx (fst st) = sh_ucx sh" "pw_executor (sh_world (fst st)) \<noteq> None"
    using load(2-4) main_start(2-4) [OF run] sh by simp_all
  then obtain sh' w' where put: "app_put E 296 (gpu 0 0) (gpu 1 0) (ae_src E) 0 (-1) (fst st, (fst (snd st), m)) = Some (sh', w')"
    and count: "sh_decisions_made sh' = 97"
    using app_put_returns [OF assms load(1) app_options_fit(3), of "(fst (snd st), m)" 296 "gpu 0 0" "gpu 1 0" "ae_src E" 0 "-1"]
      main_start(2) [OF run] sh by auto
  have "hics_main E weights w = Some (0, sh', w')"
    using put start by (simp add: hics_main_def st_def m_def Let_def)
  with count show ?thesis by blast
qed

theorem main_returns_witness:
  "\<exists>sh w'. hics_main (still_env None) None (ibverbs_fresh, \<lambda>a. 0) = Some (0, sh, w') \<and> sh_decisions_made sh = 97"
  by (rule main_returns [OF still_env_ok(1)])

end
