(* ===== verification/Spec2Isabelle.thy ===== *)
theory Spec2Isabelle
  imports Search Cluster Executor_Props Executor_Data Executor_Live Lstm_File Path_Props
    Telemetry_Props Plugin_Props Plugin_Live Apps_Props
begin

text \<open>
  A model of HICS, a library that routes the traffic of a GPU cluster: it chooses the paths of transfers
  from the measured and the predicted utilisation of the links, moves their chunks over two InfiniBand
  rails, and offers this to NCCL and UCX.

  The program and how its parts interact.  \<open>HICSShim\<close> (\<open>shim/shim.cpp\<close>) owns one of each part.  At start it
  builds the graph of the cluster and its path cache (\<open>topology/\<close>), loads the predictor (\<open>lstm/\<close>), sets up
  the telemetry daemon (\<open>telemetry/\<close>), the executor (\<open>transfer/\<close>), the path engine (\<open>path_engine/\<close>) and the
  UCX transport.  A submission takes a snapshot of the telemetry ring, lets the path engine choose or
  stripe the paths, enters the transfer in the executor, ticks the executor, which moves bytes through
  the ibverbs transport and calls back into the engine, and reroutes what was stopped at a chunk
  boundary.  The plugin for NCCL and the UCX surface turn their requests into submissions and polls.

  Theories, in the order of the imports, and what they model:
    \<^item> \<open>Prelude\<close>: collections of rules, lemmas on lists, maps and words.
    \<^item> \<open>Model\<close>: \<open>model/model.hpp\<close>.  \<open>Topology\<close>, \<open>Search\<close>: \<open>topology/topology.cpp\<close>, the graph, its cache, Dijkstra
      and Yen.  \<open>Cluster\<close>: the builders of the cluster.
    \<^item> \<open>Ibverbs\<close>: \<open>shim/ibverbs_transport.cpp\<close>, devices and work requests over a memory.
    \<^item> \<open>Executor\<close>: \<open>transfer/transfer_executor.cpp\<close>; \<open>Executor_Inv\<close>, \<open>_Drain\<close>, \<open>_Steps\<close>, \<open>_Props\<close>, \<open>_Data\<close> and \<open>_Live\<close>:
      its invariant, its operations on the whole table, its steps as a relation, accounting and states,
      delivery of data, and progress.
    \<^item> \<open>Lstm\<close>, \<open>Lstm_Props\<close>, \<open>Lstm_File\<close>: \<open>lstm/lstm_predictor.cpp\<close>, the network, its history and cache, its file.
    \<^item> \<open>Path_Engine\<close>, \<open>Path_Props\<close>: \<open>path_engine/path_engine.cpp\<close>.
    \<^item> \<open>Telemetry_Ring\<close>: the ring of samples.  \<open>Host_Files\<close>: what the samplers read of sysfs.  \<open>Hw_Counters\<close>,
      \<open>Ib_Mad\<close>, \<open>Pmu\<close>: \<open>telemetry/hw_counters.cpp\<close>, \<open>ib_mad.cpp\<close>, \<open>pmu_counters.cpp\<close>, the sources.  \<open>Telemetry\<close>,
      \<open>Telemetry_Props\<close>: \<open>telemetry/telemetry.cpp\<close>, the daemon over them.
    \<^item> \<open>Cuda_Mr\<close>: \<open>shim/cuda_mr.cpp\<close>, the CUDA helpers and the registry of memory regions, with the contract
      \<open>handle_table\<close> of a table whose ids are handed out.
    \<^item> \<open>Shim\<close>, \<open>Shim_Props\<close>: \<open>shim/shim.cpp\<close>; \<open>Reroutes\<close>, \<open>Shim_Live\<close>, \<open>Shim_Data\<close>: the reroutes after a preemption,
      progress and delivery over everything the shim may do.  \<open>Ucx\<close>, \<open>Ucx_Props\<close>: \<open>shim/ucx_transport.cpp\<close> and
      the loop that waits for a request.  \<open>Nccl_Plugin\<close>, \<open>Plugin_Props\<close>, \<open>Plugin_Live\<close>:
      \<open>shim/nccl_plugin.cpp\<close>, its tables and receives, and that tests of a request end.
    \<^item> \<open>Apps\<close>, \<open>Apps_Props\<close>: the two programs, \<open>apps/kv_migration_demo.cpp\<close> (\<open>demo_main\<close>) and \<open>apps/main.cpp\<close>
      (\<open>hics_main\<close>), with the thread of the telemetry at work between their calls.

  How the code is read.  Structures are records, enumerations datatypes, unsigned integers words of
  their width that wrap, \<open>int\<close> is int, \<open>float\<close> and \<open>double\<close> are reals without rounding, maps are association
  lists or maps, pointers are addresses.  State is passed and returned.  A mutex makes an operation one
  step.  An operation that would read what is not there answers \<open>None\<close>.  Where the order of a container
  is not determined, sorting is stable and the order in which a map is walked is an argument.  Clocks,
  addresses of new objects, random numbers and uninitialised values are arguments too, as is what the
  program finds outside: sysfs and other files, the NVML, umad, perf and CUDA libraries, the encoding of
  floats.  Of these the properties assume only what they state.

  What the lemmas show:
    \<^item> data: chunks cover a transfer, bytes are accounted for, and a completed transfer has delivered every
      byte, whatever operations ran in between, \<open>drain_ready\<close> among them while no active transfer has a
      chunk that waits for its rail; over the shim, UCX and NCCL this becomes a property of the
      calls: a put is delivered, a receive paired with a send gets its data.
    \<^item> progress: a tick between ten nanoseconds and ten seconds (in milliseconds \<open>1 / 10^5\<close> to \<open>10^4\<close>) takes
      away some of the work left, a natural number, so ticks, waiting loops and repeated tests end.
      Preemption does not stop a transfer for good: over the shim a transfer that is being suspended always
      has a reroute waiting for it and a path to be put on, and polls finish it at a rate.
    \<^item> company: a completed transfer has delivered its buffer although other transfers were submitted,
      preempted and rerouted meanwhile (the relation \<open>company\<close> says what may happen).
    \<^item> programs: both end, and the exit code of the demo tells whether the directory of the InfiniBand devices
      can be opened.
    \<^item> routing: the search finds the cheapest admissible paths in order, the classes of traffic keep to their
      fabrics, striping partitions a request, preemption takes the transfers with most slack.
    \<^item> prediction: bounded outputs for any weights, the file format, histories of sixteen samples.
    \<^item> telemetry: the ring implements a log of 512 samples, utilisations are between 0 and 1, counters
      and event descriptions are decoded exactly.
    \<^item> tables: ids of requests and regions are fresh, not null and name one entry (interpretations of
      \<open>handle_table\<close>).
    \<^item> composition: every run of the shim, and of the plugin over it, keeps all of these invariants.
    \<^item> errors: what happens without a route, without an executor, without a transport, with a file cut
      short, when a counter wraps or is looked for in reserved bytes, when receives meet receives, and
      when \<open>drain_ready\<close> meets a chunk that waits: it then reports the transfer complete all the same.

  Bounds.  Ids are 64 bit counters: runs of fewer than \<open>2^64\<close> submissions or registrations.  \<open>drain_ready\<close>
  gives up after 10000 rounds, as the code does.  Yen's search and striping recurse on measures, the
  waiting loop is a partial function whose termination is proved where it holds; the profiling sweep,
  which the code bounds by time, takes the rings it sees as a list.

  Not modelled: what the programs print, log messages and strings of diagnosis; threads, beyond the
  collector's round as a step between the other operations; the failure of memory allocation; rounding;
  the Rust and Python files (\<open>shim.rs\<close>, the profiler, the training of the predictor), which the library
  does not call.
\<close>

end
